(* ===== verification/Py_Prelude.thy ===== *)
theory Py_Prelude
  imports Main "HOL-Library.AList"
begin

text \<open>
  Shared vocabulary of the development: the fragment of Python's runtime that the modelled
  modules use, and the generic lemmas their proofs share.

  \<^item> Exceptions are values: a function that may raise returns \<open>exn + 'a\<close>, with
    \<open>Inl\<close> for the exception. An exception is kept as its class; message texts are not
    modelled. \<open>is_value_error\<close> is the \<open>isinstance(e, ValueError)\<close> test that an
    \<open>except ValueError\<close> clause makes, so the subclass relation is explicit.
  \<^item> A Python string is a \<open>string\<close> whose characters are the code points 0 to 255; the
    theories on token estimation use lists of arbitrary code points instead.
  \<^item> A dict is an association list in insertion order, written with \<open>AList.update\<close>
    (which keeps the position of an existing key and appends a new one) and
    \<open>AList.delete\<close>, as CPython's dict does.
\<close>

section \<open>Exceptions as values\<close>

datatype exn =
    ValueError
  | NamespaceShapeError
  | InvalidURIError
  | PermissionDeniedError
  | InvalidArgumentError
  | KeyError
  | TypeError
  | RuntimeError
  | TimeoutError
  | CircuitBreakerOpen
  | StoreError
  | OverflowError
  | AttributeError
  | ArchiveMessagesCorruptError

type_synonym 'a res = "exn + 'a"

fun is_value_error :: "exn \<Rightarrow> bool" where
  "is_value_error ValueError = True"
| "is_value_error NamespaceShapeError = True"
| "is_value_error ArchiveMessagesCorruptError = True"
| "is_value_error _ = False"

fun bind_res :: "'a res \<Rightarrow> ('a \<Rightarrow> 'b res) \<Rightarrow> 'b res" where
  "bind_res (Inl e) f = Inl e"
| "bind_res (Inr x) f = f x"

lemma bind_res_Inr_iff: "bind_res m f = Inr y \<longleftrightarrow> (\<exists>x. m = Inr x \<and> f x = Inr y)"
  by (cases m) auto

lemma bind_res_cong [fundef_cong]:
  "m = m' \<Longrightarrow> (\<And>x. m' = Inr x \<Longrightarrow> f x = g x) \<Longrightarrow> bind_res m f = bind_res m' g"
  by (cases m') auto

section \<open>Collections of rewrite rules\<close>

named_theorems py_str \<open>unfolding of the string helpers\<close>
named_theorems inv_intros \<open>preservation of component invariants by operations\<close>

section \<open>Strings\<close>

definition startswith :: "string \<Rightarrow> string \<Rightarrow> bool" where
  [py_str]: "startswith s p \<longleftrightarrow> take (length p) s = p"

definition endswith :: "string \<Rightarrow> string \<Rightarrow> bool" where
  [py_str]: "endswith s p \<longleftrightarrow> length p \<le> length s \<and> drop (length s - length p) s = p"

definition lstrip_by :: "(char \<Rightarrow> bool) \<Rightarrow> string \<Rightarrow> string" where
  [py_str]: "lstrip_by P s = dropWhile P s"

definition rstrip_by :: "(char \<Rightarrow> bool) \<Rightarrow> string \<Rightarrow> string" where
  [py_str]: "rstrip_by P s = rev (dropWhile P (rev s))"

definition strip_by :: "(char \<Rightarrow> bool) \<Rightarrow> string \<Rightarrow> string" where
  [py_str]: "strip_by P s = rstrip_by P (lstrip_by P s)"

abbreviation is_slash :: "char \<Rightarrow> bool" where
  "is_slash c \<equiv> c = CHR ''/''"

text \<open>\<open>str.isspace\<close> on the code points 0 to 255, the set \<open>str.strip()\<close> removes.\<close>

definition is_space :: "char \<Rightarrow> bool" where
  "is_space c \<longleftrightarrow>
     (let n = (of_char c :: nat)
      in (9 \<le> n \<and> n \<le> 13) \<or> (28 \<le> n \<and> n \<le> 32) \<or> n = 133 \<or> n = 160)"

definition py_strip :: "string \<Rightarrow> string" where
  "py_strip s = strip_by is_space s"

text \<open>\<open>s.split(c)\<close> for a one-character separator: never the empty list.\<close>

fun split_on :: "char \<Rightarrow> string \<Rightarrow> string list" where
  "split_on c [] = [[]]"
| "split_on c (x # xs) =
     (if x = c then [] # split_on c xs
      else (case split_on c xs of [] \<Rightarrow> [[x]] | w # ws \<Rightarrow> (x # w) # ws))"

text \<open>\<open>sep.join(parts)\<close>.\<close>

fun join_with :: "string \<Rightarrow> string list \<Rightarrow> string" where
  "join_with sep [] = []"
| "join_with sep [p] = p"
| "join_with sep (p # q # ps) = p @ sep @ join_with sep (q # ps)"

text \<open>\<open>s.find(p)\<close>, with \<open>None\<close> for -1.\<close>

fun find_str :: "string \<Rightarrow> string \<Rightarrow> nat option" where
  "find_str p [] = (if p = [] then Some 0 else None)"
| "find_str p (x # xs) =
     (if startswith (x # xs) p then Some 0 else map_option Suc (find_str p xs))"

text \<open>\<open>s.rfind(c)\<close> for one character, with \<open>None\<close> for -1.\<close>

fun rfind_char :: "char \<Rightarrow> string \<Rightarrow> nat option" where
  "rfind_char c [] = None"
| "rfind_char c (x # xs) =
     (case rfind_char c xs of
        Some i \<Rightarrow> Some (Suc i)
      | None \<Rightarrow> (if x = c then Some 0 else None))"

subsection \<open>Splitting and joining\<close>

lemma split_on_not_Nil [simp]: "split_on c s \<noteq> []"
  by (induction s) (auto split: list.splits)

lemma split_on_no_sep: "c \<notin> set s \<Longrightarrow> split_on c s = [s]"
  by (induction s) auto

lemma split_on_append_sep: "c \<notin> set w \<Longrightarrow> split_on c (w @ c # s) = w # split_on c s"
  by (induction w) auto

lemma split_on_parts_clean: "w \<in> set (split_on c s) \<Longrightarrow> c \<notin> set w"
proof (induction s arbitrary: w)
  case Nil
  then show ?case by simp
next
  case (Cons x xs)
  obtain v vs where "split_on c xs = v # vs"
    by (cases "split_on c xs") auto
  with Cons show ?case
    by (auto split: if_splits)
qed

lemma split_on_subset: "w \<in> set (split_on c s) \<Longrightarrow> set w \<subseteq> set s"
proof (induction s arbitrary: w)
  case Nil
  then show ?case by simp
next
  case (Cons x xs)
  obtain v vs where "split_on c xs = v # vs"
    by (cases "split_on c xs") auto
  with Cons show ?case
    by (force split: if_splits)
qed

text \<open>Joining with a separator and splitting on it again gives the parts back.\<close>

lemma split_on_join_with:
  assumes "ps \<noteq> []" and "\<forall>p \<in> set ps. c \<notin> set p"
  shows "split_on c (join_with [c] ps) = ps"
  using assms
proof (induction "[c]" ps rule: join_with.induct)
  case (3 p q ps)
  then show ?case by (simp add: split_on_append_sep)
qed (auto simp: split_on_no_sep)

lemma join_with_split_on: "join_with [c] (split_on c s) = s"
proof (induction s)
  case Nil
  then show ?case by simp
next
  case (Cons x xs)
  obtain v vs where "split_on c xs = v # vs"
    by (cases "split_on c xs") auto
  with Cons show ?case
    by (cases vs) auto
qed

lemma set_join_with: "set (join_with sep ps) \<subseteq> set sep \<union> \<Union>(set ` set ps)"
  by (induction sep ps rule: join_with.induct) auto

lemma join_with_eq_Nil: "ps \<noteq> [] \<Longrightarrow> \<forall>p \<in> set ps. p \<noteq> [] \<Longrightarrow> join_with sep ps \<noteq> []"
  by (induction sep ps rule: join_with.induct) auto

lemma join_with_last:
  assumes "ps \<noteq> []" and "\<forall>p \<in> set ps. p \<noteq> []"
  shows "last (join_with sep ps) = last (last ps)"
  using assms
proof (induction sep ps rule: join_with.induct)
  case (3 sep p q ps)
  then show ?case by (auto simp: join_with_eq_Nil)
qed auto

lemma join_with_Cons_ne: "ps \<noteq> [] \<Longrightarrow> join_with sep (p # ps) = p @ sep @ join_with sep ps"
  by (cases ps) auto

subsection \<open>Stripping\<close>

lemma rstrip_by_append_keep:
  "s \<noteq> [] \<Longrightarrow> \<not> P (last s) \<Longrightarrow> rstrip_by P s = s"
  by (cases s rule: rev_cases) (auto simp: rstrip_by_def)

lemma rstrip_by_idem [simp]: "rstrip_by P (rstrip_by P s) = rstrip_by P s"
  by (simp add: rstrip_by_def)

lemma rstrip_by_last: "rstrip_by P s \<noteq> [] \<Longrightarrow> \<not> P (last (rstrip_by P s))"
  unfolding rstrip_by_def using hd_dropWhile [of P "rev s"] by (auto simp: last_rev)

lemma rstrip_by_decomp: "\<exists>t. s = rstrip_by P s @ t \<and> (\<forall>c \<in> set t. P c)"
proof -
  have "rev s = takeWhile P (rev s) @ dropWhile P (rev s)" by simp
  then have "s = rev (dropWhile P (rev s)) @ rev (takeWhile P (rev s))"
    by (metis rev_append rev_rev_ident)
  moreover have "\<forall>c \<in> set (rev (takeWhile P (rev s))). P c"
    by (auto dest: set_takeWhileD)
  ultimately show ?thesis by (auto simp: rstrip_by_def)
qed

lemma set_rstrip_by: "set (rstrip_by P s) \<subseteq> set s"
  by (auto simp: rstrip_by_def dest: set_dropWhileD)

lemma set_strip_by: "set (strip_by P s) \<subseteq> set s"
  by (auto simp: strip_by_def rstrip_by_def lstrip_by_def dest!: set_dropWhileD)

lemma length_rstrip_by: "length (rstrip_by P s) \<le> length s"
  using length_dropWhile_le [of P "rev s"] by (simp add: rstrip_by_def)

lemma length_strip_by: "length (strip_by P s) \<le> length s"
  using length_rstrip_by [of P "dropWhile P s"] length_dropWhile_le [of P s]
  by (simp add: strip_by_def lstrip_by_def)

lemma rstrip_by_append_all: "\<forall>c \<in> set t. P c \<Longrightarrow> rstrip_by P (s @ t) = rstrip_by P s"
  by (induction t rule: rev_induct) (auto simp: rstrip_by_def)

lemma strip_by_hd: "strip_by P s \<noteq> [] \<Longrightarrow> \<not> P (hd (strip_by P s))"
proof -
  assume ne: "strip_by P s \<noteq> []"
  obtain t where t: "dropWhile P s = rstrip_by P (dropWhile P s) @ t"
    using rstrip_by_decomp [of "dropWhile P s" P] by blast
  have "dropWhile P s \<noteq> []"
    using ne unfolding strip_by_def lstrip_by_def rstrip_by_def
    by (metis dropWhile.simps(1) rev.simps(1))
  then have "\<not> P (hd (dropWhile P s))" by (rule hd_dropWhile)
  moreover have "hd (dropWhile P s) = hd (strip_by P s)"
    using t ne by (metis hd_append2 lstrip_by_def strip_by_def)
  ultimately show ?thesis by simp
qed

section \<open>Dictionaries\<close>

text \<open>
  The interface through which the components use a dict or a keyed store: lookups after
  writes and deletions. The client lemma is the one the caches need: replaying a list of
  writes leaves, at every key, the value of the last write to it.
\<close>

locale keyed_store =
  fixes get :: "'m \<Rightarrow> 'k \<Rightarrow> 'v option"
    and put :: "'k \<Rightarrow> 'v \<Rightarrow> 'm \<Rightarrow> 'm"
    and remove :: "'k \<Rightarrow> 'm \<Rightarrow> 'm"
  assumes get_put: "get (put k v m) = (get m)(k \<mapsto> v)"
    and get_remove: "get (remove k m) = (get m)(k := None)"
begin

lemma get_put_same: "get (put k v m) k = Some v"
  by (simp add: get_put)

lemma get_put_other: "k' \<noteq> k \<Longrightarrow> get (put k v m) k' = get m k'"
  by (simp add: get_put)

lemma get_remove_same: "get (remove k m) k = None"
  by (simp add: get_remove)

lemma get_put_all:
  "get (fold (\<lambda>(k, v). put k v) ws m) k =
     (case map_of (rev ws) k of Some v \<Rightarrow> Some v | None \<Rightarrow> get m k)"
  by (induction ws rule: rev_induct) (auto simp: get_put)

lemma get_remove_all:
  "get (fold remove ks m) k = (if k \<in> set ks then None else get m k)"
  by (induction ks rule: rev_induct) (auto simp: get_remove)

end

interpretation dict: keyed_store map_of AList.update AList.delete
  by unfold_locales (auto simp: AList.update_conv' AList.delete_conv')

lemma map_fst_update_present:
  "k \<in> fst ` set d \<Longrightarrow> map fst (AList.update k v d) = map fst d"
  by (induction d) auto

lemma set_update_values: "(k', v') \<in> set (AList.update k v d) \<Longrightarrow> (k', v') \<in> set d \<or> (k', v') = (k, v)"
  by (induction d) (auto split: if_splits)

section \<open>Lists\<close>

lemma sum_list_filter_le: "sum_list (map f (filter P xs)) \<le> sum_list (map (f :: 'a \<Rightarrow> nat) xs)"
  by (induction xs) auto

lemma distinct_map_filter_fst: "distinct (map fst xs) \<Longrightarrow> distinct (map fst (filter P xs))"
  by (induction xs) auto

end
