(* ===== verification/Viking_Uri.thy ===== *)
theory Viking_Uri
  imports Py_Prelude
begin

text \<open>
  The URI class of \<open>openviking_cli/utils/uri.py\<close>: parsing into scope and path, parent,
  join, the builders and the segment sanitizer. A constructed \<open>VikingURI\<close> object is the
  record \<open>viking_uri\<close>; the constructor \<open>mk_viking_uri\<close> raises where \<open>_parse\<close> does.
\<close>

section \<open>Scopes\<close>

definition SCHEME :: string where
  "SCHEME = ''viking''"

definition SCHEME_PREFIX :: string where
  "SCHEME_PREFIX = SCHEME @ ''://''"

definition LISTABLE_SCOPES :: "string list" where
  "LISTABLE_SCOPES = [''resources'', ''user'', ''agent'']"

definition PUBLIC_SCOPES :: "string list" where
  "PUBLIC_SCOPES = LISTABLE_SCOPES"

definition LEGACY_SCOPES :: "string list" where
  "LEGACY_SCOPES = [''session'']"

definition INTERNAL_SCOPES :: "string list" where
  "INTERNAL_SCOPES = [''temp'', ''queue'', ''upload'']"

definition ALIAS_SCOPES :: "string list" where
  "ALIAS_SCOPES = [''~'']"

definition VISITABLE_SCOPES :: "string list" where
  "VISITABLE_SCOPES = PUBLIC_SCOPES @ LEGACY_SCOPES @ INTERNAL_SCOPES @ ALIAS_SCOPES"

lemmas scope_defs =
  VISITABLE_SCOPES_def PUBLIC_SCOPES_def LISTABLE_SCOPES_def LEGACY_SCOPES_def
  INTERNAL_SCOPES_def ALIAS_SCOPES_def

section \<open>Construction and accessors\<close>

record viking_uri =
  vu_uri :: string
  vu_scope :: string
  vu_full_path :: string

definition mk_viking_uri :: "string \<Rightarrow> viking_uri res" where
  "mk_viking_uri uri =
     (if \<not> startswith uri SCHEME_PREFIX then Inl ValueError
      else
        let path = drop (length SCHEME_PREFIX) uri
        in if strip_by is_slash path = []
           then Inr \<lparr>vu_uri = uri, vu_scope = '''', vu_full_path = ''''\<rparr>
           else
             let scope = hd (split_on (CHR ''/'') path)
             in if scope \<notin> set VISITABLE_SCOPES then Inl ValueError
                else Inr \<lparr>vu_uri = uri, vu_scope = scope, vu_full_path = path\<rparr>)"

definition resource_name :: "viking_uri \<Rightarrow> string option" where
  "resource_name u =
     (if vu_scope u \<noteq> ''resources'' then None
      else
        let parts = split_on (CHR ''/'') (vu_full_path u)
        in if 1 < length parts then Some (parts ! 1) else None)"

definition matches_prefix :: "viking_uri \<Rightarrow> string \<Rightarrow> bool" where
  "matches_prefix u prefix = startswith (vu_uri u) prefix"

definition uri_parent :: "viking_uri \<Rightarrow> viking_uri option res" where
  "uri_parent u =
     (let uri = rstrip_by is_slash (vu_uri u)
      in case find_str ''://'' uri of
           None \<Rightarrow> Inr None
         | Some scheme_end \<Rightarrow>
             let after_scheme = drop (scheme_end + length ''://'') uri
             in if CHR ''/'' \<notin> set after_scheme
                then (if after_scheme \<noteq> [] then map_sum id Some (mk_viking_uri SCHEME_PREFIX)
                      else Inr None)
                else
                  (case rfind_char (CHR ''/'') uri of
                     Some last_slash \<Rightarrow> map_sum id Some (mk_viking_uri (take last_slash uri))
                   | None \<Rightarrow> Inr None))"

text \<open>
  The constructor raises no exception but \<open>ValueError\<close> (lemma \<open>mk_viking_uri_error\<close>), so
  the \<open>except ValueError\<close> clause of \<open>is_valid\<close> is its whole error case.
\<close>

definition is_valid_uri :: "string \<Rightarrow> bool" where
  "is_valid_uri uri =
     (case mk_viking_uri uri of
        Inr _ \<Rightarrow> True
      | Inl _ \<Rightarrow> False)"

definition uri_join :: "viking_uri \<Rightarrow> string \<Rightarrow> viking_uri res" where
  "uri_join u part0 =
     (let part = strip_by is_slash part0
      in if part = [] then Inr u
         else
           let full = rstrip_by is_slash (vu_full_path u)
           in if full \<noteq> [] then mk_viking_uri (SCHEME_PREFIX @ full @ ''/'' @ part)
              else mk_viking_uri (SCHEME_PREFIX @ part))"

definition build_uri :: "string \<Rightarrow> string list \<Rightarrow> string res" where
  "build_uri scope path_parts =
     (if scope \<notin> set VISITABLE_SCOPES \<or> scope \<in> set ALIAS_SCOPES then Inl ValueError
      else
        let parts = filter (\<lambda>p. p \<noteq> []) (scope # path_parts)
        in Inr (SCHEME_PREFIX @ join_with ''/'' parts))"

section \<open>Sanitizing a segment\<close>

text \<open>
  The character class that \<open>sanitize_segment\<close> keeps, on the code points 0 to 255: word
  characters, hyphen and dot below 128, and everything from 128 (\<open>\u0080-\u02af\<close>) on.
\<close>

definition is_safe_char :: "char \<Rightarrow> bool" where
  "is_safe_char c \<longleftrightarrow>
     (let n = (of_char c :: nat)
      in (48 \<le> n \<and> n \<le> 57) \<or> (65 \<le> n \<and> n \<le> 90) \<or> (97 \<le> n \<and> n \<le> 122)
         \<or> n = 95 \<or> n = 45 \<or> n = 46 \<or> 128 \<le> n)"

text \<open>\<open>re.sub(r"_+", "_", safe)\<close>.\<close>

fun merge_underscores :: "string \<Rightarrow> string" where
  "merge_underscores (a # b # s) =
     (if a = CHR ''_'' \<and> b = CHR ''_'' then merge_underscores (b # s)
      else a # merge_underscores (b # s))"
| "merge_underscores s = s"

definition sanitize_segment :: "string \<Rightarrow> string" where
  "sanitize_segment text =
     (let safe = map (\<lambda>c. if is_safe_char c then c else CHR ''_'') text;
          safe = merge_underscores safe;
          safe = take 50 (strip_by (\<lambda>c. c = CHR ''_'' \<or> c = CHR ''.'') safe)
      in if safe = [] then ''unnamed'' else safe)"

definition build_semantic_uri ::
    "string \<Rightarrow> string \<Rightarrow> string option \<Rightarrow> bool \<Rightarrow> string res" where
  "build_semantic_uri parent_uri semantic_name node_id is_leaf =
     (let safe_name = sanitize_segment semantic_name
      in if \<not> is_leaf then Inr (parent_uri @ ''/'' @ safe_name)
         else
           (case node_id of
              None \<Rightarrow> Inl ValueError
            | Some nid \<Rightarrow>
                if nid = [] then Inl ValueError
                else Inr (parent_uri @ ''/'' @ safe_name @ ''/'' @ nid)))"

text \<open>The clock's \<open>MMDDHHMM\<close> and the random suffix are the argument \<open>temp_leaf\<close>.\<close>

definition create_temp_uri :: "string option \<Rightarrow> string \<Rightarrow> string" where
  "create_temp_uri space temp_leaf =
     (case space of
        None \<Rightarrow> ''viking://temp/'' @ temp_leaf
      | Some sp \<Rightarrow>
          if sp \<noteq> [] then ''viking://temp/'' @ sp @ ''/'' @ temp_leaf
          else ''viking://temp/'' @ temp_leaf)"

section \<open>Lemmas on parsing\<close>

lemma SCHEME_PREFIX_eq: "SCHEME_PREFIX = ''viking://''"
  by (simp add: SCHEME_PREFIX_def SCHEME_def)

lemma length_SCHEME_PREFIX [simp]: "length SCHEME_PREFIX = 9"
  by (simp add: SCHEME_PREFIX_eq)

lemma visitable_scope_clean:
  "sc \<in> set VISITABLE_SCOPES \<Longrightarrow> sc \<noteq> [] \<and> CHR ''/'' \<notin> set sc \<and> CHR ''?'' \<notin> set sc"
  by (auto simp: scope_defs)

lemma startswith_iff: "startswith s p \<longleftrightarrow> (\<exists>t. s = p @ t)"
  unfolding startswith_def by (metis append_eq_conv_conj append_take_drop_id)

lemma startswith_append [simp]: "startswith (p @ t) p"
  by (auto simp: startswith_iff)

lemma mk_viking_uri_uri: "mk_viking_uri s = Inr u \<Longrightarrow> vu_uri u = s"
  by (auto simp: mk_viking_uri_def Let_def split: if_splits)

lemma mk_viking_uri_prefix: "mk_viking_uri s = Inr u \<Longrightarrow> startswith s SCHEME_PREFIX"
  by (auto simp: mk_viking_uri_def split: if_splits)

lemma mk_viking_uri_error: "mk_viking_uri s = Inl e \<Longrightarrow> e = ValueError"
  by (auto simp: mk_viking_uri_def Let_def split: if_splits)

lemma mk_viking_uri_append:
  "mk_viking_uri (SCHEME_PREFIX @ path) =
     (if strip_by is_slash path = []
      then Inr \<lparr>vu_uri = SCHEME_PREFIX @ path, vu_scope = '''', vu_full_path = ''''\<rparr>
      else if hd (split_on (CHR ''/'') path) \<in> set VISITABLE_SCOPES
      then Inr \<lparr>vu_uri = SCHEME_PREFIX @ path, vu_scope = hd (split_on (CHR ''/'') path),
                vu_full_path = path\<rparr>
      else Inl ValueError)"
  by (simp add: mk_viking_uri_def Let_def)

lemma is_valid_uri_iff: "is_valid_uri s \<longleftrightarrow> (\<exists>u. mk_viking_uri s = Inr u)"
  by (simp add: is_valid_uri_def split: sum.splits)

lemma split_hd_decomp:
  "\<exists>rest. s = hd (split_on c s) @ rest \<and> (rest = [] \<or> hd rest = c) \<and> c \<notin> set (hd (split_on c s))"
proof (induction s)
  case Nil
  then show ?case by simp
next
  case (Cons x xs)
  then obtain v vs where "split_on c xs = v # vs"
    by (cases "split_on c xs") auto
  with Cons show ?case by auto
qed

lemma hd_split_append_sep: "c \<notin> set w \<Longrightarrow> hd (split_on c (w @ c # s)) = w"
  by (simp add: split_on_append_sep)

lemma dropWhile_all: "(\<forall>c \<in> set (dropWhile P s). P c) \<longleftrightarrow> (\<forall>c \<in> set s. P c)"
  by (induction s) auto

lemma strip_slash_Nil_iff: "strip_by is_slash s = [] \<longleftrightarrow> (\<forall>c \<in> set s. is_slash c)"
  unfolding strip_by_def rstrip_by_def lstrip_by_def rev_is_Nil_conv dropWhile_eq_Nil_conv set_rev
  by (rule dropWhile_all)

section \<open>Parents\<close>

lemma rfind_char_append: "c \<notin> set t \<Longrightarrow> rfind_char c (s @ c # t) = Some (length s)"
proof -
  have none: "c \<notin> set t \<Longrightarrow> rfind_char c t = None" for t
    by (induction t) auto
  show "c \<notin> set t \<Longrightarrow> rfind_char c (s @ c # t) = Some (length s)"
    by (induction s) (auto simp: none)
qed

lemma rstrip_prefix_path:
  "rstrip_by is_slash path \<noteq> [] \<Longrightarrow>
     rstrip_by is_slash (SCHEME_PREFIX @ path) = SCHEME_PREFIX @ rstrip_by is_slash path"
  by (auto simp: rstrip_by_def dropWhile_append)

lemma find_scheme_sep: "find_str ''://'' (SCHEME_PREFIX @ q) = Some 6"
  by (simp add: SCHEME_PREFIX_eq startswith_def)

lemma uri_parent_root:
  assumes "vu_uri u = SCHEME_PREFIX @ path" and "rstrip_by is_slash path = []"
  shows "uri_parent u = Inr None"
proof -
  have "\<forall>c \<in> set path. is_slash c"
    using rstrip_by_decomp [of path is_slash] assms(2) by auto
  then have "rstrip_by is_slash (SCHEME_PREFIX @ path) = ''viking:''"
    by (subst rstrip_by_append_all) (auto simp: SCHEME_PREFIX_eq rstrip_by_def)
  then show ?thesis
    by (simp add: uri_parent_def assms(1) startswith_def)
qed

lemma uri_parent_scope:
  assumes "vu_uri u = SCHEME_PREFIX @ path" and "rstrip_by is_slash path = q"
    and "q \<noteq> []" and "CHR ''/'' \<notin> set q"
  shows "uri_parent u = map_sum id Some (mk_viking_uri SCHEME_PREFIX)"
  using assms by (simp add: uri_parent_def rstrip_prefix_path find_scheme_sep Let_def)

lemma uri_parent_segment:
  assumes "vu_uri u = SCHEME_PREFIX @ path" and "rstrip_by is_slash path = q1 @ CHR ''/'' # q2"
    and "CHR ''/'' \<notin> set q2"
  shows "uri_parent u = map_sum id Some (mk_viking_uri (SCHEME_PREFIX @ q1))"
proof -
  have r: "rstrip_by is_slash (vu_uri u) = SCHEME_PREFIX @ q1 @ CHR ''/'' # q2"
    using assms(1,2) by (simp add: rstrip_prefix_path)
  have "rfind_char (CHR ''/'') ((SCHEME_PREFIX @ q1) @ CHR ''/'' # q2) = Some (9 + length q1)"
    using assms(3) by (subst rfind_char_append) auto
  then show ?thesis
    by (simp add: uri_parent_def r find_scheme_sep)
qed

text \<open>
  The facts about a successfully constructed, non-root URI that the parent and join
  properties use: the path starts with its scope, which ends it or is followed by a slash.
\<close>

lemma mk_viking_uri_cases:
  assumes "mk_viking_uri s = Inr u"
  obtains (root) path where "s = SCHEME_PREFIX @ path" and "rstrip_by is_slash path = []"
      and "vu_scope u = ''''" and "vu_full_path u = ''''"
    | (scoped) sc rest where "s = SCHEME_PREFIX @ sc @ rest" and "sc \<in> set VISITABLE_SCOPES"
      and "rest = [] \<or> hd rest = CHR ''/''" and "vu_scope u = sc" and "vu_full_path u = sc @ rest"
proof -
  obtain path where s: "s = SCHEME_PREFIX @ path"
    using mk_viking_uri_prefix [OF assms] by (auto simp: startswith_iff)
  show thesis
  proof (cases "strip_by is_slash path = []")
    case True
    then have "\<forall>c \<in> set (rev path). is_slash c" by (simp add: strip_slash_Nil_iff)
    then have "rstrip_by is_slash path = []" by (simp add: rstrip_by_def)
    with True assms s show thesis by (intro root [of path]) (auto simp: mk_viking_uri_append)
  next
    case False
    obtain rest where r: "path = hd (split_on (CHR ''/'') path) @ rest"
        "rest = [] \<or> hd rest = CHR ''/''"
      using split_hd_decomp [of path "CHR ''/''"] by blast
    have "u = \<lparr>vu_uri = s, vu_scope = hd (split_on (CHR ''/'') path), vu_full_path = path\<rparr>"
      and "hd (split_on (CHR ''/'') path) \<in> set VISITABLE_SCOPES"
      using assms False unfolding s by (auto simp: mk_viking_uri_append split: if_splits)
    with r s show thesis by (intro scoped [of "hd (split_on (CHR ''/'') path)" rest]) auto
  qed
qed

lemma mk_viking_uri_scoped:
  assumes "sc \<in> set VISITABLE_SCOPES" and "rest = [] \<or> hd rest = CHR ''/''"
  shows "mk_viking_uri (SCHEME_PREFIX @ sc @ rest) =
    Inr \<lparr>vu_uri = SCHEME_PREFIX @ sc @ rest, vu_scope = sc, vu_full_path = sc @ rest\<rparr>"
proof -
  have cl: "sc \<noteq> []" "CHR ''/'' \<notin> set sc"
    using visitable_scope_clean [OF assms(1)] by auto
  have "hd (split_on (CHR ''/'') (sc @ rest)) = sc"
  proof (cases rest)
    case Nil
    with cl show ?thesis by (simp add: split_on_no_sep)
  next
    case (Cons c cs)
    with assms(2) cl show ?thesis by (simp add: hd_split_append_sep)
  qed
  moreover have "strip_by is_slash (sc @ rest) \<noteq> []"
    using cl by (cases sc) (auto simp: strip_slash_Nil_iff)
  ultimately show ?thesis using assms(1) by (simp add: mk_viking_uri_append)
qed

lemma mk_viking_uri_scheme:
  "mk_viking_uri SCHEME_PREFIX = Inr \<lparr>vu_uri = SCHEME_PREFIX, vu_scope = '''', vu_full_path = ''''\<rparr>"
  using mk_viking_uri_append [of "''''"] by (simp add: strip_by_def rstrip_by_def lstrip_by_def)

lemma last_slash_decomp:
  assumes "CHR ''/'' \<in> set q"
  obtains q1 q2 where "q = q1 @ CHR ''/'' # q2" and "CHR ''/'' \<notin> set q2"
  using split_list_last [OF assms] by blast

lemma sep_decomp:
  assumes "c \<notin> set w" and "w @ r = q1 @ c # q2"
  shows "\<exists>r1. q1 = w @ r1 \<and> r = r1 @ c # q2"
  using assms
proof (induction w arbitrary: q1)
  case Nil
  then show ?case by simp
next
  case (Cons x w)
  then show ?case by (cases q1) auto
qed

text \<open>
  \<open>parent\<close> of a constructed URI: the construction of the parent object never raises, and
  the parent is a strictly shorter prefix, so walking up ends.
\<close>

lemma uri_parent_total:
  assumes "mk_viking_uri s = Inr u"
  shows "\<exists>p. uri_parent u = Inr p \<and>
     (\<forall>v. p = Some v \<longrightarrow> mk_viking_uri (vu_uri v) = Inr v
        \<and> startswith s (vu_uri v) \<and> length (vu_uri v) < length s)"
  using assms
proof (cases rule: mk_viking_uri_cases)
  case (root path)
  with uri_parent_root [of u path] mk_viking_uri_uri [OF assms] show ?thesis by auto
next
  case (scoped sc rest)
  let ?q = "rstrip_by is_slash (sc @ rest)"
  have cl: "sc \<noteq> []" "CHR ''/'' \<notin> set sc"
    using visitable_scope_clean [OF scoped(2)] by auto
  have u: "vu_uri u = SCHEME_PREFIX @ sc @ rest"
    using mk_viking_uri_uri [OF assms] scoped(1) by simp
  obtain t where t: "sc @ rest = ?q @ t" "\<forall>c \<in> set t. is_slash c"
    using rstrip_by_decomp [of "sc @ rest" is_slash] by blast
  have ne: "?q \<noteq> []"
  proof
    assume "?q = []"
    then have "\<forall>c \<in> set (sc @ rest). is_slash c"
      using t by (metis append_Nil)
    with cl show False by (cases sc) auto
  qed
  show ?thesis
  proof (cases "CHR ''/'' \<in> set ?q")
    case False
    then have "uri_parent u = map_sum id Some (mk_viking_uri SCHEME_PREFIX)"
      by (intro uri_parent_scope [OF u refl ne])
    then show ?thesis using scoped(1) cl by (auto simp: mk_viking_uri_scheme)
  next
    case True
    then obtain q1 q2 where q: "?q = q1 @ CHR ''/'' # q2" "CHR ''/'' \<notin> set q2"
      by (rule last_slash_decomp)
    have par: "uri_parent u = map_sum id Some (mk_viking_uri (SCHEME_PREFIX @ q1))"
      by (rule uri_parent_segment [OF u q])
    have "sc @ rest = (q1 @ CHR ''/'' # q2) @ t" using t(1) unfolding q(1) .
    then have "sc @ rest = q1 @ CHR ''/'' # q2 @ t" by simp
    then obtain r1 where r1: "q1 = sc @ r1" "rest = r1 @ CHR ''/'' # q2 @ t"
      using sep_decomp [OF cl(2)] by blast
    have "r1 = [] \<or> hd r1 = CHR ''/''"
      using scoped(3) r1(2) by (cases r1) auto
    then have "mk_viking_uri (SCHEME_PREFIX @ sc @ r1) =
        Inr \<lparr>vu_uri = SCHEME_PREFIX @ sc @ r1, vu_scope = sc, vu_full_path = sc @ r1\<rparr>"
      by (rule mk_viking_uri_scoped [OF scoped(2)])
    then show ?thesis
      using par r1 scoped(1) by (auto simp: startswith_iff)
  qed
qed

section \<open>Joining\<close>

lemma uri_join_uri:
  assumes "uri_join u part = Inr v" and "strip_by is_slash part \<noteq> []"
  shows "mk_viking_uri (SCHEME_PREFIX @
     (if rstrip_by is_slash (vu_full_path u) = [] then strip_by is_slash part
      else rstrip_by is_slash (vu_full_path u) @ CHR ''/'' # strip_by is_slash part)) = Inr v"
  using assms by (auto simp: uri_join_def Let_def split: if_splits)

lemma strip_slash_single:
  "part \<noteq> [] \<Longrightarrow> CHR ''/'' \<notin> set part \<Longrightarrow> strip_by is_slash part = part"
proof -
  assume h: "part \<noteq> []" "CHR ''/'' \<notin> set part"
  then have "dropWhile is_slash part = part" by (cases part) auto
  moreover have "rstrip_by is_slash part = part"
    using h by (metis last_in_set rstrip_by_append_keep)
  ultimately show ?thesis by (simp add: strip_by_def lstrip_by_def)
qed

lemma rstrip_append_clean:
  "part \<noteq> [] \<Longrightarrow> CHR ''/'' \<notin> set part \<Longrightarrow> rstrip_by is_slash (s @ part) = s @ part"
  by (rule rstrip_by_append_keep) (auto dest: last_in_set)

lemma rstrip_keeps_scope:
  assumes "p = sc @ rest" and "sc \<noteq> []" and "CHR ''/'' \<notin> set sc"
    and "rest = [] \<or> hd rest = CHR ''/''"
  shows "\<exists>r. rstrip_by is_slash p = sc @ r \<and> (r = [] \<or> hd r = CHR ''/'')"
proof -
  have sc: "rstrip_by is_slash sc = sc"
    using assms(2,3) by (intro rstrip_by_append_keep) (auto dest: last_in_set)
  show ?thesis
  proof (cases "rstrip_by is_slash rest = []")
    case True
    then have "\<forall>c \<in> set rest. is_slash c"
      using rstrip_by_decomp [of rest is_slash] by auto
    then show ?thesis using sc by (simp add: assms(1) rstrip_by_append_all)
  next
    case False
    then have "rstrip_by is_slash p = sc @ rstrip_by is_slash rest"
      by (auto simp: assms(1) rstrip_by_def dropWhile_append)
    moreover have "hd (rstrip_by is_slash rest) = hd rest"
      using False rstrip_by_decomp [of rest is_slash] by (metis hd_append2)
    ultimately show ?thesis using assms(4) False by (auto simp: rstrip_by_def)
  qed
qed

section \<open>Sanitized segments\<close>

lemma set_merge_underscores: "set (merge_underscores s) \<subseteq> set s"
  by (induction s rule: merge_underscores.induct) auto

text \<open>The first character of the stripped text is still the first one after truncation.\<close>

lemma sanitize_shape:
  assumes "r = take 50 (strip_by P s)" and "r \<noteq> []"
  shows "\<not> P (hd r)" and "set r \<subseteq> set s" and "length r \<le> 50"
proof -
  have ne: "strip_by P s \<noteq> []" using assms by auto
  have "hd r = hd (strip_by P s)" using assms ne by (cases "strip_by P s") auto
  with strip_by_hd [OF ne] show "\<not> P (hd r)" by simp
  show "set r \<subseteq> set s" using assms(1) set_take_subset set_strip_by by fast
  show "length r \<le> 50" using assms(1) by simp
qed

section \<open>Properties\<close>

text \<open>Walking up from a constructed URI. \<open>parent\<close> never raises; the parent it returns is a
  valid URI again, a prefix of the child and strictly shorter, so repeated \<open>parent\<close> calls
  end at \<open>None\<close>.\<close>

lemma uri_parent_well_founded:
  assumes "mk_viking_uri s = Inr u"
  shows "\<exists>p. uri_parent u = Inr p \<and>
     (\<forall>v. p = Some v \<longrightarrow> mk_viking_uri (vu_uri v) = Inr v
        \<and> startswith (vu_uri u) (vu_uri v) \<and> length (vu_uri v) < length (vu_uri u))"
  using uri_parent_total [OF assms] mk_viking_uri_uri [OF assms] by simp

text \<open>\<open>join\<close> followed by \<open>parent\<close> comes back. Joining one slash-free segment to a
  constructed URI yields a URI whose parent has the path of the original one, up to its
  trailing slashes.\<close>

lemma uri_join_parent:
  assumes "mk_viking_uri s = Inr u" and "uri_join u part = Inr v"
    and "part \<noteq> []" and "CHR ''/'' \<notin> set part"
  shows "\<exists>w. uri_parent v = Inr (Some w)
     \<and> vu_full_path w = rstrip_by is_slash (vu_full_path u)"
proof -
  let ?full = "rstrip_by is_slash (vu_full_path u)"
  note part = strip_slash_single [OF assms(3,4)]
  note v = uri_join_uri [OF assms(2), unfolded part, OF assms(3)]
  note v_uri = mk_viking_uri_uri [OF v]
  show ?thesis
  proof (cases "?full = []")
    case True
    then have "uri_parent v = map_sum id Some (mk_viking_uri SCHEME_PREFIX)"
      using v_uri assms(3,4) rstrip_append_clean [OF assms(3,4), of "[]"]
      by (intro uri_parent_scope [of v part part]) auto
    with True show ?thesis by (simp add: mk_viking_uri_scheme)
  next
    case False
    have par: "uri_parent v = map_sum id Some (mk_viking_uri (SCHEME_PREFIX @ ?full))"
      using v_uri False assms(4) rstrip_append_clean [OF assms(3,4), of "?full @ ''/''"]
      by (intro uri_parent_segment [of v "?full @ CHR ''/'' # part" ?full part]) auto
    from assms(1) show ?thesis
    proof (cases rule: mk_viking_uri_cases)
      case (root path)
      with False show ?thesis by (simp add: rstrip_by_def)
    next
      case (scoped sc rest)
      obtain r where r: "?full = sc @ r" "r = [] \<or> hd r = CHR ''/''"
        using visitable_scope_clean [OF scoped(2)] scoped(3,5) rstrip_keeps_scope by blast
      then show ?thesis
        using par mk_viking_uri_scoped [OF scoped(2) r(2)] by simp
    qed
  qed
qed

text \<open>a sanitized segment can stand in a URI path: it is never empty, never longer than 50
  characters, holds only safe characters (so no slash, colon or query mark), and does not
  start with a dot or an underscore, so it is never \<open>.\<close> or \<open>..\<close>.\<close>

lemma sanitize_segment_safe:
  "sanitize_segment t \<noteq> [] \<and> length (sanitize_segment t) \<le> 50
     \<and> list_all is_safe_char (sanitize_segment t)
     \<and> CHR ''/'' \<notin> set (sanitize_segment t)
     \<and> hd (sanitize_segment t) \<noteq> CHR ''.'' \<and> hd (sanitize_segment t) \<noteq> CHR ''_''"
proof -
  let ?P = "\<lambda>c. c = CHR ''_'' \<or> c = CHR ''.''"
  let ?s = "merge_underscores (map (\<lambda>c. if is_safe_char c then c else CHR ''_'') t)"
  have us: "is_safe_char (CHR ''_'')" by (simp add: is_safe_char_def)
  have slash: "\<not> is_safe_char (CHR ''/'')" by (simp add: is_safe_char_def)
  have safe: "\<forall>c \<in> set ?s. is_safe_char c"
    using set_merge_underscores us by fastforce
  show ?thesis
  proof (cases "take 50 (strip_by ?P ?s) = []")
    case True
    then have "sanitize_segment t = ''unnamed''" by (simp add: sanitize_segment_def)
    then show ?thesis by (simp add: is_safe_char_def)
  next
    case False
    then have eq: "sanitize_segment t = take 50 (strip_by ?P ?s)"
      by (simp add: sanitize_segment_def Let_def)
    note shape = sanitize_shape [OF eq, unfolded eq, OF False, folded eq]
    from shape safe slash False eq show ?thesis
      by (auto simp: list_all_iff)
  qed
qed

end
