(* ===== verification/Identity.thy ===== *)
theory Identity
  imports Py_Prelude
begin

text \<open>
  Identifiers, roles and the request context:
  \<open>openviking/core/identifiers.py\<close>, \<open>openviking/core/peer_id.py\<close>,
  \<open>openviking_cli/session/user_id.py\<close> and \<open>openviking/server/identity.py\<close>. The
  validators return the error message as the code does (\<open>None\<close> for a valid identifier).
\<close>

section \<open>Identifier validation\<close>

definition is_ident_char :: "char \<Rightarrow> bool" where
  "is_ident_char c \<longleftrightarrow>
     (let n = (of_char c :: nat)
      in (48 \<le> n \<and> n \<le> 57) \<or> (65 \<le> n \<and> n \<le> 90) \<or> (97 \<le> n \<and> n \<le> 122)
         \<or> c \<in> set ''_.@-'')"

text \<open>
  \<open>re.compile(r"^[a-zA-Z0-9_.@-]+$").match(part)\<close>: without \<open>re.MULTILINE\<close>, \<open>$\<close>
  matches at the end of the string and also just before a newline that ends it.
\<close>

definition validation_pattern_match :: "string \<Rightarrow> bool" where
  "validation_pattern_match part =
     (let body = (if part \<noteq> [] \<and> last part = CHR 0x0A then butlast part else part)
      in body \<noteq> [] \<and> list_all is_ident_char body)"

definition validate_identifier_part :: "string \<Rightarrow> string \<Rightarrow> string option" where
  "validate_identifier_part part part_name =
     (if part = [] then Some (part_name @ '' is empty'')
      else if part \<in> {''.'', ''..''} then Some (part_name @ '' must not be '' @ [CHR 0x27, CHR ''.'', CHR 0x27]
             @ '' or '' @ [CHR 0x27, CHR ''.'', CHR ''.'', CHR 0x27])
      else if \<not> validation_pattern_match part
      then Some (part_name @ '' must be alpha_numeric string.'')
      else if 1 < count_list part (CHR ''@'')
      then Some (part_name @ '' must have at most one @.'')
      else None)"

definition normalize_identifier_part ::
    "string option \<Rightarrow> string \<Rightarrow> string option res" where
  "normalize_identifier_part part part_name =
     (case part of
        None \<Rightarrow> Inr None
      | Some p \<Rightarrow>
          let normalized = py_strip p
          in if normalized = [] then Inr None
             else
               (case validate_identifier_part normalized part_name of
                  Some _ \<Rightarrow> Inl ValueError
                | None \<Rightarrow> Inr (Some normalized)))"

definition validate_account_id :: "string \<Rightarrow> string option" where
  "validate_account_id account_id =
     (case validate_identifier_part account_id ''account_id'' of
        Some e \<Rightarrow> Some e
      | None \<Rightarrow>
          if startswith account_id ''_'' then Some ''account_id cannot start with underscore _.''
          else None)"

definition validate_user_id :: "string \<Rightarrow> string option" where
  "validate_user_id user_id = validate_identifier_part user_id ''user_id''"

definition normalize_peer_id :: "string option \<Rightarrow> string option res" where
  "normalize_peer_id peer_id =
     (case normalize_identifier_part peer_id ''peer_id'' of
        Inr p \<Rightarrow> Inr p
      | Inl e \<Rightarrow> if is_value_error e then Inl ValueError else Inl e)"

definition safe_peer_id :: "string option \<Rightarrow> string option" where
  "safe_peer_id peer_id =
     (case normalize_peer_id peer_id of Inr p \<Rightarrow> p | Inl _ \<Rightarrow> None)"

section \<open>Users, roles and request contexts\<close>

record user_identifier =
  ui_account_id :: string
  ui_user_id :: string

definition validate_error :: "user_identifier \<Rightarrow> string" where
  "validate_error u =
     (case validate_account_id (ui_account_id u) of
        Some verr \<Rightarrow> verr
      | None \<Rightarrow>
          (case validate_user_id (ui_user_id u) of
             Some verr \<Rightarrow> verr
           | None \<Rightarrow> ''''))"

definition mk_user_identifier :: "string \<Rightarrow> string \<Rightarrow> user_identifier res" where
  "mk_user_identifier account_id user_id =
     (let u = \<lparr>ui_account_id = account_id, ui_user_id = user_id\<rparr>
      in if validate_error u \<noteq> [] then Inl ValueError else Inr u)"

definition the_default_user :: "string \<Rightarrow> user_identifier res" where
  "the_default_user default_username = mk_user_identifier ''default'' default_username"

type_synonym role = string

definition ROOT :: role where "ROOT = ''root''"
definition ADMIN :: role where "ADMIN = ''admin''"
definition USER :: role where "USER = ''user''"

definition builtin_rank :: "(role \<times> int) list" where
  "builtin_rank = [(USER, 0), (ADMIN, 1), (ROOT, 2)]"

text \<open>\<open>Role.register\<close> writes the class-level dict of custom ranks.\<close>

definition role_register :: "role \<Rightarrow> int \<Rightarrow> (role \<times> int) list \<Rightarrow> (role \<times> int) list" where
  "role_register name rank custom_rank = AList.update name rank custom_rank"

definition role_rank :: "(role \<times> int) list \<Rightarrow> role \<Rightarrow> int" where
  "role_rank custom_rank r =
     (case map_of builtin_rank r of
        Some n \<Rightarrow> n
      | None \<Rightarrow> (case map_of custom_rank r of Some n \<Rightarrow> n | None \<Rightarrow> 0))"

record resolved_identity =
  ri_role :: role
  ri_account_id :: "string option"
  ri_user_id :: "string option"
  ri_from_oauth :: bool

record request_context =
  rc_user :: user_identifier
  rc_role :: role
  rc_actor_peer_id :: "string option"
  rc_from_oauth :: bool
  rc_api_key :: "string option"

definition rc_account_id :: "request_context \<Rightarrow> string" where
  "rc_account_id ctx = ui_account_id (rc_user ctx)"

section \<open>Lemmas\<close>

lemma ident_char_not_slash: "is_ident_char c \<Longrightarrow> c \<noteq> CHR ''/'' \<and> c \<noteq> CHR ''?'' \<and> c \<noteq> CHR 0x0A"
  by (auto simp: is_ident_char_def Let_def)

lemma validate_part_pattern:
  "validate_identifier_part p nm = None \<Longrightarrow> p \<noteq> [] \<and> validation_pattern_match p"
  by (auto simp: validate_identifier_part_def split: if_splits)

lemma pattern_match_chars:
  assumes "validation_pattern_match p" and "c \<in> set p"
  shows "is_ident_char c \<or> c = CHR 0x0A"
proof (cases "p \<noteq> [] \<and> last p = CHR 0x0A")
  case True
  then have "p = butlast p @ [CHR 0x0A]" by (metis append_butlast_last_id)
  then have "c \<in> set (butlast p) \<or> c = CHR 0x0A"
    using assms(2) by (metis Un_iff empty_iff list.set(1) set_ConsD set_append)
  with True assms(1) show ?thesis
    by (auto simp: validation_pattern_match_def list_all_iff Let_def)
next
  case False
  with assms show ?thesis by (auto simp: validation_pattern_match_def list_all_iff Let_def)
qed

lemma validate_part_clean:
  assumes "validate_identifier_part p nm = None"
  shows "p \<noteq> [] \<and> CHR ''/'' \<notin> set p \<and> CHR ''?'' \<notin> set p"
  using validate_part_pattern [OF assms] pattern_match_chars [of p "CHR ''/''"]
    pattern_match_chars [of p "CHR ''?''"] ident_char_not_slash by auto

lemma mk_user_identifier_valid:
  assumes "mk_user_identifier a u = Inr i"
  shows "ui_account_id i = a \<and> ui_user_id i = u \<and> validate_account_id a = None
     \<and> validate_user_id u = None"
proof -
  have ne: "validate_user_id x = Some e \<Longrightarrow> e \<noteq> []" "validate_account_id x = Some e \<Longrightarrow> e \<noteq> []"
    for x e
    by (auto simp: validate_user_id_def validate_account_id_def validate_identifier_part_def
        split: if_splits option.splits)
  show ?thesis
    using assms ne by (auto simp: mk_user_identifier_def validate_error_def Let_def
        split: if_splits option.splits)
qed

section \<open>Properties\<close>

text \<open>What a constructed \<open>UserIdentifier\<close> guarantees for the paths built from it. Both parts
  are non-empty single path segments: no slash, no query mark, not \<open>.\<close> and not \<open>..\<close>; the
  account does not start with an underscore, so it cannot name the \<open>_system\<close> account.\<close>

lemma user_identifier_path_safe:
  assumes "mk_user_identifier a u = Inr i"
  shows "(\<forall>p \<in> {ui_account_id i, ui_user_id i}. p \<noteq> [] \<and> CHR ''/'' \<notin> set p
            \<and> CHR ''?'' \<notin> set p \<and> p \<noteq> ''.'' \<and> p \<noteq> ''..'')
     \<and> hd (ui_account_id i) \<noteq> CHR ''_'' \<and> ui_account_id i \<noteq> ''_system''"
proof -
  have v: "ui_account_id i = a" "ui_user_id i = u" "validate_account_id a = None"
    "validate_user_id u = None"
    using mk_user_identifier_valid [OF assms] by auto
  have a: "validate_identifier_part a ''account_id'' = None" "\<not> startswith a ''_''"
    using v(3) by (auto simp: validate_account_id_def split: option.splits if_splits)
  have u: "validate_identifier_part u ''user_id'' = None"
    using v(4) by (simp add: validate_user_id_def)
  have nd: "validate_identifier_part p nm = None \<Longrightarrow> p \<noteq> ''.'' \<and> p \<noteq> ''..''" for p nm
    by (auto simp: validate_identifier_part_def)
  have "hd a \<noteq> CHR ''_''"
    using a(2) validate_part_clean [OF a(1)] by (cases a) (auto simp: startswith_def)
  then have "hd a \<noteq> CHR ''_'' \<and> a \<noteq> ''_system''" by auto
  then show ?thesis
    using validate_part_clean [OF a(1)] validate_part_clean [OF u] nd [OF a(1)] nd [OF u] v
    by simp
qed

text \<open>the identifier pattern does not anchor at the end of the string. For every identifier it
  accepts, the same identifier followed by a newline is accepted too, although the newline is
  outside the allowed character class: two different user ids that print alike.\<close>

lemma identifier_trailing_newline:
  assumes "validate_identifier_part p nm = None" and "list_all is_ident_char p"
  shows "validate_identifier_part (p @ [CHR 0x0A]) nm = None \<and> \<not> is_ident_char (CHR 0x0A)"
proof -
  have p: "p \<noteq> []" "count_list p (CHR ''@'') \<le> 1"
    using assms(1) by (auto simp: validate_identifier_part_def split: if_splits)
  have "p @ [CHR 0x0A] \<notin> {''.'', ''..''}" by auto
  moreover have "validation_pattern_match (p @ [CHR 0x0A])"
    using p(1) assms(2) by (simp add: validation_pattern_match_def)
  ultimately show ?thesis
    using p by (simp add: validate_identifier_part_def is_ident_char_def)
qed

text \<open>Peer identifiers come out normalized. When \<open>normalize_peer_id\<close> returns an identifier it
  is a valid path segment without surrounding whitespace (so, unlike a user identifier, it
  has no trailing newline), and normalizing it again returns it unchanged.\<close>

theorem normalize_peer_id_idempotent:
  assumes "normalize_peer_id (Some p) = Inr (Some q)"
  shows "normalize_peer_id (Some q) = Inr (Some q) \<and> list_all is_ident_char q
     \<and> q \<noteq> '''' \<and> CHR ''/'' \<notin> set q"
proof -
  have q: "q = py_strip p" "q \<noteq> []" "validate_identifier_part q ''peer_id'' = None"
    using assms by (auto simp: normalize_peer_id_def normalize_identifier_part_def Let_def
        split: option.splits if_splits sum.splits)
  have nl: "is_space (CHR 0x0A)" by (simp add: is_space_def)
  have last: "\<not> is_space (last q)"
    using q(1,2) rstrip_by_last [of is_space] by (metis py_strip_def strip_by_def)
  have hd: "\<not> is_space (hd q)"
    using q(1,2) strip_by_hd [of is_space p] by (simp add: py_strip_def)
  have "py_strip q = q"
  proof -
    have "dropWhile is_space q = q" using hd q(2) by (cases q) auto
    then show ?thesis
      using last q(2) by (simp add: py_strip_def strip_by_def lstrip_by_def rstrip_by_append_keep)
  qed
  moreover have "list_all is_ident_char q"
    using validate_part_pattern [OF q(3)] last nl
    by (auto simp: validation_pattern_match_def Let_def split: if_splits)
  ultimately show ?thesis
    using q validate_part_clean [OF q(3)]
    by (auto simp: normalize_peer_id_def normalize_identifier_part_def)
qed

theorem normalize_peer_id_idempotent_witness:
  "normalize_peer_id (Some '' bob '') = Inr (Some ''bob'')
     \<and> normalize_peer_id (Some ''bob'') = Inr (Some ''bob'')"
proof -
  have h: "normalize_peer_id (Some '' bob '') = Inr (Some ''bob'')" by code_simp
  show ?thesis using normalize_peer_id_idempotent [OF h] h by blast
qed

end
