(* ===== verification/Namespace.thy ===== *)
theory Namespace
  imports Viking_Uri Identity
begin

text \<open>
  The namespace rules of \<open>openviking/core/namespace.py\<close>: path segments of a URI, the
  classification of a URI by its shape, canonical URIs and their owner, the expansion of the
  request aliases, and the access check that isolates the users of an account.
\<close>

section \<open>Data\<close>

record resolved_namespace =
  rn_uri :: string
  rn_scope :: string
  rn_owner_user_id :: "string option"
  rn_is_container :: bool

record uri_classification =
  uc_parts :: "string list"
  uc_scope :: string
  uc_content_index :: "nat option"
  uc_context_type :: string

definition content_types :: "(string \<times> string) list" where
  "content_types = [(''memories'', ''memory''), (''resources'', ''resource''), (''skills'', ''skill'')]"

definition CONTENT_TYPES_BY_SCOPE :: "(string \<times> (string \<times> string) list) list" where
  "CONTENT_TYPES_BY_SCOPE = [(''user'', content_types), (''agent'', content_types)]"

definition content_types_of :: "string \<Rightarrow> (string \<times> string) list" where
  "content_types_of scope =
     (case map_of CONTENT_TYPES_BY_SCOPE scope of Some d \<Rightarrow> d | None \<Rightarrow> [])"

definition PEER_CONTENT_SEGMENTS :: "string list" where
  "PEER_CONTENT_SEGMENTS = [''memories'', ''resources'']"

definition USER_RELATIVE_ROOT_SEGMENTS :: "string list" where
  "USER_RELATIVE_ROOT_SEGMENTS = [''peers'', ''privacy'', ''sessions'']"

section \<open>Path segments\<close>

definition uri_parts :: "string \<Rightarrow> string list res" where
  "uri_parts uri =
     (let normalized = hd (split_on (CHR ''?'') uri)
      in if \<not> startswith normalized ''viking://'' then Inl ValueError
         else if normalized = ''viking://'' then Inr []
         else
           let normalized = rstrip_by is_slash normalized
           in Inr (filter (\<lambda>part. part \<noteq> [])
                     (split_on (CHR ''/'') (drop (length ''viking://'') normalized))))"

definition uri_depth :: "string \<Rightarrow> nat res" where
  "uri_depth uri = map_sum id length (uri_parts uri)"

definition uri_leaf_name :: "string \<Rightarrow> string res" where
  "uri_leaf_name uri = map_sum id (\<lambda>parts. if parts \<noteq> [] then last parts else '''') (uri_parts uri)"

definition relative_uri_path :: "string \<Rightarrow> string \<Rightarrow> string res" where
  "relative_uri_path root_uri uri =
     bind_res (uri_parts root_uri) (\<lambda>root_parts.
     bind_res (uri_parts uri) (\<lambda>parts.
       if parts = root_parts \<or> take (length root_parts) parts \<noteq> root_parts then Inr ''''
       else Inr (join_with ''/'' (drop (length root_parts) parts))))"

section \<open>Classification\<close>

definition content_segment_index :: "string list \<Rightarrow> nat option" where
  "content_segment_index parts =
     (if 2 \<le> length parts \<and> take 2 parts = [''agent'', ''skills''] then Some 1
      else if 3 \<le> length parts \<and> parts ! 0 = ''agent''
              \<and> parts ! 2 \<in> fst ` set (content_types_of ''agent'') then Some 2
      else if length parts < 2 \<or> parts ! 0 \<noteq> ''user'' then None
      else if 5 \<le> length parts \<and> parts ! 2 = ''peers''
              \<and> parts ! 4 \<in> set PEER_CONTENT_SEGMENTS then Some 4
      else if 3 \<le> length parts \<and> parts ! 2 \<in> fst ` set (content_types_of ''user'') then Some 2
      else None)"

definition is_namespace_root_parts :: "string list \<Rightarrow> string \<Rightarrow> bool" where
  "is_namespace_root_parts parts scope \<longleftrightarrow>
     scope = ''user'' \<and> take 1 parts = [''user''] \<and> length parts = 2"

definition classify_parts :: "string list \<Rightarrow> uri_classification" where
  "classify_parts parts =
     (let content_index = content_segment_index parts;
          context_type =
            (case content_index of
               None \<Rightarrow> ''resource''
             | Some i \<Rightarrow>
                 (case map_of (content_types_of (parts ! 0)) (parts ! i) of
                    Some t \<Rightarrow> t
                  | None \<Rightarrow> ''resource''))
      in \<lparr>uc_parts = parts, uc_scope = (if parts \<noteq> [] then parts ! 0 else ''''),
          uc_content_index = content_index, uc_context_type = context_type\<rparr>)"

definition classify_uri :: "string \<Rightarrow> uri_classification res" where
  "classify_uri uri = map_sum id classify_parts (uri_parts uri)"

definition is_memory :: "uri_classification \<Rightarrow> bool" where
  "is_memory c \<longleftrightarrow> uc_context_type c = ''memory''"

definition is_skill :: "uri_classification \<Rightarrow> bool" where
  "is_skill c \<longleftrightarrow> uc_context_type c = ''skill''"

definition is_user_namespace_root :: "uri_classification \<Rightarrow> bool" where
  "is_user_namespace_root c = is_namespace_root_parts (uc_parts c) ''user''"

definition is_agent_namespace_root :: "uri_classification \<Rightarrow> bool" where
  "is_agent_namespace_root c \<longleftrightarrow> uc_scope c = ''agent'' \<and> length (uc_parts c) = 2"

definition is_memory_root :: "uri_classification \<Rightarrow> bool" where
  "is_memory_root c \<longleftrightarrow> is_memory c \<and>
     (case uc_content_index c of None \<Rightarrow> False | Some i \<Rightarrow> length (uc_parts c) = i + 1)"

definition is_skill_namespace :: "uri_classification \<Rightarrow> bool" where
  "is_skill_namespace c \<longleftrightarrow> is_skill c \<and>
     (case uc_content_index c of None \<Rightarrow> False | Some i \<Rightarrow> length (uc_parts c) = i + 1)"

definition is_skill_root :: "uri_classification \<Rightarrow> bool" where
  "is_skill_root c \<longleftrightarrow> is_skill c \<and>
     (case uc_content_index c of None \<Rightarrow> False | Some i \<Rightarrow> length (uc_parts c) = i + 2)"

definition context_type_for_uri :: "string \<Rightarrow> string res" where
  "context_type_for_uri uri = map_sum id uc_context_type (classify_uri uri)"

section \<open>Canonical roots of a request\<close>

definition user_space_fragment :: "request_context \<Rightarrow> string" where
  "user_space_fragment ctx = ui_user_id (rc_user ctx)"

definition canonical_user_root :: "request_context \<Rightarrow> string" where
  "canonical_user_root ctx = ''viking://user/'' @ user_space_fragment ctx"

definition canonical_session_root :: "request_context \<Rightarrow> string" where
  "canonical_session_root ctx = canonical_user_root ctx @ ''/sessions''"

definition canonical_session_uri :: "request_context \<Rightarrow> string option \<Rightarrow> string" where
  "canonical_session_uri ctx session_id =
     (let root = canonical_session_root ctx
      in case session_id of
           None \<Rightarrow> root
         | Some sid \<Rightarrow> if sid = [] then root else root @ ''/'' @ sid)"

definition is_session_uri :: "string \<Rightarrow> bool res" where
  "is_session_uri uri = map_sum id
     (\<lambda>parts. take 1 parts = [''session'']
        \<or> (3 \<le> length parts \<and> parts ! 0 = ''user'' \<and> parts ! 2 = ''sessions'')) (uri_parts uri)"

definition AGENT_SHARED_ROOTS :: "string list" where
  "AGENT_SHARED_ROOTS = [''viking://agent/skills'']"

definition visible_roots :: "request_context \<Rightarrow> string list" where
  "visible_roots ctx = [''viking://resources''] @ AGENT_SHARED_ROOTS @ [canonical_user_root ctx]"

section \<open>Resolving a canonical URI\<close>

definition require_peer_id_segment :: "string \<Rightarrow> unit res" where
  "require_peer_id_segment peer_id =
     (case normalize_peer_id (Some peer_id) of
        Inl e \<Rightarrow> if is_value_error e then Inl NamespaceShapeError else Inl e
      | Inr None \<Rightarrow> Inl NamespaceShapeError
      | Inr (Some _) \<Rightarrow> Inr ())"

definition validate_peer_id_segments :: "string list \<Rightarrow> unit res" where
  "validate_peer_id_segments parts =
     (if 4 \<le> length parts \<and> parts ! 0 = ''user'' \<and> parts ! 2 = ''peers''
      then require_peer_id_segment (parts ! 3) else Inr ())"

definition resolve_user_uri :: "string list \<Rightarrow> resolved_namespace res" where
  "resolve_user_uri parts =
     (if length parts = 1
      then Inr \<lparr>rn_uri = ''viking://user'', rn_scope = ''user'', rn_owner_user_id = None,
                rn_is_container = True\<rparr>
      else
        let user_id = parts ! 1
        in if validate_user_id user_id \<noteq> None then Inl NamespaceShapeError
           else if length parts = 2
           then Inr \<lparr>rn_uri = ''viking://user/'' @ user_id, rn_scope = ''user'',
                     rn_owner_user_id = Some user_id, rn_is_container = False\<rparr>
           else
             let suffix = drop 2 parts;
                 canonical = ''viking://user/'' @ user_id;
                 canonical = (if suffix \<noteq> [] then canonical @ ''/'' @ join_with ''/'' suffix
                              else canonical)
             in bind_res (validate_peer_id_segments parts) (\<lambda>_.
                  Inr \<lparr>rn_uri = canonical, rn_scope = ''user'', rn_owner_user_id = Some user_id,
                       rn_is_container = False\<rparr>))"

definition resolve_uri :: "string \<Rightarrow> resolved_namespace res" where
  "resolve_uri uri =
     bind_res (mk_viking_uri uri) (\<lambda>parsed.
       let canonical_uri = (if rstrip_by is_slash (vu_uri parsed) \<noteq> []
                            then rstrip_by is_slash (vu_uri parsed) else ''viking://'')
       in bind_res (uri_parts uri) (\<lambda>parts.
            if parts = []
            then Inr \<lparr>rn_uri = ''viking://'', rn_scope = '''', rn_owner_user_id = None,
                      rn_is_container = True\<rparr>
            else
              let scope = parts ! 0
              in if scope = ''user'' then resolve_user_uri parts
                 else if scope = ''agent''
                 then Inr \<lparr>rn_uri = canonical_uri, rn_scope = scope, rn_owner_user_id = None,
                           rn_is_container = False\<rparr>
                 else if scope = ''~'' then Inl NamespaceShapeError
                 else if scope = ''session'' then Inl NamespaceShapeError
                 else Inr \<lparr>rn_uri = canonical_uri, rn_scope = scope, rn_owner_user_id = None,
                           rn_is_container = False\<rparr>))"

section \<open>Request aliases\<close>

definition is_reserved_user_root_segment :: "string \<Rightarrow> bool" where
  "is_reserved_user_root_segment segment \<longleftrightarrow>
     segment \<in> fst ` set (content_types_of ''user'') \<or> segment \<in> set USER_RELATIVE_ROOT_SEGMENTS"

definition resolve_current_user_uri :: "string \<Rightarrow> request_context \<Rightarrow> string res" where
  "resolve_current_user_uri uri ctx =
     bind_res (uri_parts uri) (\<lambda>parts.
       if parts = [] then Inr ''viking://''
       else if parts ! 0 = ''~''
       then (if length parts = 1 then Inr (canonical_user_root ctx)
             else Inr (canonical_user_root ctx @ ''/'' @ join_with ''/'' (drop 1 parts)))
       else if parts ! 0 = ''session''
       then (if length parts = 1 then Inr (canonical_session_root ctx)
             else
               let canonical = canonical_session_uri ctx (Some (parts ! 1))
               in if 2 < length parts
                  then Inr (canonical @ ''/'' @ join_with ''/'' (drop 2 parts))
                  else Inr canonical)
       else if parts ! 0 = ''user'' \<and> 2 \<le> length parts
               \<and> parts ! 1 \<noteq> ui_user_id (rc_user ctx)
               \<and> is_reserved_user_root_segment (parts ! 1)
       then Inl NamespaceShapeError
       else map_sum id rn_uri (resolve_uri uri))"

definition resolve_request_uri :: "string \<Rightarrow> request_context \<Rightarrow> string res" where
  "resolve_request_uri uri ctx =
     (if rc_role ctx \<in> {USER, ADMIN} then resolve_current_user_uri uri ctx
      else map_sum id rn_uri (resolve_uri uri))"

section \<open>Access\<close>

definition truthy_str :: "string option \<Rightarrow> bool" where
  "truthy_str s \<longleftrightarrow> s \<noteq> None \<and> s \<noteq> Some ''''"

definition is_accessible :: "string \<Rightarrow> request_context \<Rightarrow> bool res" where
  "is_accessible uri ctx =
     (if rc_role ctx = ROOT then Inr True
      else
        case resolve_uri uri of
          Inl e \<Rightarrow> if e = NamespaceShapeError then Inr False else Inl e
        | Inr target \<Rightarrow>
            if rn_scope target \<in> {'''', ''resources'', ''temp'', ''queue''} then Inr True
            else if rn_scope target = ''upload'' then Inr False
            else if rn_scope target = ''user''
            then (if truthy_str (rn_owner_user_id target)
                     \<and> rn_owner_user_id target \<noteq> Some (ui_user_id (rc_user ctx))
                  then Inr False else Inr True)
            else if rn_scope target = ''agent''
            then bind_res (uri_parts (rn_uri target)) (\<lambda>parts.
                   if truthy_str (rc_actor_peer_id ctx) \<and> 2 \<le> length parts
                      \<and> Some (parts ! 1) \<noteq> rc_actor_peer_id ctx
                   then Inr False else Inr True)
            else Inr True)"

definition actor_peer_view_user_suffix ::
    "string \<Rightarrow> request_context \<Rightarrow> string list option res" where
  "actor_peer_view_user_suffix uri ctx =
     (if \<not> truthy_str (rc_actor_peer_id ctx) then Inr None
      else
        case resolve_uri uri of
          Inl e \<Rightarrow> if e = NamespaceShapeError then Inr None else Inl e
        | Inr _ \<Rightarrow>
            bind_res (uri_parts uri) (\<lambda>parts.
              let user_root_parts = [''user'', ui_user_id (rc_user ctx)]
              in if take (length user_root_parts) parts \<noteq> user_root_parts then Inr None
                 else Inr (Some (drop (length user_root_parts) parts))))"

definition is_hidden_by_actor_peer_view :: "string \<Rightarrow> request_context \<Rightarrow> bool res" where
  "is_hidden_by_actor_peer_view uri ctx =
     map_sum id (\<lambda>suffix. case suffix of
         None \<Rightarrow> False
       | Some sfx \<Rightarrow> 2 \<le> length sfx \<and> sfx ! 0 = ''peers''
                     \<and> Some (sfx ! 1) \<noteq> rc_actor_peer_id ctx)
       (actor_peer_view_user_suffix uri ctx)"

definition may_include_hidden_actor_peers :: "string \<Rightarrow> request_context \<Rightarrow> bool res" where
  "may_include_hidden_actor_peers uri ctx =
     map_sum id (\<lambda>suffix. case suffix of
         None \<Rightarrow> False
       | Some sfx \<Rightarrow> sfx = [] \<or> sfx = [''peers'']) (actor_peer_view_user_suffix uri ctx)"

definition is_content_root_uri :: "string \<Rightarrow> string \<Rightarrow> bool res" where
  "is_content_root_uri uri kind =
     (case resolve_uri uri of
        Inl e \<Rightarrow> if is_value_error e then Inr False else Inl e
      | Inr _ \<Rightarrow>
          bind_res (uri_parts uri) (\<lambda>parts.
            if kind = ''resource'' \<and> parts = [''resources''] then Inr True
            else bind_res (classify_uri uri) (\<lambda>cl.
              Inr (uc_context_type cl = kind \<and>
                   (case uc_content_index cl of
                      None \<Rightarrow> False
                    | Some i \<Rightarrow> length parts = i + 1)))))"

text \<open>The dict of two fields that \<open>owner_fields_for_uri\<close> returns, as a pair.\<close>

definition owner_fields_for_uri :: "string \<Rightarrow> (string \<times> string option) res" where
  "owner_fields_for_uri uri =
     (case resolve_uri uri of
        Inl e \<Rightarrow> if is_value_error e then Inr (rstrip_by is_slash uri, None) else Inl e
      | Inr resolved \<Rightarrow> Inr (rn_uri resolved, rn_owner_user_id resolved))"

definition content_owner_context_for_uri ::
    "string \<Rightarrow> request_context \<Rightarrow> request_context res" where
  "content_owner_context_for_uri uri ctx =
     bind_res (owner_fields_for_uri uri) (\<lambda>(_, owner).
       case owner of
         None \<Rightarrow> Inr ctx
       | Some owner_user_id \<Rightarrow>
           if owner_user_id = [] \<or> owner_user_id = ui_user_id (rc_user ctx) then Inr ctx
           else
             bind_res (mk_user_identifier (rc_account_id ctx) owner_user_id) (\<lambda>user.
               Inr \<lparr>rc_user = user, rc_role = rc_role ctx,
                    rc_actor_peer_id = rc_actor_peer_id ctx,
                    rc_from_oauth = rc_from_oauth ctx, rc_api_key = rc_api_key ctx\<rparr>))"

definition owner_space_for_uri :: "string \<Rightarrow> string res" where
  "owner_space_for_uri uri =
     map_sum id (\<lambda>resolved.
       if rn_scope resolved = ''user'' \<and> truthy_str (rn_owner_user_id resolved)
       then the (rn_owner_user_id resolved) else '''') (resolve_uri uri)"

section \<open>Lemmas on path segments\<close>

definition path_segments :: "string \<Rightarrow> string list" where
  "path_segments s = filter (\<lambda>p. p \<noteq> []) (split_on (CHR ''/'') s)"

definition clean_segment :: "string \<Rightarrow> bool" where
  "clean_segment p \<longleftrightarrow> p \<noteq> [] \<and> CHR ''/'' \<notin> set p \<and> CHR ''?'' \<notin> set p"

lemma split_on_snoc: "split_on c (s @ [c]) = split_on c s @ [[]]"
proof (induction s)
  case Nil
  then show ?case by simp
next
  case (Cons x xs)
  obtain v vs where "split_on c xs = v # vs" by (cases "split_on c xs") auto
  with Cons show ?case by auto
qed

lemma path_segments_slashes: "\<forall>c \<in> set t. is_slash c \<Longrightarrow> path_segments (s @ t) = path_segments s"
proof (induction t rule: rev_induct)
  case (snoc x xs)
  then have "path_segments ((s @ xs) @ [x]) = path_segments (s @ xs)"
    by (simp add: path_segments_def split_on_snoc flip: append_assoc)
  with snoc show ?case by simp
qed simp

lemma path_segments_Nil [simp]: "path_segments [] = []"
  by (simp add: path_segments_def)

lemma path_segments_rstrip: "path_segments (rstrip_by is_slash s) = path_segments s"
proof -
  obtain t where t: "s = rstrip_by is_slash s @ t" "\<forall>c \<in> set t. is_slash c"
    using rstrip_by_decomp [of s is_slash] by blast
  have "path_segments s = path_segments (rstrip_by is_slash s @ t)"
    by (rule arg_cong [OF t(1)])
  also have "\<dots> = path_segments (rstrip_by is_slash s)"
    by (rule path_segments_slashes [OF t(2)])
  finally show ?thesis by simp
qed

lemma path_segments_join:
  assumes "ps \<noteq> []" and "\<forall>p \<in> set ps. p \<noteq> [] \<and> CHR ''/'' \<notin> set p"
  shows "path_segments (join_with ''/'' ps) = ps"
  using assms by (simp add: path_segments_def split_on_join_with)

lemma hd_split_prefix: "c \<notin> set w \<Longrightarrow> hd (split_on c (w @ s)) = w @ hd (split_on c s)"
proof (induction w)
  case (Cons x w)
  obtain v vs where "split_on c (w @ s) = v # vs" by (cases "split_on c (w @ s)") auto
  with Cons show ?case by auto
qed simp

lemma uri_parts_path:
  "uri_parts (''viking://'' @ path) = Inr (path_segments (hd (split_on (CHR ''?'') path)))"
proof -
  define q where "q = hd (split_on (CHR ''?'') path)"
  have n: "hd (split_on (CHR ''?'') (''viking://'' @ path)) = ''viking://'' @ q"
    using hd_split_prefix [of "CHR ''?''" "''viking://''" path] by (simp add: q_def)
  show ?thesis
  proof (cases "rstrip_by is_slash q = []")
    case True
    then have seg: "path_segments q = []"
      using path_segments_rstrip [of q] by simp
    have "\<forall>c \<in> set q. is_slash c"
      using True rstrip_by_decomp [of q is_slash] by auto
    then have "rstrip_by is_slash (''viking://'' @ q) = ''viking:''"
      by (subst rstrip_by_append_all) (auto simp: rstrip_by_def)
    then show ?thesis
      using n seg unfolding uri_parts_def q_def [symmetric]
      by (simp add: startswith_def Let_def)
  next
    case False
    then have "q \<noteq> []" by (auto simp: rstrip_by_def)
    moreover have "rstrip_by is_slash (''viking://'' @ q) = ''viking://'' @ rstrip_by is_slash q"
      using rstrip_prefix_path [OF False] by (simp add: SCHEME_PREFIX_eq)
    ultimately show ?thesis
      using n path_segments_rstrip [of q] unfolding uri_parts_def q_def [symmetric]
      by (simp add: startswith_def Let_def path_segments_def)
  qed
qed

lemmas uri_parts_path_simp = uri_parts_path [simplified]

lemma uri_parts_error: "\<not> startswith uri ''viking://'' \<Longrightarrow> uri_parts uri = Inl ValueError"
proof -
  assume h: "\<not> startswith uri ''viking://''"
  obtain q rest where q: "q = hd (split_on (CHR ''?'') uri)" "uri = q @ rest"
    using split_hd_decomp [of uri "CHR ''?''"] by blast
  have "\<not> startswith q ''viking://''"
    using h q(2) by (auto simp: startswith_iff)
  then show ?thesis unfolding uri_parts_def Let_def q(1) [symmetric] by simp
qed

lemma uri_parts_clean:
  assumes "uri_parts uri = Inr ps" and "p \<in> set ps"
  shows "clean_segment p"
proof (cases "startswith uri ''viking://''")
  case True
  then obtain path where u: "uri = ''viking://'' @ path" by (auto simp: startswith_iff)
  let ?q = "hd (split_on (CHR ''?'') path)"
  have p: "p \<in> set (split_on (CHR ''/'') ?q)" "p \<noteq> []"
    using assms by (auto simp: u uri_parts_path_simp path_segments_def)
  have "CHR ''?'' \<notin> set ?q" using split_on_parts_clean by (metis hd_in_set split_on_not_Nil)
  with p split_on_subset [OF p(1)] split_on_parts_clean [OF p(1)] show ?thesis
    by (auto simp: clean_segment_def)
next
  case False
  with assms show ?thesis by (simp add: uri_parts_error)
qed

lemma uri_parts_join:
  assumes "ps \<noteq> []" and "\<forall>p \<in> set ps. clean_segment p"
  shows "uri_parts (''viking://'' @ join_with ''/'' ps) = Inr ps"
proof -
  have "CHR ''?'' \<notin> set (join_with ''/'' ps)"
    using set_join_with [of "''/''" ps] assms(2) by (auto simp: clean_segment_def)
  then have "hd (split_on (CHR ''?'') (join_with ''/'' ps)) = join_with ''/'' ps"
    by (simp add: split_on_no_sep)
  then show ?thesis
    using assms by (simp add: uri_parts_path_simp path_segments_join clean_segment_def)
qed

section \<open>Lemmas on canonical URIs\<close>

lemma resolve_uri_parts:
  assumes "resolve_uri uri = Inr r"
  obtains v ps where "mk_viking_uri uri = Inr v" and "uri_parts uri = Inr ps"
  using assms unfolding resolve_uri_def Let_def by (auto simp: bind_res_Inr_iff)

lemma scoped_uri_parts:
  assumes "sc \<in> set VISITABLE_SCOPES" and "rest = [] \<or> hd rest = CHR ''/''"
  shows "\<exists>ps. uri_parts (SCHEME_PREFIX @ sc @ rest) = Inr (sc # ps)"
proof -
  have cl: "sc \<noteq> []" "CHR ''/'' \<notin> set sc" "CHR ''?'' \<notin> set sc"
    using visitable_scope_clean [OF assms(1)] by auto
  let ?q = "hd (split_on (CHR ''?'') rest)"
  have q: "?q = [] \<or> hd ?q = CHR ''/''"
    using assms(2) split_hd_decomp [of rest "CHR ''?''"]
    by (cases rest) (auto split: list.splits)
  have "path_segments (sc @ ?q) = sc # path_segments (tl ?q)"
    using q cl by (cases ?q) (auto simp: path_segments_def split_on_no_sep split_on_append_sep)
  then show ?thesis
    using uri_parts_path [of "sc @ rest"] cl
    by (simp add: SCHEME_PREFIX_eq hd_split_prefix)
qed

lemma resolve_uri_scope_parts:
  assumes "mk_viking_uri uri = Inr v" and "uri_parts uri = Inr ps"
  shows "if ps = [] then vu_scope v = '''' else ps ! 0 = vu_scope v \<and> vu_scope v \<in> set VISITABLE_SCOPES"
  using assms(1)
proof (cases rule: mk_viking_uri_cases)
  case (root path)
  then have all: "\<forall>c \<in> set path. is_slash c"
    using rstrip_by_decomp [of path is_slash] by auto
  then have "CHR ''?'' \<notin> set path" by auto
  then have "uri_parts uri = Inr (path_segments path)"
    using root(1) uri_parts_path [of path] by (simp add: SCHEME_PREFIX_eq split_on_no_sep)
  also have "path_segments path = []"
    using path_segments_slashes [OF all, of "[]"] by simp
  finally show ?thesis using assms(2) root(3) by simp
next
  case (scoped sc rest)
  from scoped_uri_parts [OF scoped(2,3)] show ?thesis
    using assms(2) scoped(1,2,4) by auto
qed

text \<open>Removing trailing slashes keeps the segments and the scope of a scoped URI.\<close>

lemma rstrip_scoped_uri:
  assumes "mk_viking_uri uri = Inr v" and "vu_scope v \<noteq> ''''"
  shows "mk_viking_uri (rstrip_by is_slash uri) =
      Inr (v\<lparr>vu_uri := rstrip_by is_slash uri, vu_full_path := rstrip_by is_slash (vu_full_path v)\<rparr>)
    \<and> uri_parts (rstrip_by is_slash uri) = uri_parts uri"
  using assms(1)
proof (cases rule: mk_viking_uri_cases)
  case (root path)
  with assms(2) show ?thesis by simp
next
  case (scoped sc rest)
  have cl: "sc \<noteq> []" "CHR ''/'' \<notin> set sc"
    using visitable_scope_clean [OF scoped(2)] by auto
  obtain r where r: "rstrip_by is_slash (sc @ rest) = sc @ r" "r = [] \<or> hd r = CHR ''/''"
    using rstrip_keeps_scope [OF refl cl scoped(3)] by blast
  have ur: "rstrip_by is_slash uri = SCHEME_PREFIX @ sc @ r"
    using rstrip_prefix_path [of "sc @ rest"] r(1) cl(1) scoped(1) by simp
  obtain t where t: "sc @ rest = (sc @ r) @ t" "\<forall>c \<in> set t. is_slash c"
    using rstrip_by_decomp [of "sc @ rest" is_slash] unfolding r(1) by blast
  have "path_segments (hd (split_on (CHR ''?'') ((sc @ r) @ t))) =
      path_segments (hd (split_on (CHR ''?'') (sc @ r)))"
  proof (cases "CHR ''?'' \<in> set (sc @ r)")
    case True
    from split_list_first [OF this]
    obtain a b where ab: "sc @ r = a @ CHR ''?'' # b" "CHR ''?'' \<notin> set a"
      by blast
    have "hd (split_on (CHR ''?'') ((a @ CHR ''?'' # b) @ t)) = a"
      using ab(2) hd_split_append_sep [of _ a "b @ t"] by simp
    then show ?thesis unfolding ab(1) using ab(2) by (simp add: hd_split_append_sep)
  next
    case False
    then have "CHR ''?'' \<notin> set ((sc @ r) @ t)" using t(2) by auto
    then show ?thesis
      using False path_segments_slashes [OF t(2), of "sc @ r"] 
      by (simp only: split_on_no_sep list.sel not_False_eq_True)
  qed
  then have "uri_parts (SCHEME_PREFIX @ sc @ r) = uri_parts (SCHEME_PREFIX @ sc @ rest)"
    using uri_parts_path [of "sc @ r"] uri_parts_path [of "sc @ rest"] t(1)
    by (simp add: SCHEME_PREFIX_eq)
  moreover have "v = \<lparr>vu_uri = uri, vu_scope = sc, vu_full_path = sc @ rest\<rparr>"
    using mk_viking_uri_scoped [OF scoped(2,3)] assms(1) scoped(1) by simp
  ultimately show ?thesis
    using mk_viking_uri_scoped [OF scoped(2) r(2)] ur r(1) scoped(1) by simp
qed

section \<open>Properties\<close>

text \<open>The canonical form of a user URI is the join of its segments.\<close>

lemma resolve_user_uri_canonical:
  assumes "resolve_user_uri parts = Inr r" and "parts ! 0 = ''user''" and "parts \<noteq> []"
    and "\<forall>p \<in> set parts. clean_segment p"
  shows "rn_uri r = ''viking://'' @ join_with ''/'' parts \<and> rn_scope r = ''user''
     \<and> rn_owner_user_id r = (if length parts = 1 then None else Some (parts ! 1))"
proof (cases parts)
  case (Cons a l)
  show ?thesis
  proof (cases l)
    case Nil
    with Cons assms show ?thesis by (auto simp: resolve_user_uri_def)
  next
    case (Cons b l')
    with \<open>parts = a # l\<close> assms show ?thesis
      by (cases l') (auto simp: resolve_user_uri_def Let_def bind_res_Inr_iff split: if_splits)
  qed
qed (use assms in simp)

lemma resolve_uri_of_parts:
  assumes "mk_viking_uri uri = Inr v" and "uri_parts uri = Inr ps" and "ps \<noteq> []"
    and "ps ! 0 = ''user''"
  shows "resolve_uri uri = resolve_user_uri ps"
  using assms by (simp add: resolve_uri_def)

lemma mk_viking_uri_user_join:
  assumes "ps \<noteq> []" and "ps ! 0 = ''user''"
  shows "\<exists>v. mk_viking_uri (''viking://'' @ join_with ''/'' ps) = Inr v"
proof (cases ps)
  case (Cons a l)
  then have j: "join_with ''/'' ps = ''user'' @ (if l = [] then [] else ''/'' @ join_with ''/'' l)"
    using assms by (cases l) auto
  have "''user'' \<in> set VISITABLE_SCOPES" by (simp add: scope_defs)
  then show ?thesis
    using mk_viking_uri_scoped [of "''user''" "if l = [] then [] else ''/'' @ join_with ''/'' l"] j
    by (auto simp: SCHEME_PREFIX_eq split: if_splits)
qed (use assms in simp)

lemma resolve_uri_idem:
  assumes "resolve_uri uri = Inr r"
  shows "resolve_uri (rn_uri r) = Inr r"
proof -
  obtain v ps where v: "mk_viking_uri uri = Inr v" and ps: "uri_parts uri = Inr ps"
    using assms by (rule resolve_uri_parts)
  note sc = resolve_uri_scope_parts [OF v ps]
  consider "ps = []" | "ps \<noteq> []" "ps ! 0 = ''user''" | "ps \<noteq> []" "ps ! 0 \<noteq> ''user''" by blast
  then show ?thesis
  proof cases
    case 1
    then have r: "r = \<lparr>rn_uri = ''viking://'', rn_scope = '''', rn_owner_user_id = None,
        rn_is_container = True\<rparr>"
      using assms v ps by (simp add: resolve_uri_def)
    have "resolve_uri ''viking://'' = Inr r" unfolding r by code_simp
    then show ?thesis using r by simp
  next
    case 2
    have clean: "\<forall>p \<in> set ps. clean_segment p" using uri_parts_clean [OF ps] by blast
    have r: "resolve_user_uri ps = Inr r" using resolve_uri_of_parts [OF v ps 2] assms by simp
    have u: "rn_uri r = ''viking://'' @ join_with ''/'' ps"
      using resolve_user_uri_canonical [OF r 2(2,1) clean] by blast
    obtain v' where "mk_viking_uri (rn_uri r) = Inr v'"
      using mk_viking_uri_user_join [OF 2] u by auto
    moreover have "uri_parts (rn_uri r) = Inr ps"
      unfolding u by (rule uri_parts_join [OF 2(1) clean])
    ultimately show ?thesis using resolve_uri_of_parts 2 r by metis
  next
    case 3
    have ne: "vu_scope v \<noteq> ''''" using sc 3 visitable_scope_clean by (auto split: if_splits)
    note rs = rstrip_scoped_uri [OF v ne]
    have u: "vu_uri v = uri" by (rule mk_viking_uri_uri [OF v])
    have ne2: "rstrip_by is_slash uri \<noteq> []"
      using mk_viking_uri_prefix [of "rstrip_by is_slash uri"] rs by (auto simp: startswith_def SCHEME_PREFIX_eq)
    have r: "rn_uri r = rstrip_by is_slash uri"
      using assms v ps 3 ne2 u by (auto simp: resolve_uri_def Let_def split: if_splits)
    show ?thesis
      using assms rs v ps 3 ne2 u unfolding r by (simp add: resolve_uri_def)
  qed
qed

text \<open>Canonicalization is idempotent. Whenever \<open>resolve_uri\<close> accepts a URI, resolving the
  canonical URI it returns succeeds again and gives the same namespace, owner and container
  flag, so stored canonical URIs can be resolved any number of times.\<close>

lemma resolve_uri_idempotent:
  assumes "resolve_uri uri = Inr r"
  shows "resolve_uri (rn_uri r) = Inr r"
  by (rule resolve_uri_idem [OF assms])

lemma resolve_uri_user_owner:
  assumes "resolve_uri uri = Inr r" and "uri_parts uri = Inr (''user'' # owner # rest)"
  shows "rn_scope r = ''user'' \<and> rn_owner_user_id r = Some owner"
proof -
  obtain v where v: "mk_viking_uri uri = Inr v"
    using assms(1) by (auto elim: resolve_uri_parts)
  have clean: "\<forall>p \<in> set (''user'' # owner # rest). clean_segment p"
    using uri_parts_clean [OF assms(2)] by blast
  have "resolve_user_uri (''user'' # owner # rest) = Inr r"
    using resolve_uri_of_parts [OF v assms(2)] assms(1) by simp
  from resolve_user_uri_canonical [OF this _ _ clean] show ?thesis by simp
qed

lemma clean_not_empty: "clean_segment p \<Longrightarrow> truthy_str (Some p)"
  by (simp add: clean_segment_def truthy_str_def)

lemma user_scope_access:
  assumes "rc_role ctx \<noteq> ROOT" and "uri_parts uri = Inr (''user'' # owner # rest)"
    and "is_accessible uri ctx = Inr b"
  shows "b \<longleftrightarrow> owner = ui_user_id (rc_user ctx) \<and> (\<exists>r. resolve_uri uri = Inr r)"
proof (cases "resolve_uri uri")
  case (Inl e)
  with assms(1,3) show ?thesis by (auto simp: is_accessible_def split: if_splits)
next
  case (Inr r)
  note o = resolve_uri_user_owner [OF Inr assms(2)]
  have "truthy_str (Some owner)"
    using uri_parts_clean [OF assms(2), of owner] clean_not_empty by simp
  with assms(1,3) Inr o show ?thesis by (auto simp: is_accessible_def split: if_splits)
qed

lemma accessible_user_owner:
  assumes "rc_role ctx \<noteq> ROOT" and "uri_parts uri = Inr (''user'' # owner # rest)"
    and "is_accessible uri ctx = Inr True"
  shows "owner = ui_user_id (rc_user ctx)"
  using user_scope_access [OF assms] by simp

text \<open>C1: users of an account are isolated. For a caller without the root role, a URI in the
  user scope that names an owner is accessible exactly when it resolves and the owner is the
  caller; in particular no spelling of another user's URI (doubled slashes, a query string)
  is accessible.\<close>

theorem user_scope_isolation:
  assumes "rc_role ctx \<noteq> ROOT" and "uri_parts uri = Inr (''user'' # owner # rest)"
    and "is_accessible uri ctx = Inr b"
  shows "b \<longleftrightarrow> owner = ui_user_id (rc_user ctx) \<and> (\<exists>r. resolve_uri uri = Inr r)"
  by (rule user_scope_access [OF assms])

definition demo_ctx :: request_context where
  "demo_ctx = \<lparr>rc_user = \<lparr>ui_account_id = ''acme'', ui_user_id = ''alice''\<rparr>, rc_role = USER,
     rc_actor_peer_id = None, rc_from_oauth = False, rc_api_key = None\<rparr>"

theorem user_scope_isolation_witness:
  "is_accessible ''viking://user//bob/memories'' demo_ctx = Inr False
   \<and> is_accessible ''viking://user/alice/memories'' demo_ctx = Inr True"
proof -
  have role: "rc_role demo_ctx \<noteq> ROOT" by code_simp
  have parts: "uri_parts ''viking://user//bob/memories'' = Inr [''user'', ''bob'', ''memories'']"
      "uri_parts ''viking://user/alice/memories'' = Inr [''user'', ''alice'', ''memories'']"
    by code_simp+
  obtain b c where
    b: "is_accessible ''viking://user//bob/memories'' demo_ctx = Inr b" and
    c: "is_accessible ''viking://user/alice/memories'' demo_ctx = Inr c" and
    r: "\<exists>r. resolve_uri ''viking://user/alice/memories'' = Inr r"
  proof -
    have "is_accessible ''viking://user//bob/memories'' demo_ctx = Inr False" by code_simp
    moreover have "is_accessible ''viking://user/alice/memories'' demo_ctx = Inr True" by code_simp
    moreover have "resolve_uri ''viking://user/alice/memories'' =
        Inr \<lparr>rn_uri = ''viking://user/alice/memories'', rn_scope = ''user'',
             rn_owner_user_id = Some ''alice'', rn_is_container = False\<rparr>"
      by code_simp
    ultimately show ?thesis using that by blast
  qed
  have "b \<longleftrightarrow> False" using user_scope_isolation [OF role parts(1) b] by (simp add: demo_ctx_def)
  moreover have "c \<longleftrightarrow> True"
    using user_scope_isolation [OF role parts(2) c] r by (simp add: demo_ctx_def)
  ultimately show ?thesis using b c by simp
qed

section \<open>Alias expansion\<close>

lemma user_root_join:
  "canonical_user_root ctx = ''viking://'' @ join_with ''/'' [''user'', ui_user_id (rc_user ctx)]"
  by (simp add: canonical_user_root_def user_space_fragment_def)

lemma user_root_append:
  "ps \<noteq> [] \<Longrightarrow> canonical_user_root ctx @ ''/'' @ join_with ''/'' ps =
     ''viking://'' @ join_with ''/'' ([''user'', ui_user_id (rc_user ctx)] @ ps)"
  by (simp add: canonical_user_root_def user_space_fragment_def join_with_Cons_ne)

lemma session_uri_join:
  assumes "sid \<noteq> []"
  shows "canonical_session_uri ctx (Some sid) @ (if rest = [] then [] else ''/'' @ join_with ''/'' rest) =
     ''viking://'' @ join_with ''/'' ([''user'', ui_user_id (rc_user ctx), ''sessions'', sid] @ rest)"
  using assms
  by (cases rest) (simp_all add: canonical_session_uri_def canonical_session_root_def
      canonical_user_root_def user_space_fragment_def Let_def)

lemma uri_parts_user_join:
  assumes "clean_segment (ui_user_id (rc_user ctx))" and "\<forall>p \<in> set ps. clean_segment p"
  shows "uri_parts (''viking://'' @ join_with ''/'' ([''user'', ui_user_id (rc_user ctx)] @ ps)) =
     Inr ([''user'', ui_user_id (rc_user ctx)] @ ps)"
  using assms by (intro uri_parts_join) (auto simp: clean_segment_def)

lemma valid_user_clean: "validate_user_id u = None \<Longrightarrow> clean_segment u"
  using validate_part_clean by (auto simp: validate_user_id_def clean_segment_def)

lemma alias_home_uri:
  assumes "uri_parts uri = Inr (''~'' # ps)"
  shows "resolve_current_user_uri uri ctx =
    Inr (''viking://'' @ join_with ''/'' ([''user'', ui_user_id (rc_user ctx)] @ ps))"
proof (cases "ps = []")
  case True
  with assms show ?thesis by (simp add: resolve_current_user_uri_def user_root_join)
next
  case False
  with assms user_root_append [OF False, of ctx] show ?thesis
    by (simp add: resolve_current_user_uri_def)
qed

lemma alias_session_uri:
  assumes "uri_parts uri = Inr (''session'' # ps)" and "\<forall>p \<in> set ps. p \<noteq> []"
  shows "resolve_current_user_uri uri ctx =
    Inr (''viking://'' @ join_with ''/'' ([''user'', ui_user_id (rc_user ctx)] @ ''sessions'' # ps))"
proof (cases ps)
  case Nil
  with assms show ?thesis
    by (simp add: resolve_current_user_uri_def canonical_session_root_def user_root_join)
next
  case (Cons sid rest)
  then have "sid \<noteq> []" using assms(2) by simp
  from session_uri_join [OF this, of ctx rest] show ?thesis
    using assms(1) Cons by (cases rest) (simp_all add: resolve_current_user_uri_def Let_def)
qed

text \<open>The two request aliases expand into the caller's own space. For a caller with the user
  or admin role and a valid user id, \<open>viking://~/p\<close> resolves to the URI with segments
  \<open>user, caller, p\<close> and \<open>viking://session/s/p\<close> to \<open>user, caller, sessions, s, p\<close>; no other
  user's segment can appear.\<close>

lemma alias_expands_to_caller:
  assumes "rc_role ctx = USER \<or> rc_role ctx = ADMIN"
    and "validate_user_id (ui_user_id (rc_user ctx)) = None"
    and "uri_parts uri = Inr (alias # ps)"
    and "alias = ''~'' \<and> pre = [] \<or> alias = ''session'' \<and> pre = [''sessions'']"
  shows "\<exists>s. resolve_request_uri uri ctx = Inr s
     \<and> uri_parts s = Inr ([''user'', ui_user_id (rc_user ctx)] @ pre @ ps)"
proof -
  note uid = valid_user_clean [OF assms(2)]
  have ses: "clean_segment ''sessions''" by (simp add: clean_segment_def)
  have clean: "\<forall>p \<in> set (pre @ ps). clean_segment p"
    using uri_parts_clean [OF assms(3)] assms(4) ses by auto
  have "resolve_request_uri uri ctx = resolve_current_user_uri uri ctx"
    using assms(1) by (auto simp: resolve_request_uri_def)
  also have "\<dots> = Inr (''viking://'' @ join_with ''/'' ([''user'', ui_user_id (rc_user ctx)] @ pre @ ps))"
    using assms(4) alias_home_uri alias_session_uri assms(3) clean
    by (auto simp: clean_segment_def)
  finally show ?thesis using uri_parts_user_join [OF uid clean] by blast
qed

lemma canonical_not_alias:
  assumes "resolve_uri s = Inr r"
  shows "\<exists>ps. uri_parts s = Inr ps \<and> (ps = [] \<or> (ps ! 0 \<noteq> ''~'' \<and> ps ! 0 \<noteq> ''session''))"
proof -
  obtain v ps where v: "mk_viking_uri s = Inr v" and ps: "uri_parts s = Inr ps"
    using assms by (rule resolve_uri_parts)
  with assms show ?thesis by (auto simp: resolve_uri_def Let_def split: if_splits)
qed

text \<open>aliases never survive the request boundary. Whatever URI a request carries and whatever
  role it has, a URI that \<open>resolve_request_uri\<close> returns is one the canonical parser accepts
  or rejects by shape only: its first segment is never \<open>~\<close> and never \<open>session\<close>.\<close>

lemma resolve_request_uri_no_alias:
  assumes "validate_user_id (ui_user_id (rc_user ctx)) = None"
    and "resolve_request_uri uri ctx = Inr s"
  shows "\<exists>ps. uri_parts s = Inr ps \<and> (ps = [] \<or> (ps ! 0 \<noteq> ''~'' \<and> ps ! 0 \<noteq> ''session''))"
proof -
  note uid = valid_user_clean [OF assms(1)]
  have canon: "\<exists>ps. uri_parts s = Inr ps \<and> (ps = [] \<or> (ps ! 0 \<noteq> ''~'' \<and> ps ! 0 \<noteq> ''session''))"
    if m: "map_sum id rn_uri (resolve_uri uri) = Inr s" for s
  proof -
    obtain r where r: "resolve_uri uri = Inr r" "s = rn_uri r"
      using m by (cases "resolve_uri uri") auto
    have "resolve_uri s = Inr r" using resolve_uri_idem [OF r(1)] r(2) by simp
    then show ?thesis by (rule canonical_not_alias)
  qed
  have user: "\<exists>ps. uri_parts s = Inr ps \<and> (ps = [] \<or> (ps ! 0 \<noteq> ''~'' \<and> ps ! 0 \<noteq> ''session''))"
    if "s = ''viking://'' @ join_with ''/'' ([''user'', ui_user_id (rc_user ctx)] @ qs)"
      and "\<forall>q \<in> set qs. clean_segment q" for qs
    using uri_parts_user_join [OF uid that(2)] that(1) by auto
  show ?thesis
  proof (cases "rc_role ctx \<in> {USER, ADMIN}")
    case False
    with assms(2) canon show ?thesis by (simp add: resolve_request_uri_def)
  next
    case True
    then have cu: "resolve_current_user_uri uri ctx = Inr s"
      using assms(2) by (simp add: resolve_request_uri_def)
    then obtain ps where ps: "uri_parts uri = Inr ps"
      by (auto simp: resolve_current_user_uri_def bind_res_Inr_iff)
    have clean: "\<forall>p \<in> set ps. clean_segment p" using uri_parts_clean [OF ps] by blast
    have ses: "clean_segment ''sessions''" by (simp add: clean_segment_def)
    consider "ps = []" | qs where "ps = ''~'' # qs" | qs where "ps = ''session'' # qs"
      | "ps \<noteq> []" "ps ! 0 \<noteq> ''~''" "ps ! 0 \<noteq> ''session''"
      by (cases ps) auto
    then show ?thesis
    proof cases
      case 1
      with cu ps have "s = ''viking://''" by (simp add: resolve_current_user_uri_def)
      then show ?thesis using uri_parts_path [of "[]"] by simp
    next
      case 2
      with cu ps alias_home_uri [of uri qs ctx] clean show ?thesis
        by (intro user [of qs]) auto
    next
      case 3
      with cu ps alias_session_uri [of uri qs ctx] clean ses show ?thesis
        by (intro user [of "''sessions'' # qs"]) (auto simp: clean_segment_def)
    next
      case 4
      with cu ps show ?thesis
        by (intro canon) (auto simp: resolve_current_user_uri_def split: if_splits)
    qed
  qed
qed

section \<open>Classification\<close>

text \<open>Which URIs are memories. A URI is classified as memory exactly when its segments have one
  of three shapes: a user's \<open>memories\<close> directory, an agent's (unless the agent segment is the
  shared \<open>skills\<close> root), or the \<open>memories\<close> directory of one of a user's peers.\<close>

lemma memory_classification:
  "uc_context_type (classify_parts parts) = ''memory'' \<longleftrightarrow>
     (\<exists>u rest. parts = ''user'' # u # ''memories'' # rest)
   \<or> (\<exists>a rest. a \<noteq> ''skills'' \<and> parts = ''agent'' # a # ''memories'' # rest)
   \<or> (\<exists>u p rest. parts = ''user'' # u # ''peers'' # p # ''memories'' # rest)"
proof -
  note defs = classify_parts_def content_segment_index_def content_types_of_def
    CONTENT_TYPES_BY_SCOPE_def content_types_def PEER_CONTENT_SEGMENTS_def
  consider "parts = []" | a where "parts = [a]" | a b where "parts = [a, b]"
    | a b c where "parts = [a, b, c]" | a b c d where "parts = [a, b, c, d]"
    | a b c d e rest where "parts = a # b # c # d # e # rest"
    by (metis list.exhaust)
  then show ?thesis
    by cases (auto simp: defs split: if_splits)
qed

text \<open>building and splitting round-trip. For a real scope and slash-free, query-free path parts,
  the URI that \<open>VikingURI.build\<close> makes parses back to that scope, and its segments are the
  scope followed by the non-empty parts in order.\<close>

lemma build_uri_parts:
  assumes "build_uri scope parts = Inr s"
    and "\<forall>p \<in> set parts. CHR ''/'' \<notin> set p \<and> CHR ''?'' \<notin> set p"
  shows "uri_parts s = Inr (scope # filter (\<lambda>p. p \<noteq> []) parts)
     \<and> (\<exists>v. mk_viking_uri s = Inr v \<and> vu_scope v = scope)"
proof -
  have sc: "scope \<in> set VISITABLE_SCOPES" and
    s: "s = ''viking://'' @ join_with ''/'' (filter (\<lambda>p. p \<noteq> []) (scope # parts))"
    using assms(1) by (auto simp: build_uri_def SCHEME_PREFIX_eq Let_def split: if_splits)
  note cl = visitable_scope_clean [OF sc]
  have f: "filter (\<lambda>p. p \<noteq> []) (scope # parts) = scope # filter (\<lambda>p. p \<noteq> []) parts"
    using cl by simp
  define ps where "ps = filter (\<lambda>p. p \<noteq> []) parts"
  have clean: "\<forall>p \<in> set (scope # ps). clean_segment p"
    using cl assms(2) by (auto simp: clean_segment_def ps_def)
  have "uri_parts s = Inr (scope # ps)"
    unfolding s f ps_def [symmetric] by (rule uri_parts_join) (use clean in auto)
  moreover have "\<exists>v. mk_viking_uri s = Inr v \<and> vu_scope v = scope"
  proof -
    have "s = SCHEME_PREFIX @ scope @ (if ps = [] then [] else ''/'' @ join_with ''/'' ps)"
      unfolding s f ps_def [symmetric] by (cases ps) (auto simp: SCHEME_PREFIX_eq)
    then show ?thesis
      using mk_viking_uri_scoped [OF sc, of "if ps = [] then [] else ''/'' @ join_with ''/'' ps"]
      by auto
  qed
  ultimately show ?thesis unfolding ps_def by blast
qed

end
