(* ===== verification/Uri_Validation.thy ===== *)
theory Uri_Validation
  imports Namespace
begin

text \<open>
  The boundary checks on URI fields of API requests, \<open>openviking/core/uri_validation.py\<close>:
  scope whitelisting, alias resolution with the caller's identity, and the check that an
  add-resource or add-skill target is content the caller may write.
\<close>

section \<open>Definitions\<close>

definition PUBLIC_API_SCOPES :: "string list" where
  "PUBLIC_API_SCOPES = [''''] @ PUBLIC_SCOPES @ LEGACY_SCOPES @ ALIAS_SCOPES"

definition ALL_API_SCOPES :: "string list" where
  "ALL_API_SCOPES = [''''] @ VISITABLE_SCOPES"

text \<open>The parameter \<open>allowed_scopes\<close>: absent, one string, or a collection of strings.\<close>

datatype scopes_arg = NoScopes | OneScope string | ScopeCollection "string list"

definition allowed_api_scopes :: "bool \<Rightarrow> scopes_arg \<Rightarrow> string list" where
  "allowed_api_scopes allow_internal allowed_scopes =
     (case allowed_scopes of
        OneScope s \<Rightarrow> [s]
      | ScopeCollection ss \<Rightarrow> ss
      | NoScopes \<Rightarrow> if allow_internal then ALL_API_SCOPES else PUBLIC_API_SCOPES)"

definition validate_viking_uri :: "string \<Rightarrow> bool \<Rightarrow> scopes_arg \<Rightarrow> string res" where
  "validate_viking_uri uri allow_internal allowed_scopes =
     (let raw_uri = py_strip uri
      in if raw_uri = [] then Inl InvalidURIError
         else
           case mk_viking_uri raw_uri of
             Inl e \<Rightarrow> if is_value_error e then Inl InvalidURIError else Inl e
           | Inr parsed \<Rightarrow>
               if vu_scope parsed \<notin> set (allowed_api_scopes allow_internal allowed_scopes)
               then Inl InvalidURIError
               else Inr raw_uri)"

definition validate_request_viking_uri ::
    "string \<Rightarrow> request_context \<Rightarrow> bool \<Rightarrow> scopes_arg \<Rightarrow> string res" where
  "validate_request_viking_uri uri ctx allow_internal allowed_scopes =
     bind_res (validate_viking_uri uri allow_internal allowed_scopes) (\<lambda>raw_uri.
       case resolve_request_uri raw_uri ctx of
         Inl e \<Rightarrow> if is_value_error e then Inl InvalidURIError else Inl e
       | Inr s \<Rightarrow> Inr s)"

definition matches_content_kind :: "string \<Rightarrow> string \<Rightarrow> bool res" where
  "matches_content_kind uri kind =
     (if kind \<notin> {''resource'', ''skill''} then Inl ValueError
      else
        bind_res (uri_parts uri) (\<lambda>parts.
          if kind = ''resource'' \<and> take 1 parts = [''resources''] then Inr True
          else bind_res (classify_uri uri) (\<lambda>cl.
            Inr (uc_context_type cl = kind \<and> uc_content_index cl \<noteq> None))))"

definition validate_content_target_uri ::
    "string \<Rightarrow> request_context \<Rightarrow> string \<Rightarrow> string res" where
  "validate_content_target_uri uri ctx kind =
     (let raw_uri = py_strip uri
      in if raw_uri = [] then Inl InvalidURIError
         else
           bind_res (validate_request_viking_uri raw_uri ctx False NoScopes) (\<lambda>canonical_uri.
           bind_res (matches_content_kind canonical_uri kind) (\<lambda>matches.
             if matches
             then bind_res (is_accessible canonical_uri ctx) (\<lambda>accessible.
                    if accessible then Inr canonical_uri else Inl PermissionDeniedError)
             else Inl InvalidURIError)))"

section \<open>Lemmas\<close>

lemma validate_content_target_cases:
  assumes "validate_content_target_uri uri ctx kind = Inr c"
  shows "matches_content_kind c kind = Inr True" and "is_accessible c ctx = Inr True"
    and "resolve_request_uri (py_strip (py_strip uri)) ctx = Inr c"
  using assms
  by (auto simp: validate_content_target_uri_def validate_request_viking_uri_def
      validate_viking_uri_def bind_res_Inr_iff Let_def split: if_splits sum.splits)

lemma matches_content_kind_shape:
  assumes "matches_content_kind c kind = Inr True"
  obtains ps where "uri_parts c = Inr ps" and "kind \<in> {''resource'', ''skill''}"
    and "(kind = ''resource'' \<and> take 1 ps = [''resources''])
       \<or> (uc_context_type (classify_parts ps) = kind \<and> content_segment_index ps \<noteq> None)"
proof -
  have k: "kind \<in> {''resource'', ''skill''}"
    using assms by (auto simp: matches_content_kind_def split: if_splits)
  obtain ps where ps: "uri_parts c = Inr ps"
    using assms by (auto simp: matches_content_kind_def bind_res_Inr_iff split: if_splits)
  have "classify_uri c = Inr (classify_parts ps)" by (simp add: classify_uri_def ps)
  moreover have "uc_content_index (classify_parts ps) = content_segment_index ps"
    by (simp add: classify_parts_def Let_def)
  ultimately show thesis
    using assms ps k that by (auto simp: matches_content_kind_def split: if_splits)
qed

section \<open>Properties\<close>

text \<open>The default whitelist. A URI that \<open>validate_viking_uri\<close> accepts with its default
  arguments parses, carries no surrounding whitespace, and is never in one of the internal
  scopes \<open>temp\<close>, \<open>queue\<close> and \<open>upload\<close>.\<close>

lemma validate_viking_uri_public:
  assumes "validate_viking_uri uri False NoScopes = Inr s"
  shows "\<exists>v. mk_viking_uri s = Inr v \<and> vu_scope v \<notin> set INTERNAL_SCOPES
     \<and> s = py_strip uri \<and> \<not> is_space (hd s) \<and> \<not> is_space (last s)"
proof -
  have s: "s = py_strip uri" "s \<noteq> []"
    using assms by (auto simp: validate_viking_uri_def Let_def split: if_splits sum.splits)
  obtain v where v: "mk_viking_uri s = Inr v" "vu_scope v \<in> set PUBLIC_API_SCOPES"
    using assms s(1)
    by (auto simp: validate_viking_uri_def allowed_api_scopes_def Let_def split: if_splits sum.splits)
  have "vu_scope v \<notin> set INTERNAL_SCOPES"
    using v(2) by (auto simp: PUBLIC_API_SCOPES_def scope_defs)
  moreover have "\<not> is_space (hd s)" "\<not> is_space (last s)"
    using s strip_by_hd [of is_space uri] rstrip_by_last [of is_space]
    unfolding py_strip_def by (simp, metis strip_by_def)
  ultimately show ?thesis using v(1) s(1) by blast
qed

text \<open>C13: content targets stay with their owner. When a caller without the root role passes
  \<open>validate_content_target_uri\<close>, the canonical URI it gets is accessible to the caller, is
  content of the requested kind (the shared resources tree, or a content segment of that
  kind), and if it lies in the user scope its owner is the caller.\<close>

theorem content_target_owned:
  assumes "validate_content_target_uri uri ctx kind = Inr c" and "rc_role ctx \<noteq> ROOT"
  shows "is_accessible c ctx = Inr True
     \<and> (\<exists>ps. uri_parts c = Inr ps
          \<and> ((kind = ''resource'' \<and> take 1 ps = [''resources''])
             \<or> (uc_context_type (classify_parts ps) = kind \<and> content_segment_index ps \<noteq> None))
          \<and> (ps ! 0 = ''user'' \<longrightarrow> ps ! 1 = ui_user_id (rc_user ctx)))"
proof -
  note cs = validate_content_target_cases [OF assms(1)]
  obtain ps where ps: "uri_parts c = Inr ps" and
    shape: "(kind = ''resource'' \<and> take 1 ps = [''resources''])
       \<or> (uc_context_type (classify_parts ps) = kind \<and> content_segment_index ps \<noteq> None)"
    using matches_content_kind_shape [OF cs(1)] by metis
  have "ps ! 1 = ui_user_id (rc_user ctx)" if u: "ps ! 0 = ''user''"
  proof -
    have "\<exists>owner rest. ps = ''user'' # owner # rest"
      using shape
    proof
      assume "kind = ''resource'' \<and> take 1 ps = [''resources'']"
      with u show ?thesis by (cases ps) auto
    next
      assume "uc_context_type (classify_parts ps) = kind \<and> content_segment_index ps \<noteq> None"
      with u show ?thesis
        by (cases ps; cases "tl ps") (auto simp: content_segment_index_def split: if_splits)
    qed
    then obtain owner rest where o: "ps = ''user'' # owner # rest" by blast
    have "owner = ui_user_id (rc_user ctx)"
      using accessible_user_owner [OF assms(2) _ cs(2)] ps o by blast
    with o show ?thesis by simp
  qed
  with cs(2) ps shape show ?thesis by blast
qed

theorem content_target_owned_witness:
  "validate_content_target_uri ''viking://~/skills/pdf'' demo_ctx ''skill'' =
      Inr ''viking://user/alice/skills/pdf''
   \<and> is_accessible ''viking://user/alice/skills/pdf'' demo_ctx = Inr True"
proof -
  have h: "validate_content_target_uri ''viking://~/skills/pdf'' demo_ctx ''skill'' =
      Inr ''viking://user/alice/skills/pdf''" "rc_role demo_ctx \<noteq> ROOT"
    by code_simp+
  show ?thesis using content_target_owned [OF h] h(1) by blast
qed

end
