(* ===== verification/Mutation_Coordinator.thy ===== *)
theory Mutation_Coordinator
  imports Viking_Uri "HOL-Library.List_Lexorder" "HOL-Library.Char_ord" "HOL-Library.Multiset"
begin

text \<open>
  The process-local coordinator of URI scopes, \<open>openviking/resource/uri_mutation_coordinator.py\<close>.
  The state is the two lists of active leases and the coroutines inside \<open>_acquire\<close>: \<open>waiting\<close> ones are
  about to evaluate the \<open>while\<close> test, \<open>parked\<close> ones sleep in \<open>condition.wait()\<close> until \<open>notify_all\<close> wakes them. A
  lease object carries an identity, since \<open>_release\<close> removes it with \<open>is\<close>. The lock of the condition
  makes the test with the append or with the parking one atomic step, and the removal with the wake-up another, so the
  interleavings of all coroutines are the runs of \<open>coord_step\<close>. Cancellation of a sleeping coroutine is not modelled.
\<close>

section \<open>URI prefixes and leases\<close>

definition normalize_uri :: "string \<Rightarrow> string" where
  "normalize_uri uri = rstrip_by is_slash uri"

definition normalize_uris :: "string option list \<Rightarrow> string list" where
  "normalize_uris uris =
     sort (remdups (map (\<lambda>u. normalize_uri (the u))
       (filter (\<lambda>u. u \<noteq> None \<and> u \<noteq> Some '''') uris)))"

definition uri_matches_prefix :: "string option \<Rightarrow> string \<Rightarrow> bool" where
  "uri_matches_prefix uri prefix =
     (case uri of
        None \<Rightarrow> False
      | Some u \<Rightarrow>
          if u = [] then False
          else
            let normalized_uri = normalize_uri u; normalized_prefix = normalize_uri prefix
            in normalized_uri = normalized_prefix
               \<or> startswith normalized_uri (normalized_prefix @ ''/''))"

definition uris_overlap :: "string list \<Rightarrow> string list \<Rightarrow> bool" where
  "uris_overlap left right =
     list_ex (\<lambda>left_uri. list_ex (\<lambda>right_uri.
       uri_matches_prefix (Some left_uri) right_uri
       \<or> uri_matches_prefix (Some right_uri) left_uri) right) left"

record uri_lease =
  ul_object :: nat
  ul_account_id :: string
  ul_uris :: "string list"

definition lease_overlaps :: "uri_lease \<Rightarrow> uri_lease \<Rightarrow> bool" where
  "lease_overlaps l other \<longleftrightarrow>
     ul_account_id l = ul_account_id other \<and> uris_overlap (ul_uris l) (ul_uris other)"

section \<open>The coordinator\<close>

record coordinator =
  active_accesses :: "uri_lease list"
  active_mutations :: "uri_lease list"
  waiting :: "(uri_lease \<times> bool) list"
  parked :: "(uri_lease \<times> bool) list"

definition init_coordinator :: coordinator where
  "init_coordinator = \<lparr>active_accesses = [], active_mutations = [], waiting = [], parked = []\<rparr>"

definition has_blocker :: "coordinator \<Rightarrow> uri_lease \<Rightarrow> bool \<Rightarrow> bool" where
  "has_blocker c l mutation \<longleftrightarrow>
     (if list_ex (lease_overlaps l) (active_mutations c) then True
      else mutation \<and> list_ex (lease_overlaps l) (active_accesses c))"

definition add_active :: "coordinator \<Rightarrow> uri_lease \<Rightarrow> bool \<Rightarrow> coordinator" where
  "add_active c l mutation =
     (if mutation then c\<lparr>active_mutations := active_mutations c @ [l]\<rparr>
      else c\<lparr>active_accesses := active_accesses c @ [l]\<rparr>)"

text \<open>
  One evaluation of the \<open>while\<close> test of \<open>_acquire\<close>: \<open>None\<close> when the coroutine has to sleep.
\<close>

definition try_acquire :: "coordinator \<Rightarrow> uri_lease \<Rightarrow> bool \<Rightarrow> coordinator option" where
  "try_acquire c l mutation = (if has_blocker c l mutation then None else Some (add_active c l mutation))"

text \<open>The loop of \<open>_release\<close>: delete the first entry that is the lease object.\<close>

fun remove_lease :: "uri_lease \<Rightarrow> uri_lease list \<Rightarrow> uri_lease list" where
  "remove_lease l [] = []"
| "remove_lease l (current # active) =
     (if ul_object current = ul_object l then active else current # remove_lease l active)"

definition notify_all :: "coordinator \<Rightarrow> coordinator" where
  "notify_all c = c\<lparr>waiting := waiting c @ parked c, parked := []\<rparr>"

definition release :: "coordinator \<Rightarrow> uri_lease \<Rightarrow> bool \<Rightarrow> coordinator" where
  "release c l mutation =
     (let c' = (if mutation then c\<lparr>active_mutations := remove_lease l (active_mutations c)\<rparr>
                else c\<lparr>active_accesses := remove_lease l (active_accesses c)\<rparr>)
      in notify_all c')"

text \<open>
  The objects a coordinator knows. \<open>access\<close> and \<open>mutation\<close> create a new lease object with
  normalized URIs, wait until \<open>_acquire\<close> admits it, run their body and release it.
\<close>

definition known_leases :: "coordinator \<Rightarrow> uri_lease list" where
  "known_leases c = active_accesses c @ active_mutations c @ map fst (waiting c @ parked c)"

text \<open>
  The steps of coroutines that already have their lease object: the test succeeds, the test fails and
  the coroutine sleeps, the body ends and the lease is released.
\<close>

inductive coord_serve :: "coordinator \<Rightarrow> coordinator \<Rightarrow> bool" where
  grant: "(l, mutation) \<in> set (waiting c) \<Longrightarrow> try_acquire c l mutation = Some c' \<Longrightarrow>
     coord_serve c (c'\<lparr>waiting := remove1 (l, mutation) (waiting c)\<rparr>)"
| park: "(l, mutation) \<in> set (waiting c) \<Longrightarrow> try_acquire c l mutation = None \<Longrightarrow>
     coord_serve c (c\<lparr>waiting := remove1 (l, mutation) (waiting c), parked := parked c @ [(l, mutation)]\<rparr>)"
| finish: "l \<in> set (if mutation then active_mutations c else active_accesses c) \<Longrightarrow>
     coord_serve c (release c l mutation)"

inductive coord_step :: "coordinator \<Rightarrow> coordinator \<Rightarrow> bool" where
  request: "ul_object l \<notin> ul_object ` set (known_leases c) \<Longrightarrow>
     l = \<lparr>ul_object = obj, ul_account_id = account_id, ul_uris = normalize_uris uris\<rparr> \<Longrightarrow>
     coord_step c (c\<lparr>waiting := waiting c @ [(l, mutation)]\<rparr>)"
| serve: "coord_serve c c' \<Longrightarrow> coord_step c c'"

inductive coord_reachable :: "coordinator \<Rightarrow> bool" where
  start: "coord_reachable init_coordinator"
| step: "coord_reachable c \<Longrightarrow> coord_step c c' \<Longrightarrow> coord_reachable c'"

section \<open>Readers and writers over a conflict relation\<close>

text \<open>
  The exclusion argument only needs that conflict is symmetric: the code tests the new lease
  against the active ones, and exclusion speaks about both orders.
\<close>

definition exclusive :: "('l \<Rightarrow> 'l \<Rightarrow> bool) \<Rightarrow> 'l list \<Rightarrow> 'l list \<Rightarrow> bool" where
  "exclusive conflicts readers writers \<longleftrightarrow>
     sorted_wrt (\<lambda>x y. \<not> conflicts x y) writers
     \<and> (\<forall>r \<in> set readers. \<forall>w \<in> set writers. \<not> conflicts r w)"

locale conflict_relation =
  fixes conflicts :: "'l \<Rightarrow> 'l \<Rightarrow> bool"
  assumes conflicts_sym: "conflicts a b \<Longrightarrow> conflicts b a"
begin

lemma exclusive_add_reader:
  "exclusive conflicts rs ws \<Longrightarrow> \<not> list_ex (conflicts l) ws \<Longrightarrow> exclusive conflicts (rs @ [l]) ws"
  by (auto simp: exclusive_def list_ex_iff)

lemma exclusive_add_writer:
  "exclusive conflicts rs ws \<Longrightarrow> \<not> list_ex (conflicts l) ws \<Longrightarrow> \<not> list_ex (conflicts l) rs \<Longrightarrow>
     exclusive conflicts rs (ws @ [l])"
  by (auto simp: exclusive_def list_ex_iff sorted_wrt_append dest: conflicts_sym)

lemma exclusive_sublists:
  assumes "exclusive conflicts rs ws" and "set rs' \<subseteq> set rs" and "ws' = ws \<or> (\<exists>xs x ys. ws = xs @ x # ys \<and> ws' = xs @ ys)"
  shows "exclusive conflicts rs' ws'"
  using assms by (auto simp: exclusive_def sorted_wrt_append)

lemma exclusive_writers:
  assumes "exclusive conflicts rs ws" and "i < length ws" and "j < length ws" and "i \<noteq> j"
  shows "\<not> conflicts (ws ! i) (ws ! j)"
  using assms conflicts_sym
  by (cases "i < j") (auto simp: exclusive_def sorted_wrt_iff_nth_less, metis linorder_neqE_nat)

end

section \<open>The coordinator keeps leases exclusive\<close>

lemma uris_overlap_sym: "uris_overlap a b \<Longrightarrow> uris_overlap b a"
  by (auto simp: uris_overlap_def list_ex_iff)

interpretation lease: conflict_relation lease_overlaps
  by unfold_locales (auto simp: lease_overlaps_def dest: uris_overlap_sym)

definition coord_inv :: "coordinator \<Rightarrow> bool" where
  "coord_inv c \<longleftrightarrow> exclusive lease_overlaps (active_accesses c) (active_mutations c)
     \<and> distinct (map ul_object (known_leases c))
     \<and> (\<forall>(l, mutation) \<in> set (parked c). has_blocker c l mutation)"

lemma remove_lease_decomp:
  "remove_lease l ls = ls \<or> (\<exists>xs x ys. ls = xs @ x # ys \<and> remove_lease l ls = xs @ ys)"
proof (induction ls)
  case (Cons a ls)
  then show ?case
    by (auto simp: Cons_eq_append_conv)
qed simp

lemma set_remove_lease: "set (remove_lease l ls) \<subseteq> set ls"
  by (induction ls) auto

lemma distinct_remove_lease:
  "distinct (map ul_object ls) \<Longrightarrow> l \<in> set ls \<Longrightarrow> remove_lease l ls = filter (\<lambda>x. x \<noteq> l) ls"
proof (induction ls)
  case (Cons a ls)
  show ?case
  proof (cases "a = l")
    case True
    with Cons.prems have "l \<notin> set ls" by auto
    then have "filter (\<lambda>x. x \<noteq> l) ls = ls" by (auto simp: filter_id_conv)
    with True show ?thesis by simp
  next
    case False
    with Cons show ?thesis by auto
  qed
qed simp

lemma coord_inv_init: "coord_inv init_coordinator"
  by (simp add: coord_inv_def exclusive_def init_coordinator_def known_leases_def)

lemma try_acquire_exclusive [inv_intros]:
  assumes "exclusive lease_overlaps (active_accesses c) (active_mutations c)"
    and "try_acquire c l mutation = Some c'"
  shows "exclusive lease_overlaps (active_accesses c') (active_mutations c')"
  using assms lease.exclusive_add_reader lease.exclusive_add_writer
  by (auto simp: try_acquire_def has_blocker_def add_active_def split: if_splits)

lemma release_exclusive [inv_intros]:
  assumes "exclusive lease_overlaps (active_accesses c) (active_mutations c)"
  shows "exclusive lease_overlaps (active_accesses (release c l mutation))
      (active_mutations (release c l mutation))"
  using lease.exclusive_sublists [OF assms, of "remove_lease l (active_accesses c)"]
    lease.exclusive_sublists [OF assms, of "active_accesses c" "remove_lease l (active_mutations c)"]
    remove_lease_decomp set_remove_lease
  by (auto simp: release_def notify_all_def Let_def)

lemma distinct_remove_lease_objects:
  "distinct (map ul_object ls) \<Longrightarrow> distinct (map ul_object (remove_lease l ls))"
  by (induction ls) (auto dest: set_remove_lease [THEN subsetD])

lemma distinct_append_sub:
  "distinct (xs @ ys @ zs) \<Longrightarrow> distinct ys' \<Longrightarrow> set ys' \<subseteq> set ys \<Longrightarrow> distinct (xs @ ys' @ zs)"
  by auto

lemma objects_remove_lease: "set (map ul_object (remove_lease l ls)) \<subseteq> set (map ul_object ls)"
  using image_mono [OF set_remove_lease] by simp

lemma known_leases_release:
  assumes "distinct (map ul_object (known_leases c))"
  shows "distinct (map ul_object (known_leases (release c l mutation)))"
proof (cases mutation)
  case True
  then have eq: "known_leases (release c l mutation) =
      active_accesses c @ remove_lease l (active_mutations c) @ map fst (waiting c @ parked c)"
    by (simp add: release_def notify_all_def known_leases_def)
  have "distinct (map ul_object (active_mutations c))"
    using assms by (simp add: known_leases_def)
  then show ?thesis
    unfolding eq map_append
    by (intro distinct_append_sub [OF assms [unfolded known_leases_def map_append]]
        distinct_remove_lease_objects objects_remove_lease)
next
  case False
  then have eq: "known_leases (release c l mutation) =
      [] @ remove_lease l (active_accesses c) @ active_mutations c @ map fst (waiting c @ parked c)"
    by (simp add: release_def notify_all_def known_leases_def)
  have d: "distinct (map ul_object ([] @ active_accesses c @ active_mutations c @ map fst (waiting c @ parked c)))"
    "distinct (map ul_object (active_accesses c))"
    using assms by (simp_all add: known_leases_def)
  show ?thesis
    unfolding eq map_append
    by (intro distinct_append_sub [OF d(1) [unfolded map_append]]
        distinct_remove_lease_objects [OF d(2)] objects_remove_lease)
qed

lemma known_leases_grant:
  assumes "distinct (map ul_object (known_leases c))" and "(l, mutation) \<in> set (waiting c)"
    and "try_acquire c l mutation = Some c'"
  shows "distinct (map ul_object (known_leases (c'\<lparr>waiting := remove1 (l, mutation) (waiting c)\<rparr>)))"
proof -
  have c': "c' = add_active c l mutation"
    using assms(3) by (auto simp: try_acquire_def split: if_splits)
  have "mset (waiting c) = add_mset (l, mutation) (mset (remove1 (l, mutation) (waiting c)))"
    using assms(2) by (simp add: insert_DiffM)
  then have "mset (map fst (waiting c)) = add_mset l (mset (map fst (remove1 (l, mutation) (waiting c))))"
    by (metis fst_conv mset_map image_mset_add_mset)
  then have "mset (known_leases (c'\<lparr>waiting := remove1 (l, mutation) (waiting c)\<rparr>)) =
      mset (known_leases c)"
    by (simp add: c' known_leases_def add_active_def)
  then have "mset (map ul_object (known_leases (c'\<lparr>waiting := remove1 (l, mutation) (waiting c)\<rparr>))) =
      mset (map ul_object (known_leases c))"
    by (metis mset_map)
  with assms(1) show ?thesis by (metis mset_eq_imp_distinct_iff)
qed

lemma known_leases_park:
  assumes "(l, mutation) \<in> set (waiting c)"
  shows "mset (known_leases (c\<lparr>waiting := remove1 (l, mutation) (waiting c), parked := parked c @ [(l, mutation)]\<rparr>))
    = mset (known_leases c)"
proof -
  have "mset (waiting c) = add_mset (l, mutation) (mset (remove1 (l, mutation) (waiting c)))"
    using assms by (simp add: insert_DiffM)
  then have "mset (map fst (waiting c)) = add_mset l (mset (map fst (remove1 (l, mutation) (waiting c))))"
    by (metis fst_conv mset_map image_mset_add_mset)
  then show ?thesis by (simp add: known_leases_def)
qed

text \<open>A blocker stays one while leases are only added.\<close>

lemma has_blocker_add_active: "has_blocker c l m \<Longrightarrow> has_blocker (add_active c l' m') l m"
  by (auto simp: has_blocker_def add_active_def split: if_splits)

lemma has_blocker_active [simp]:
  "has_blocker (c\<lparr>waiting := w\<rparr>) l m = has_blocker c l m"
  "has_blocker (c\<lparr>waiting := w, parked := p\<rparr>) l m = has_blocker c l m"
  by (simp_all add: has_blocker_def)

lemma try_acquire_eqs [simp]:
  "try_acquire c l m = None \<longleftrightarrow> has_blocker c l m"
  "try_acquire c l m = Some c' \<longleftrightarrow> \<not> has_blocker c l m \<and> c' = add_active c l m"
  by (auto simp: try_acquire_def)

lemma add_active_fields [simp]: "waiting (add_active c l m) = waiting c" "parked (add_active c l m) = parked c"
  by (simp_all add: add_active_def)

lemma release_fields [simp]: "waiting (release c l m) = waiting c @ parked c" "parked (release c l m) = []"
  by (simp_all add: release_def notify_all_def Let_def)

lemma coord_serve_inv [inv_intros]: "coord_serve c c' \<Longrightarrow> coord_inv c \<Longrightarrow> coord_inv c'"
proof (induction rule: coord_serve.induct)
  case (grant l mutation c c')
  then have "distinct (map ul_object (known_leases (c'\<lparr>waiting := remove1 (l, mutation) (waiting c)\<rparr>)))"
    by (intro known_leases_grant) (auto simp: coord_inv_def)
  then show ?case
    using grant try_acquire_exclusive [of c l mutation c'] has_blocker_add_active
    by (auto simp: coord_inv_def)
next
  case (park l mutation c)
  from park(1) have "distinct (map ul_object
      (known_leases (c\<lparr>waiting := remove1 (l, mutation) (waiting c), parked := parked c @ [(l, mutation)]\<rparr>)))
      = distinct (map ul_object (known_leases c))"
    by (intro mset_eq_imp_distinct_iff) (simp add: known_leases_park)
  then show ?case using park by (auto simp: coord_inv_def)
next
  case (finish l mutation c)
  then show ?case
    using release_exclusive known_leases_release by (auto simp: coord_inv_def)
qed

lemma coord_step_inv [inv_intros]: "coord_step c c' \<Longrightarrow> coord_inv c \<Longrightarrow> coord_inv c'"
proof (induction rule: coord_step.induct)
  case (request l c obj account_id uris mutation)
  then show ?case by (auto simp: coord_inv_def known_leases_def)
next
  case (serve c c')
  then show ?case by (rule coord_serve_inv)
qed

lemma coord_reachable_inv: "coord_reachable c \<Longrightarrow> coord_inv c"
  by (induction rule: coord_reachable.induct) (auto intro: coord_inv_init coord_step_inv)

section \<open>Path boundaries\<close>

lemma split_on_append_mid: "split_on c (a @ c # b) = split_on c a @ split_on c b"
proof (induction a)
  case (Cons x a)
  obtain v vs where "split_on c a = v # vs" by (cases "split_on c a") auto
  with Cons show ?case by auto
qed simp

lemma join_with_append:
  "ps \<noteq> [] \<Longrightarrow> qs \<noteq> [] \<Longrightarrow> join_with sep (ps @ qs) = join_with sep ps @ sep @ join_with sep qs"
  by (induction sep ps rule: join_with.induct) (auto simp: join_with_Cons_ne)

lemma join_prefix_iff:
  assumes "ps \<noteq> []" and "us \<noteq> []" and "\<forall>p \<in> set (ps @ us). p \<noteq> [] \<and> CHR ''/'' \<notin> set p"
  shows "(join_with ''/'' us = join_with ''/'' ps \<or> (\<exists>t. join_with ''/'' us = join_with ''/'' ps @ CHR ''/'' # t))
    \<longleftrightarrow> take (length ps) us = ps"
proof
  assume "join_with ''/'' us = join_with ''/'' ps \<or> (\<exists>t. join_with ''/'' us = join_with ''/'' ps @ CHR ''/'' # t)"
  then obtain ws where "split_on (CHR ''/'') (join_with ''/'' us) = split_on (CHR ''/'') (join_with ''/'' ps) @ ws"
    by (metis append_Nil2 split_on_append_mid)
  then have "us = ps @ ws"
    using assms by (simp add: split_on_join_with)
  then show "take (length ps) us = ps" by simp
next
  assume "take (length ps) us = ps"
  then obtain ws where "us = ps @ ws" by (metis append_take_drop_id)
  then show "join_with ''/'' us = join_with ''/'' ps \<or> (\<exists>t. join_with ''/'' us = join_with ''/'' ps @ CHR ''/'' # t)"
    using assms(1) by (cases "ws = []") (auto simp: join_with_append)
qed

lemma normalize_joined:
  assumes "ps \<noteq> []" and "\<forall>p \<in> set ps. p \<noteq> [] \<and> CHR ''/'' \<notin> set p"
  shows "normalize_uri (''viking://'' @ join_with ''/'' ps) = ''viking://'' @ join_with ''/'' ps"
proof -
  have ne: "join_with ''/'' ps \<noteq> []" using assms by (simp add: join_with_eq_Nil)
  have "last (''viking://'' @ join_with ''/'' ps) = last (last ps)"
    using ne join_with_last [OF assms(1), of "''/''"] assms(2) by simp
  moreover have "last (last ps) \<noteq> CHR ''/''"
    using assms by (metis last_in_set)
  ultimately show ?thesis
    unfolding normalize_uri_def by (intro rstrip_by_append_keep) auto
qed

section \<open>Properties\<close>

text \<open>The string test respects path boundaries. On URIs written from slash-free segments,
  \<open>uri_matches_prefix\<close> holds exactly when the segments of the prefix are an initial part of
  the segments of the URI; \<open>a/bc\<close> is not below \<open>a/b\<close>.\<close>

lemma uri_matches_prefix_segments:
  assumes "ps \<noteq> []" and "us \<noteq> []" and "\<forall>p \<in> set (ps @ us). p \<noteq> [] \<and> CHR ''/'' \<notin> set p"
  shows "uri_matches_prefix (Some (''viking://'' @ join_with ''/'' us)) (''viking://'' @ join_with ''/'' ps)
     \<longleftrightarrow> take (length ps) us = ps"
proof -
  have "normalize_uri (''viking://'' @ join_with ''/'' us) = ''viking://'' @ join_with ''/'' us"
    "normalize_uri (''viking://'' @ join_with ''/'' ps) = ''viking://'' @ join_with ''/'' ps"
    using assms normalize_joined by auto
  then show ?thesis
    using join_prefix_iff [OF assms] by (auto simp: uri_matches_prefix_def startswith_iff)
qed

text \<open>C9: exclusion of mutations. In every state that any interleaving of accesses and mutations can
  reach, a URI scope held by an active mutation is neither equal to, above nor below a scope
  held by another active lease of the same account, be it a mutation or an access.\<close>

theorem mutation_exclusion:
  assumes "coord_reachable c" and "i < length (active_mutations c)"
    and "l \<in> set (active_accesses c)
       \<or> (\<exists>j < length (active_mutations c). j \<noteq> i \<and> l = active_mutations c ! j)"
    and "ul_account_id l = ul_account_id (active_mutations c ! i)"
    and "u \<in> set (ul_uris (active_mutations c ! i))" and "w \<in> set (ul_uris l)"
  shows "\<not> uri_matches_prefix (Some u) w \<and> \<not> uri_matches_prefix (Some w) u"
proof -
  have ex: "exclusive lease_overlaps (active_accesses c) (active_mutations c)"
    using coord_reachable_inv [OF assms(1)] by (simp add: coord_inv_def)
  have "\<not> lease_overlaps l (active_mutations c ! i)"
    using assms(2,3) ex lease.exclusive_writers [OF ex] by (auto simp: exclusive_def)
  with assms(4-6) show ?thesis
    by (auto simp: lease_overlaps_def uris_overlap_def list_ex_iff)
qed

text \<open>Admission with nobody waiting: a request followed at once by its grant.\<close>

lemma reachable_enter:
  assumes "coord_reachable c" and "waiting c = []" and "obj \<notin> ul_object ` set (known_leases c)"
    and "l = \<lparr>ul_object = obj, ul_account_id = account_id, ul_uris = normalize_uris uris\<rparr>"
    and "\<not> has_blocker c l mutation"
  shows "coord_reachable (add_active c l mutation)"
proof -
  let ?c = "c\<lparr>waiting := waiting c @ [(l, mutation)]\<rparr>"
  have r: "coord_reachable ?c"
    by (rule coord_reachable.step [OF assms(1)], rule coord_step.request [OF _ assms(4)])
      (use assms(3,4) in simp)
  have "try_acquire ?c l mutation = Some (add_active ?c l mutation)"
    using assms(5) by simp
  then have "coord_step ?c ((add_active ?c l mutation)\<lparr>waiting := remove1 (l, mutation) (waiting ?c)\<rparr>)"
    by (intro coord_step.serve coord_serve.grant) auto
  moreover have "(add_active ?c l mutation)\<lparr>waiting := remove1 (l, mutation) (waiting ?c)\<rparr> = add_active c l mutation"
    using assms(2) by (simp add: add_active_def)
  ultimately show ?thesis using r coord_reachable.step by metis
qed

theorem mutation_exclusion_witness:
  "\<not> uri_matches_prefix (Some ''viking://resources/a'') ''viking://resources/ab''
   \<and> \<not> uri_matches_prefix (Some ''viking://resources/ab'') ''viking://resources/a''"
proof -
  let ?m = "\<lparr>ul_object = 0, ul_account_id = ''acme'', ul_uris = normalize_uris [Some ''viking://resources/a/'']\<rparr>"
  let ?a = "\<lparr>ul_object = 1, ul_account_id = ''acme'', ul_uris = normalize_uris [None, Some ''viking://resources/ab'']\<rparr>"
  let ?c = "add_active (add_active init_coordinator ?m True) ?a False"
  have 1: "coord_reachable (add_active init_coordinator ?m True)"
    by (rule reachable_enter [OF coord_reachable.start])
      (simp_all add: init_coordinator_def known_leases_def has_blocker_def)
  have "\<not> has_blocker (add_active init_coordinator ?m True) ?a False"
    by code_simp
  then have "coord_reachable ?c"
    by (intro reachable_enter [OF 1]) (simp_all add: init_coordinator_def known_leases_def add_active_def)
  moreover have "active_mutations ?c = [?m]" "active_accesses ?c = [?a]"
    by (simp_all add: add_active_def init_coordinator_def)
  moreover have "ul_uris ?m = [''viking://resources/a'']" "ul_uris ?a = [''viking://resources/ab'']"
    by code_simp+
  ultimately show ?thesis
    using mutation_exclusion [of ?c 0 ?a] by simp
qed

section \<open>No wake-up is lost\<close>

text \<open>Without new requests every run is finite: a grant takes a coroutine out of \<open>_acquire\<close>, a release
  takes an active lease away, and a failing test takes a coroutine out of the ready ones.\<close>

definition serve_measure :: "coordinator \<Rightarrow> nat \<times> nat \<times> nat" where
  "serve_measure c =
     (length (waiting c) + length (parked c), length (active_accesses c) + length (active_mutations c), length (waiting c))"

lemma length_remove_lease: "l \<in> set ls \<Longrightarrow> Suc (length (remove_lease l ls)) = length ls"
  by (induction ls) auto

lemma serve_decreases: "coord_serve c c' \<Longrightarrow> (serve_measure c', serve_measure c) \<in> less_than <*lex*> less_than <*lex*> less_than"
proof (induction rule: coord_serve.induct)
  case (grant l mutation c c')
  then have "0 < length (waiting c)" by (cases "waiting c") auto
  with grant show ?case by (auto simp: serve_measure_def length_remove1)
next
  case (park l mutation c)
  then have "0 < length (waiting c)" by (cases "waiting c") auto
  with park show ?case by (auto simp: serve_measure_def length_remove1)
next
  case (finish l mutation c)
  then show ?case
    using length_remove_lease [of l "active_accesses c"] length_remove_lease [of l "active_mutations c"]
    by (auto simp: serve_measure_def release_def notify_all_def Let_def split: if_splits)
qed

lemma serve_terminates: "\<not> (\<exists>f. \<forall>i::nat. coord_serve (f i) (f (Suc i)))"
proof -
  have "wf (inv_image (less_than <*lex*> less_than <*lex*> less_than) serve_measure)"
    by (intro wf_inv_image wf_lex_prod wf_less_than)
  then have "\<not> (\<exists>f. \<forall>i. (f (Suc i), f i) \<in> inv_image (less_than <*lex*> less_than <*lex*> less_than) serve_measure)"
    by (simp only: wf_iff_no_infinite_down_chain not_False_eq_True)
  then show ?thesis using serve_decreases unfolding in_inv_image by blast
qed

text \<open>A coroutine leaves \<open>_acquire\<close> only with its lease active.\<close>

lemma serve_keeps_or_grants:
  assumes "coord_serve c c'" and "(l, m) \<in> set (waiting c @ parked c)"
  shows "(l, m) \<in> set (waiting c' @ parked c') \<or> l \<in> set (if m then active_mutations c' else active_accesses c')"
  using assms
proof (induction rule: coord_serve.induct)
  case (grant k n c c')
  then show ?case
    by (cases "(l, m) = (k, n)") (auto simp: add_active_def in_set_remove1)
next
  case (park k n c)
  then show ?case by (cases "(l, m) = (k, n)") (auto simp: in_set_remove1)
next
  case (finish k n c)
  then show ?case by auto
qed

lemma run_keeps_or_grants:
  assumes "coord_serve\<^sup>*\<^sup>* c c'" and "(l, m) \<in> set (waiting c @ parked c)"
  shows "(l, m) \<in> set (waiting c' @ parked c')
    \<or> (\<exists>d. coord_serve\<^sup>*\<^sup>* c d \<and> coord_serve\<^sup>*\<^sup>* d c' \<and> l \<in> set (if m then active_mutations d else active_accesses d))"
  using assms(1)
proof (induction rule: rtranclp_induct)
  case base
  show ?case using assms(2) by simp
next
  case (step y z)
  then show ?case
    using serve_keeps_or_grants [of y z l m] by (meson rtranclp.rtrancl_into_rtrancl rtranclp.rtrancl_refl)
qed

lemma serve_run_inv: "coord_serve\<^sup>*\<^sup>* c c' \<Longrightarrow> coord_inv c \<Longrightarrow> coord_inv c'"
  by (induction rule: rtranclp_induct) (auto intro: coord_serve_inv)

text \<open>A state in which nothing can run has nobody inside \<open>_acquire\<close>: active leases can end, ready coroutines can
  test, and a sleeping coroutine has an active blocker.\<close>

lemma stuck_empty:
  assumes "coord_inv c" and "\<forall>c'. \<not> coord_serve c c'"
  shows "waiting c = [] \<and> parked c = []"
proof -
  have a: "active_mutations c = []" "active_accesses c = []"
    using assms(2) coord_serve.finish [of _ True c] coord_serve.finish [of _ False c]
    by (metis (full_types) list.set_intros(1) neq_Nil_conv)+
  have "waiting c = []"
  proof (rule ccontr)
    assume "waiting c \<noteq> []"
    then obtain l m where "(l, m) \<in> set (waiting c)" by (cases "waiting c") auto
    then show False
      using assms(2) coord_serve.grant [of l m c] coord_serve.park [of l m c] by (cases "has_blocker c l m") auto
  qed
  moreover have "parked c = []"
    using assms(1) a by (cases "parked c") (auto simp: coord_inv_def has_blocker_def)
  ultimately show ?thesis by simp
qed

text \<open>C36: no lost wake-up. In every reachable state, a coroutine that sleeps in \<open>_acquire\<close> is blocked by an active
  lease. Once no new request arrives, no run goes on for ever, and every run that has come to its end has left
  nobody inside \<open>_acquire\<close>: each coroutine that was waiting or asleep held its lease at some point of the run,
  whatever the order in which the coroutines ran.\<close>

theorem waiting_lease_progress:
  assumes "coord_reachable c" and "(l, mutation) \<in> set (waiting c @ parked c)"
  shows "((l, mutation) \<in> set (parked c) \<longrightarrow> has_blocker c l mutation)
    \<and> \<not> (\<exists>f. f 0 = c \<and> (\<forall>i::nat. coord_serve (f i) (f (Suc i))))
    \<and> (\<forall>c'. coord_serve\<^sup>*\<^sup>* c c' \<and> (\<forall>c''. \<not> coord_serve c' c'') \<longrightarrow>
         waiting c' = [] \<and> parked c' = []
         \<and> (\<exists>d. coord_serve\<^sup>*\<^sup>* c d \<and> coord_serve\<^sup>*\<^sup>* d c'
              \<and> l \<in> set (if mutation then active_mutations d else active_accesses d)))"
proof (intro conjI allI impI)
  have inv: "coord_inv c" using assms(1) by (rule coord_reachable_inv)
  then show "has_blocker c l mutation" if "(l, mutation) \<in> set (parked c)"
    using that by (auto simp: coord_inv_def)
  show "\<not> (\<exists>f. f 0 = c \<and> (\<forall>i::nat. coord_serve (f i) (f (Suc i))))"
    using serve_terminates by blast
  fix c' assume run: "coord_serve\<^sup>*\<^sup>* c c' \<and> (\<forall>c''. \<not> coord_serve c' c'')"
  then have "coord_inv c'" using serve_run_inv inv by blast
  with run have e: "waiting c' = [] \<and> parked c' = []" by (simp add: stuck_empty)
  then show "waiting c' = []" "parked c' = []" by simp_all
  show "\<exists>d. coord_serve\<^sup>*\<^sup>* c d \<and> coord_serve\<^sup>*\<^sup>* d c' \<and> l \<in> set (if mutation then active_mutations d else active_accesses d)"
    using run_keeps_or_grants [OF conjunct1 [OF run] assms(2)] e by simp
qed

theorem waiting_lease_progress_witness:
  "\<exists>c l. (l, True) \<in> set (parked c) \<and> coord_reachable c \<and> has_blocker c l True"
proof -
  let ?a = "\<lparr>ul_object = 0, ul_account_id = ''acme'', ul_uris = normalize_uris [Some ''viking://resources/a/b'']\<rparr>"
  let ?m = "\<lparr>ul_object = 1, ul_account_id = ''acme'', ul_uris = normalize_uris [Some ''viking://resources/a'']\<rparr>"
  let ?d = "add_active init_coordinator ?a False"
  let ?c = "?d\<lparr>waiting := waiting ?d @ [(?m, True)]\<rparr>"
  let ?e = "?c\<lparr>waiting := remove1 (?m, True) (waiting ?c), parked := parked ?c @ [(?m, True)]\<rparr>"
  have "coord_reachable ?d"
    by (rule reachable_enter [OF coord_reachable.start])
      (simp_all add: init_coordinator_def known_leases_def has_blocker_def)
  then have r: "coord_reachable ?c"
    by (rule coord_reachable.step)
      (rule coord_step.request [where obj = 1], simp_all add: init_coordinator_def known_leases_def add_active_def)
  have "has_blocker ?c ?m True" by code_simp
  then have "try_acquire ?c ?m True = None" unfolding try_acquire_eqs .
  moreover have "(?m, True) \<in> set (waiting ?c)" by simp
  ultimately have "coord_serve ?c ?e" by (intro coord_serve.park)
  then have e: "coord_reachable ?e" by (intro coord_reachable.step [OF r] coord_step.serve)
  have p: "(?m, True) \<in> set (parked ?e)" by simp
  then have "(?m, True) \<in> set (waiting ?e @ parked ?e)" unfolding set_append by (rule UnI2)
  from conjunct1 [OF waiting_lease_progress [OF e this]] p have "has_blocker ?e ?m True" by (rule mp)
  then show ?thesis using e p by blast
qed

end
