(* ===== verification/Model_Retry.thy ===== *)
theory Model_Retry
  imports Py_Prelude Complex_Main
begin

text \<open>
  Errors of model calls and what the program does about them, \<open>openviking/utils/model_retry.py\<close>:
  the classifier of API errors, the bounded retry loop and the two credential switchers. Time is
  a rational number of seconds; the value of \<open>time.monotonic()\<close> and the random jitter are
  arguments of the operations that read them. Texts are Latin-1, so the two Chinese moderation
  patterns, which no such text contains, are left out of \<open>CONTENT_SAFETY_PATTERNS\<close>.
\<close>

section \<open>Error classes\<close>

datatype error_class =
    ERROR_CLASS_PERMANENT
  | ERROR_CLASS_AUTH
  | ERROR_CLASS_CONTENT_SAFETY
  | ERROR_CLASS_INPUT_TOO_LARGE
  | ERROR_CLASS_QUOTA_EXCEEDED
  | ERROR_CLASS_TRANSIENT
  | ERROR_CLASS_UNKNOWN

fun error_class_name :: "error_class \<Rightarrow> string" where
  "error_class_name ERROR_CLASS_PERMANENT = ''permanent''"
| "error_class_name ERROR_CLASS_AUTH = ''auth''"
| "error_class_name ERROR_CLASS_CONTENT_SAFETY = ''content_safety''"
| "error_class_name ERROR_CLASS_INPUT_TOO_LARGE = ''input_too_large''"
| "error_class_name ERROR_CLASS_QUOTA_EXCEEDED = ''quota_exceeded''"
| "error_class_name ERROR_CLASS_TRANSIENT = ''transient''"
| "error_class_name ERROR_CLASS_UNKNOWN = ''unknown''"

definition INPUT_TOO_LARGE_PATTERNS :: "string list" where
  "INPUT_TOO_LARGE_PATTERNS =
     [''413'', ''payload too large'', ''request entity too large'', ''content too large'',
      ''contextwindowexceeded'', ''context window exceeded'', ''maximum context length'',
      ''max input tokens'', ''too many input tokens'', ''input length exceeds'',
      ''exceeds the context length'', ''exceeds the max input length'',
      ''is too large to process'', ''expected maxlength'']"

definition PERMANENT_API_ERROR_PATTERNS :: "string list" where
  "PERMANENT_API_ERROR_PATTERNS = [''400'']"

definition AUTH_API_ERROR_PATTERNS :: "string list" where
  "AUTH_API_ERROR_PATTERNS = [''401'', ''403'', ''forbidden'', ''unauthorized'', ''accountoverdue'']"

definition CONTENT_SAFETY_PATTERNS :: "string list" where
  "CONTENT_SAFETY_PATTERNS =
     [''content policy'', ''content_filter'', ''contentfilter'', ''moderation'', ''sensitive content'']"

definition QUOTA_EXCEEDED_PATTERNS :: "string list" where
  "QUOTA_EXCEEDED_PATTERNS = [''quotaexceeded'', ''quota limit'', ''quota exceed'', ''usage quota'']"

definition TRANSIENT_API_ERROR_PATTERNS :: "string list" where
  "TRANSIENT_API_ERROR_PATTERNS =
     [''429'', ''500'', ''502'', ''503'', ''504'', ''toomanyrequests'', ''ratelimit'',
      ''requestbursttoofast'', ''timeout'', ''connectionerror'', ''connection refused'',
      ''connection reset'']"

section \<open>Status codes in texts\<close>

text \<open>The class \<open>\w\<close> of a Python \<open>str\<close> pattern and \<open>str.lower\<close>, on Latin-1.\<close>

definition is_word :: "char \<Rightarrow> bool" where
  "is_word c \<longleftrightarrow>
     (let n = (of_char c :: nat)
      in (48 \<le> n \<and> n \<le> 57) \<or> (65 \<le> n \<and> n \<le> 90) \<or> n = 95 \<or> (97 \<le> n \<and> n \<le> 122)
         \<or> n \<in> {0xAA, 0xB2, 0xB3, 0xB5, 0xB9, 0xBA, 0xBC, 0xBD, 0xBE}
         \<or> (0xC0 \<le> n \<and> n \<noteq> 0xD7 \<and> n \<noteq> 0xF7))"

definition lower_char :: "char \<Rightarrow> char" where
  "lower_char c =
     (let n = (of_char c :: nat)
      in if (65 \<le> n \<and> n \<le> 90) \<or> (0xC0 \<le> n \<and> n \<le> 0xDE \<and> n \<noteq> 0xD7) then char_of (n + 32) else c)"

definition py_lower :: "string \<Rightarrow> string" where
  "py_lower s = map lower_char s"

text \<open>
  A pattern piece maps a text to the texts that may remain after it, in order of trial; a
  search asks whether some remainder exists, so the order does not matter to it.
\<close>

type_synonym matcher = "string \<Rightarrow> string list"

definition m_lit :: "string \<Rightarrow> matcher" where
  "m_lit p s = (if startswith s p then [drop (length p) s] else [])"

fun m_spaces :: matcher where
  "m_spaces [] = [[]]"
| "m_spaces (c # cs) = (if is_space c then m_spaces cs @ [c # cs] else [c # cs])"

definition m_opt :: "matcher \<Rightarrow> matcher" where
  "m_opt f s = f s @ [s]"

definition m_seq :: "matcher \<Rightarrow> matcher \<Rightarrow> matcher" where
  "m_seq f g s = concat (map g (f s))"

definition m_alt :: "matcher \<Rightarrow> matcher \<Rightarrow> matcher" where
  "m_alt f g s = f s @ g s"

definition at_start :: "(char \<Rightarrow> bool) \<Rightarrow> string \<Rightarrow> bool" where
  "at_start P s = (case s of [] \<Rightarrow> False | c # _ \<Rightarrow> P c)"

definition status_word :: matcher where
  "status_word =
     m_alt (m_seq (m_lit ''error'') (m_seq m_spaces (m_lit ''code'')))
     (m_alt (m_seq (m_lit ''status'') (m_opt (m_seq m_spaces (m_lit ''code''))))
     (m_alt (m_seq (m_lit ''http'') (m_opt (m_seq m_spaces (m_lit ''status''))))
       (m_lit ''code'')))"

definition labelled_code :: "string \<Rightarrow> matcher" where
  "labelled_code pattern =
     m_seq status_word (m_seq m_spaces (m_seq (m_opt (m_alt (m_lit '':'') (m_lit ''='')))
       (m_seq m_spaces (m_lit pattern))))"

text \<open>One position of the search: \<open>prev\<close> is the character before it, if there is one.\<close>

definition code_match_here :: "string \<Rightarrow> char option \<Rightarrow> string \<Rightarrow> bool" where
  "code_match_here pattern prev s \<longleftrightarrow>
     (let word_before = (case prev of None \<Rightarrow> False | Some c \<Rightarrow> is_word c);
          dash_before = (prev = Some (CHR ''-''))
      in (word_before \<noteq> at_start is_word s
            \<and> list_ex (\<lambda>rest. \<not> at_start is_word rest) (labelled_code pattern s))
         \<or> (\<not> word_before \<and> \<not> dash_before
            \<and> list_ex (\<lambda>rest. \<not> at_start (\<lambda>c. is_word c \<or> c = CHR ''-'') rest) (m_lit pattern s)))"

fun numeric_search :: "string \<Rightarrow> char option \<Rightarrow> string \<Rightarrow> bool" where
  "numeric_search pattern prev [] = code_match_here pattern prev []"
| "numeric_search pattern prev (c # cs) =
     (code_match_here pattern prev (c # cs) \<or> numeric_search pattern (Some c) cs)"

definition is_digit :: "char \<Rightarrow> bool" where
  "is_digit c \<longleftrightarrow> (let n = (of_char c :: nat) in 48 \<le> n \<and> n \<le> 57)"

definition contains :: "string \<Rightarrow> string \<Rightarrow> bool" where
  "contains pattern text \<longleftrightarrow> find_str pattern text \<noteq> None"

definition pattern_matches :: "string \<Rightarrow> string \<Rightarrow> string \<Rightarrow> bool" where
  "pattern_matches text_lower text_compact pattern =
     (if pattern \<noteq> [] \<and> list_all is_digit pattern
      then numeric_search pattern None text_lower \<or> numeric_search pattern None text_compact
      else contains pattern text_lower \<or> contains pattern text_compact)"

section \<open>Classification\<close>

text \<open>
  An exception as the classifier sees it: its text, whether it is one of the four permanent I/O
  errors, and its \<open>__cause__\<close>; or the aggregate that a failover raises, with one
  \<open>(credential_id, error_class, exception, index)\<close> per credential.
\<close>

datatype api_error =
    ApiError (err_text: string) (err_permanent_io: bool) (err_cause: "api_error option")
  | AllCredentialsFailedError (err_errors: "(string \<times> error_class \<times> api_error \<times> nat) list")

fun err_str :: "api_error \<Rightarrow> string" where
  "err_str (ApiError text io cause) = text"
| "err_str (AllCredentialsFailedError errors) =
     ''All credentials failed:'' @ [CHR 0x0A] @
     join_with [CHR 0x0A] (map (\<lambda>(cred_id, ec, e, attempts).
       ''  - '' @ cred_id @ '': '' @ error_class_name ec @ '' - '' @ err_str e) errors)"

definition is_permanent_io :: "api_error \<Rightarrow> bool" where
  "is_permanent_io e = (case e of ApiError _ io _ \<Rightarrow> io | AllCredentialsFailedError _ \<Rightarrow> False)"

definition matches_any :: "string list \<Rightarrow> string list \<Rightarrow> bool" where
  "matches_any texts patterns =
     list_ex (\<lambda>text. let text_lower = py_lower text; text_compact = filter (\<lambda>c. c \<noteq> CHR '' '') text_lower
       in list_ex (pattern_matches text_lower text_compact) patterns) texts"

definition matches_quota :: "string list \<Rightarrow> bool" where
  "matches_quota texts =
     list_ex (\<lambda>text. list_ex (\<lambda>pattern. contains pattern (py_lower text)) QUOTA_EXCEEDED_PATTERNS) texts"

definition classify_texts :: "string list \<Rightarrow> error_class" where
  "classify_texts texts =
     (if matches_any texts INPUT_TOO_LARGE_PATTERNS then ERROR_CLASS_INPUT_TOO_LARGE
      else if matches_any texts CONTENT_SAFETY_PATTERNS then ERROR_CLASS_CONTENT_SAFETY
      else if matches_any texts PERMANENT_API_ERROR_PATTERNS then ERROR_CLASS_PERMANENT
      else if matches_any texts AUTH_API_ERROR_PATTERNS then ERROR_CLASS_AUTH
      else if matches_quota texts then ERROR_CLASS_QUOTA_EXCEEDED
      else if matches_any texts TRANSIENT_API_ERROR_PATTERNS then ERROR_CLASS_TRANSIENT
      else ERROR_CLASS_UNKNOWN)"

fun classify_api_error :: "api_error \<Rightarrow> error_class" where
  "classify_api_error (AllCredentialsFailedError errors) =
     (let classes = map (\<lambda>(_, ec, _, _). ec) errors
      in if ERROR_CLASS_TRANSIENT \<in> set classes then ERROR_CLASS_TRANSIENT
         else if ERROR_CLASS_QUOTA_EXCEEDED \<in> set classes then ERROR_CLASS_QUOTA_EXCEEDED
         else if classes \<noteq> [] \<and> list_all (\<lambda>ec. ec = ERROR_CLASS_AUTH) classes then ERROR_CLASS_AUTH
         else ERROR_CLASS_UNKNOWN)"
| "classify_api_error (ApiError text io cause) =
     (if io \<or> (case cause of None \<Rightarrow> False | Some e \<Rightarrow> is_permanent_io e) then ERROR_CLASS_PERMANENT
      else classify_texts (text # (case cause of None \<Rightarrow> [] | Some e \<Rightarrow> [err_str e])))"

definition is_retryable_api_error :: "api_error \<Rightarrow> bool" where
  "is_retryable_api_error e \<longleftrightarrow> classify_api_error e = ERROR_CLASS_TRANSIENT"

section \<open>Retry loops\<close>

definition compute_delay :: "nat \<Rightarrow> rat \<Rightarrow> rat \<Rightarrow> rat option \<Rightarrow> rat" where
  "compute_delay attempt base_delay max_delay jitter =
     (let delay = min (base_delay * 2 ^ attempt) max_delay
      in case jitter of None \<Rightarrow> delay | Some u \<Rightarrow> delay + u * min base_delay delay)"

text \<open>
  The loop of \<open>retry_sync\<close> and \<open>retry_async\<close>. The wrapped function is a function of the attempt
  number, since each call may behave differently; \<open>jitter\<close> gives the random draw in [0, 1) after
  a failed attempt. The result carries the sleeps, in order.
\<close>

function retry_from :: "(nat \<Rightarrow> api_error + 'a) \<Rightarrow> int \<Rightarrow> (api_error \<Rightarrow> bool) \<Rightarrow> (nat \<Rightarrow> rat) \<Rightarrow> nat
    \<Rightarrow> (api_error + 'a) \<times> rat list" where
  "retry_from func max_retries is_retryable delay_of attempt =
     (case func attempt of
        Inr r \<Rightarrow> (Inr r, [])
      | Inl e \<Rightarrow>
          if max_retries \<le> 0 \<or> int attempt \<ge> max_retries \<or> \<not> is_retryable e then (Inl e, [])
          else
            let delay = delay_of attempt;
                (out, sleeps) = retry_from func max_retries is_retryable delay_of (attempt + 1)
            in (out, delay # sleeps))"
  by pat_completeness auto
termination
  by (relation "measure (\<lambda>(_, max_retries, _, _, attempt). nat max_retries - attempt)") auto

declare retry_from.simps [simp del]

definition retry_sync :: "(nat \<Rightarrow> api_error + 'a) \<Rightarrow> int \<Rightarrow> rat \<Rightarrow> rat \<Rightarrow> (nat \<Rightarrow> rat) option
    \<Rightarrow> (api_error \<Rightarrow> bool) \<Rightarrow> (api_error + 'a) \<times> rat list" where
  "retry_sync func max_retries base_delay max_delay jitter is_retryable =
     retry_from func max_retries is_retryable
       (\<lambda>attempt. compute_delay attempt base_delay max_delay (map_option (\<lambda>u. u attempt) jitter)) 0"

section \<open>Primary and backup\<close>

record primary_backup_switcher =
  pb_failback_timeout :: rat
  pb_failback_request_count :: nat
  pb_using_backup :: bool
  pb_switch_to_backup_time :: rat
  pb_backup_request_count :: nat

definition init_primary_backup :: "rat \<Rightarrow> nat \<Rightarrow> primary_backup_switcher" where
  "init_primary_backup failback_timeout_seconds failback_request_count =
     \<lparr>pb_failback_timeout = failback_timeout_seconds, pb_failback_request_count = failback_request_count,
      pb_using_backup = False, pb_switch_to_backup_time = 0, pb_backup_request_count = 0\<rparr>"

definition should_try_primary :: "rat \<Rightarrow> primary_backup_switcher \<Rightarrow> bool" where
  "should_try_primary now s =
     (if \<not> pb_using_backup s then True
      else if now - pb_switch_to_backup_time s \<ge> pb_failback_timeout s then True
      else if pb_backup_request_count s \<ge> pb_failback_request_count s then True
      else False)"

definition record_primary_success :: "primary_backup_switcher \<Rightarrow> primary_backup_switcher" where
  "record_primary_success s =
     (if pb_using_backup s then s\<lparr>pb_using_backup := False, pb_backup_request_count := 0\<rparr> else s)"

definition record_primary_failure ::
    "rat \<Rightarrow> api_error \<Rightarrow> primary_backup_switcher \<Rightarrow> primary_backup_switcher \<times> bool" where
  "record_primary_failure now error s =
     (if classify_api_error error \<in> {ERROR_CLASS_PERMANENT, ERROR_CLASS_AUTH, ERROR_CLASS_QUOTA_EXCEEDED}
      then (s\<lparr>pb_using_backup := True, pb_switch_to_backup_time := now, pb_backup_request_count := 0\<rparr>, True)
      else (s, False))"

definition record_backup_request :: "primary_backup_switcher \<Rightarrow> primary_backup_switcher" where
  "record_backup_request s =
     (if pb_using_backup s then s\<lparr>pb_backup_request_count := pb_backup_request_count s + 1\<rparr> else s)"

section \<open>Ordered credentials\<close>

record ordered_credential_switcher =
  oc_n :: nat
  oc_failback_timeout :: rat
  oc_failback_request_count :: nat
  oc_active_idx :: nat
  oc_last_switch_time :: rat
  oc_active_request_count :: nat

definition mk_ordered_switcher :: "int \<Rightarrow> rat \<Rightarrow> nat \<Rightarrow> ordered_credential_switcher res" where
  "mk_ordered_switcher n failback_timeout_seconds failback_request_count =
     (if n < 1 then Inl ValueError
      else Inr \<lparr>oc_n = nat n, oc_failback_timeout = failback_timeout_seconds,
        oc_failback_request_count = failback_request_count,
        oc_active_idx = 0, oc_last_switch_time = 0, oc_active_request_count = 0\<rparr>)"

text \<open>\<open>now\<close> and \<open>now'\<close> are the two readings of the clock that \<open>maybe_failback\<close> makes.\<close>

definition maybe_failback :: "rat \<Rightarrow> rat \<Rightarrow> ordered_credential_switcher \<Rightarrow> ordered_credential_switcher \<times> nat" where
  "maybe_failback now now' s =
     (if oc_active_idx s > 0
         \<and> (now - oc_last_switch_time s \<ge> oc_failback_timeout s
            \<or> oc_active_request_count s \<ge> oc_failback_request_count s)
      then (s\<lparr>oc_active_idx := oc_active_idx s - 1, oc_last_switch_time := now', oc_active_request_count := 0\<rparr>,
            oc_active_idx s - 1)
      else (s, oc_active_idx s))"

definition on_success :: "nat \<Rightarrow> ordered_credential_switcher \<Rightarrow> ordered_credential_switcher" where
  "on_success idx s =
     (if idx = oc_active_idx s \<and> oc_active_idx s > 0
      then s\<lparr>oc_active_request_count := oc_active_request_count s + 1\<rparr> else s)"

definition is_fail_fast :: "error_class \<Rightarrow> bool" where
  "is_fail_fast ec \<longleftrightarrow>
     ec \<in> {ERROR_CLASS_PERMANENT, ERROR_CLASS_INPUT_TOO_LARGE, ERROR_CLASS_CONTENT_SAFETY}"

definition commit_success :: "rat \<Rightarrow> nat \<Rightarrow> ordered_credential_switcher \<Rightarrow> ordered_credential_switcher" where
  "commit_success now idx s =
     (if idx = oc_active_idx s
      then (if oc_active_idx s > 0 then s\<lparr>oc_active_request_count := oc_active_request_count s + 1\<rparr> else s)
      else s\<lparr>oc_active_idx := idx, oc_last_switch_time := now, oc_active_request_count := 0\<rparr>)"

definition switcher_inv :: "ordered_credential_switcher \<Rightarrow> bool" where
  "switcher_inv s \<longleftrightarrow> oc_active_idx s < oc_n s"

lemma mk_ordered_switcher_inv [inv_intros]: "mk_ordered_switcher n t c = Inr s \<Longrightarrow> switcher_inv s"
  by (auto simp: mk_ordered_switcher_def switcher_inv_def split: if_splits)

lemma maybe_failback_inv [inv_intros]:
  "maybe_failback now now' s = (s', i) \<Longrightarrow> switcher_inv s \<Longrightarrow> switcher_inv s'"
  by (auto simp: maybe_failback_def switcher_inv_def split: if_splits)

lemma maybe_failback_idx:
  "maybe_failback now now' s = (s', i) \<Longrightarrow> i = oc_active_idx s' \<and> oc_n s' = oc_n s"
  by (auto simp: maybe_failback_def split: if_splits)

lemma on_success_inv [inv_intros]: "switcher_inv s \<Longrightarrow> switcher_inv (on_success i s)"
  by (simp add: on_success_def switcher_inv_def)

lemma commit_success_inv [inv_intros]: "i < oc_n s \<Longrightarrow> switcher_inv s \<Longrightarrow> switcher_inv (commit_success now i s)"
  by (simp add: commit_success_def switcher_inv_def)

lemma commit_success_active: "oc_active_idx (commit_success now i s) = i"
  by (simp add: commit_success_def)

lemma commit_success_n [simp]: "oc_n (commit_success now i s) = oc_n s"
  by (simp add: commit_success_def)

section \<open>Properties of the retry loop\<close>

lemma retry_from_spec:
  assumes "retry_from func max_retries is_retryable delay_of attempt = (out, sleeps)"
  shows "out = func (attempt + length sleeps)
    \<and> (sleeps = [] \<or> int (attempt + length sleeps) \<le> max_retries)
    \<and> (\<forall>i < length sleeps. \<exists>e. func (attempt + i) = Inl e \<and> is_retryable e)
    \<and> (\<forall>e. out = Inl e \<longrightarrow> int (attempt + length sleeps) \<ge> max_retries \<or> \<not> is_retryable e)
    \<and> sleeps = map delay_of [attempt ..< attempt + length sleeps]"
  using assms
proof (induction func max_retries is_retryable delay_of attempt arbitrary: out sleeps rule: retry_from.induct)
  case (1 func max_retries is_retryable delay_of attempt)
  show ?case
  proof (cases "\<exists>e. func attempt = Inl e \<and> \<not> (max_retries \<le> 0 \<or> int attempt \<ge> max_retries \<or> \<not> is_retryable e)")
    case False
    with 1(2) show ?thesis
      by (subst (asm) retry_from.simps) (auto split: sum.splits if_splits)
  next
    case True
    then obtain e where e: "func attempt = Inl e" and c: "\<not> (max_retries \<le> 0 \<or> int attempt \<ge> max_retries \<or> \<not> is_retryable e)"
      by blast
    obtain out' sl where rec: "retry_from func max_retries is_retryable delay_of (attempt + 1) = (out', sl)"
      by force
    have eq: "out = out'" "sleeps = delay_of attempt # sl"
      using 1(2) e c rec by (subst (asm) retry_from.simps, simp)+
    note IH = 1(1) [OF e c refl rec]
    have "\<exists>e. func (attempt + i) = Inl e \<and> is_retryable e" if "i < length sleeps" for i
      using that IH e c eq by (cases i) auto
    moreover have "map delay_of [attempt ..< attempt + length sleeps] =
        delay_of attempt # map delay_of [attempt + 1 ..< attempt + 1 + length sl]"
      by (simp add: eq upt_conv_Cons del: upt_Suc)
    ultimately show ?thesis
      using IH c eq by auto
  qed
qed

text \<open>What a retried call returns. The loop ends with the outcome of the last of its
  \<open>length sleeps + 1\<close> calls, never makes more than \<open>max_retries\<close> repetitions, repeats only after
  errors that are retryable, and raises only when the error is not retryable or the
  repetitions are used up.\<close>

lemma retry_sync_outcome:
  "case retry_sync func max_retries base_delay max_delay jitter is_retryable of (out, sleeps) \<Rightarrow>
     out = func (length sleeps)
     \<and> length sleeps \<le> nat max_retries
     \<and> list_all (\<lambda>i. case func i of Inl e \<Rightarrow> is_retryable e | Inr _ \<Rightarrow> False) [0 ..< length sleeps]
     \<and> (case out of Inr _ \<Rightarrow> True | Inl e \<Rightarrow> length sleeps = nat max_retries \<or> \<not> is_retryable e)"
proof -
  obtain out sleeps where r: "retry_sync func max_retries base_delay max_delay jitter is_retryable = (out, sleeps)"
    by force
  note sp = retry_from_spec [OF r [unfolded retry_sync_def]]
  have len: "length sleeps \<le> nat max_retries"
    using sp by (cases "sleeps = []") auto
  have "list_all (\<lambda>i. case func i of Inl e \<Rightarrow> is_retryable e | Inr _ \<Rightarrow> False) [0 ..< length sleeps]"
    unfolding list_all_iff
  proof
    fix i assume "i \<in> set [0 ..< length sleeps]"
    then obtain e where "func (0 + i) = Inl e" "is_retryable e" using sp by auto
    then show "case func i of Inl e \<Rightarrow> is_retryable e | Inr _ \<Rightarrow> False" by simp
  qed
  moreover have "case out of Inr _ \<Rightarrow> True | Inl e \<Rightarrow> length sleeps = nat max_retries \<or> \<not> is_retryable e"
  proof (cases out)
    case (Inl e)
    then have "int (0 + length sleeps) \<ge> max_retries \<or> \<not> is_retryable e" using sp by blast
    with len Inl show ?thesis by auto
  qed simp
  ultimately show ?thesis
    using sp len by (simp add: r)
qed

text \<open>Delays are bounded. Each sleep of a retried call is non-negative and at most
  \<open>max_delay\<close> plus the jitter, which is at most \<open>base_delay\<close>; without jitter the delays never
  decrease from one attempt to the next.\<close>

theorem retry_sync_delays:
  assumes "0 \<le> base_delay" and "0 \<le> max_delay" and "\<And>i. 0 \<le> u i \<and> u i \<le> 1"
    and "retry_sync func max_retries base_delay max_delay (if jitter then Some u else None) is_retryable = (out, sleeps)"
  shows "(\<forall>d \<in> set sleeps. 0 \<le> d \<and> d \<le> max_delay + (if jitter then base_delay else 0))
    \<and> (jitter \<or> sorted sleeps)"
proof -
  let ?d = "\<lambda>attempt. compute_delay attempt base_delay max_delay (map_option (\<lambda>u. u attempt) (if jitter then Some u else None))"
  have sl: "sleeps = map ?d [0 ..< length sleeps]"
    using retry_from_spec [OF assms(4) [unfolded retry_sync_def]] by simp
  have bound: "0 \<le> ?d i \<and> ?d i \<le> max_delay + (if jitter then base_delay else 0)" for i
  proof -
    let ?m = "min (base_delay * 2 ^ i) max_delay"
    have m: "0 \<le> ?m" "?m \<le> max_delay" using assms(1,2) by auto
    have k: "0 \<le> min base_delay ?m" "min base_delay ?m \<le> base_delay" using assms(1) m(1) by auto
    then have "0 \<le> u i * min base_delay ?m" "u i * min base_delay ?m \<le> 1 * base_delay"
      using assms(3) [of i] by (blast intro: mult_nonneg_nonneg, intro mult_mono) auto
    with m show ?thesis by (simp add: compute_delay_def Let_def) linarith
  qed
  have "sorted sleeps" if "\<not> jitter"
  proof (subst sl, rule sorted_map_mono)
    show "mono_on (set [0 ..< length sleeps]) ?d"
      using that assms(1)
      by (auto simp: mono_on_def compute_delay_def intro!: min.coboundedI1 mult_left_mono power_increasing)
  qed simp
  with bound show ?thesis by (subst sl) auto
qed

definition flaky :: "nat \<Rightarrow> api_error + nat" where
  "flaky i = (if i < 2 then Inl (ApiError ''HTTP 503'' False None) else Inr i)"

lemma flaky_run:
  "retry_sync flaky 3 (1/2) 8 None is_retryable_api_error = (Inr 2, [1/2, 1])"
  by code_simp

theorem retry_sync_delays_witness:
  "(\<forall>d \<in> set [1/2, 1 :: rat]. 0 \<le> d \<and> d \<le> 8) \<and> sorted [1/2, 1 :: rat]"
  using retry_sync_delays [of "1/2" 8 "\<lambda>_. 0" flaky 3 False is_retryable_api_error "Inr 2" "[1/2, 1]"] flaky_run
  by simp

end
