(* ===== verification/Failover.thy ===== *)
theory Failover
  imports Model_Retry
begin

text \<open>
  Model calls over several credentials: \<open>FailoverEmbedder\<close> (\<open>openviking/models/embedder/base.py\<close>),
  \<open>MultiCredentialVLM\<close> and \<open>FailoverVLM\<close> (\<open>openviking/models/vlm/base.py\<close>). The provider calls are
  parameters: \<open>call idx\<close> is what the method of instance \<open>idx\<close> does on this request, its result or
  the exception it raises, and a stream is the list of items it yields followed by an
  exception or its end. \<open>_annotate_vlm_error\<close> only adds attributes that no classifier reads.
\<close>

section \<open>One pass over the ring of credentials\<close>

type_synonym cred_error = "string \<times> error_class \<times> api_error \<times> nat"

fun ring_loop :: "string list \<Rightarrow> (nat \<Rightarrow> api_error + 'a) \<Rightarrow> rat \<Rightarrow> nat \<Rightarrow> nat list \<Rightarrow> cred_error list
    \<Rightarrow> ordered_credential_switcher \<Rightarrow> ordered_credential_switcher \<times> (api_error + 'a)" where
  "ring_loop credential_ids call now start [] aggregated_errors sw =
     (sw, Inl (AllCredentialsFailedError aggregated_errors))"
| "ring_loop credential_ids call now start (offset # offsets) aggregated_errors sw =
     (let idx = (start + offset) mod oc_n sw; credential_id = credential_ids ! idx
      in case call idx of
           Inr result \<Rightarrow> (commit_success now idx sw, Inr result)
         | Inl exc \<Rightarrow>
             let error_class = classify_api_error exc;
                 aggregated_errors' = aggregated_errors @ [(credential_id, error_class, exc, idx)]
             in if is_fail_fast error_class then (sw, Inl exc)
                else ring_loop credential_ids call now start offsets aggregated_errors' sw)"

record failover_embedder =
  fe_credential_ids :: "string list"
  fe_switcher :: ordered_credential_switcher

definition mk_failover_embedder :: "nat \<Rightarrow> string list \<Rightarrow> rat \<Rightarrow> nat \<Rightarrow> failover_embedder res" where
  "mk_failover_embedder embedders credential_ids failback_timeout_seconds failback_request_count =
     (if embedders = 0 then Inl ValueError
      else if embedders \<noteq> length credential_ids then Inl ValueError
      else bind_res (mk_ordered_switcher (int embedders) failback_timeout_seconds failback_request_count)
        (\<lambda>sw. Inr \<lparr>fe_credential_ids = credential_ids, fe_switcher = sw\<rparr>))"

definition embed_with_failover ::
    "(nat \<Rightarrow> api_error + 'a) \<Rightarrow> rat \<Rightarrow> rat \<Rightarrow> rat \<Rightarrow> failover_embedder \<Rightarrow> failover_embedder \<times> (api_error + 'a)" where
  "embed_with_failover call now now' now'' fe =
     (let (sw, start) = maybe_failback now now' (fe_switcher fe);
          (sw', out) = ring_loop (fe_credential_ids fe) call now'' start [0 ..< oc_n sw] [] sw
      in (fe\<lparr>fe_switcher := sw'\<rparr>, out))"

definition embed_with_failover_async ::
    "(nat \<Rightarrow> api_error + 'a) \<Rightarrow> rat \<Rightarrow> rat \<Rightarrow> rat \<Rightarrow> failover_embedder \<Rightarrow> failover_embedder \<times> (api_error + 'a)" where
  "embed_with_failover_async call now now' now'' fe =
     (let (sw, start) = maybe_failback now now' (fe_switcher fe);
          (sw', out) = ring_loop (fe_credential_ids fe) call now'' start [0 ..< oc_n sw] [] sw
      in (fe\<lparr>fe_switcher := sw'\<rparr>, out))"

record multi_credential_vlm =
  mv_credential_ids :: "string list"
  mv_switcher :: ordered_credential_switcher

definition mk_multi_credential_vlm :: "nat \<Rightarrow> string list \<Rightarrow> rat \<Rightarrow> nat \<Rightarrow> multi_credential_vlm res" where
  "mk_multi_credential_vlm vlm_instances credential_ids failback_timeout_seconds failback_request_count =
     (if vlm_instances = 0 then Inl ValueError
      else if vlm_instances \<noteq> length credential_ids then Inl ValueError
      else bind_res (mk_ordered_switcher (int vlm_instances) failback_timeout_seconds failback_request_count)
        (\<lambda>sw. Inr \<lparr>mv_credential_ids = credential_ids, mv_switcher = sw\<rparr>))"

definition mc_get_completion_with_failover ::
    "(nat \<Rightarrow> api_error + 'a) \<Rightarrow> rat \<Rightarrow> rat \<Rightarrow> rat \<Rightarrow> multi_credential_vlm \<Rightarrow> multi_credential_vlm \<times> (api_error + 'a)" where
  "mc_get_completion_with_failover call now now' now'' mv =
     (let (sw, start) = maybe_failback now now' (mv_switcher mv);
          (sw', out) = ring_loop (mv_credential_ids mv) call now'' start [0 ..< oc_n sw] [] sw
      in (mv\<lparr>mv_switcher := sw'\<rparr>, out))"

definition mc_get_completion_with_failover_async ::
    "(nat \<Rightarrow> api_error + 'a) \<Rightarrow> rat \<Rightarrow> rat \<Rightarrow> rat \<Rightarrow> multi_credential_vlm \<Rightarrow> multi_credential_vlm \<times> (api_error + 'a)" where
  "mc_get_completion_with_failover_async call now now' now'' mv =
     (let (sw, start) = maybe_failback now now' (mv_switcher mv);
          (sw', out) = ring_loop (mv_credential_ids mv) call now'' start [0 ..< oc_n sw] [] sw
      in (mv\<lparr>mv_switcher := sw'\<rparr>, out))"

text \<open>
  Streams: the items a provider yields, then \<open>None\<close> for its end or the exception. The outcome
  of a failover stream is what the consumer receives, in order, and how it ends.
\<close>

type_synonym 'a stream_run = "'a list \<times> api_error option"

fun stream_loop :: "string list \<Rightarrow> (nat \<Rightarrow> 'a stream_run) \<Rightarrow> rat \<Rightarrow> nat \<Rightarrow> nat list \<Rightarrow> cred_error list
    \<Rightarrow> ordered_credential_switcher \<Rightarrow> ordered_credential_switcher \<times> 'a stream_run" where
  "stream_loop credential_ids streams now start [] aggregated_errors sw =
     (sw, ([], Some (AllCredentialsFailedError aggregated_errors)))"
| "stream_loop credential_ids streams now start (offset # offsets) aggregated_errors sw =
     (let idx = (start + offset) mod oc_n sw; credential_id = credential_ids ! idx
      in case streams idx of
           (items, None) \<Rightarrow> (commit_success now idx sw, (items, None))
         | (items, Some exc) \<Rightarrow>
             if items \<noteq> [] then (sw, (items, Some exc))
             else
               let error_class = classify_api_error exc;
                   aggregated_errors' = aggregated_errors @ [(credential_id, error_class, exc, idx)]
               in if is_fail_fast error_class then (sw, ([], Some exc))
                  else stream_loop credential_ids streams now start offsets aggregated_errors' sw)"

definition mc_stream_with_failover ::
    "(nat \<Rightarrow> 'a stream_run) \<Rightarrow> rat \<Rightarrow> rat \<Rightarrow> rat \<Rightarrow> multi_credential_vlm \<Rightarrow> multi_credential_vlm \<times> 'a stream_run" where
  "mc_stream_with_failover streams now now' now'' mv =
     (let (sw, start) = maybe_failback now now' (mv_switcher mv);
          (sw', out) = stream_loop (mv_credential_ids mv) streams now'' start [0 ..< oc_n sw] [] sw
      in (mv\<lparr>mv_switcher := sw'\<rparr>, out))"

text \<open>
  Media calls skip the instances that do not support the input, and a success changes the
  active credential only when the active one was tried.
\<close>

datatype 'a media_out = MediaResult 'a | MediaRaised api_error | UnsupportedMediaInputError

fun media_loop :: "string list \<Rightarrow> (nat \<Rightarrow> bool) \<Rightarrow> (nat \<Rightarrow> api_error + 'a) \<Rightarrow> rat \<Rightarrow> nat \<Rightarrow> nat list
    \<Rightarrow> cred_error list \<Rightarrow> bool \<Rightarrow> bool \<Rightarrow> ordered_credential_switcher
    \<Rightarrow> ordered_credential_switcher \<times> 'a media_out" where
  "media_loop credential_ids supports call now start [] errors attempted active_failed sw =
     (sw, if attempted then MediaRaised (AllCredentialsFailedError errors) else UnsupportedMediaInputError)"
| "media_loop credential_ids supports call now start (offset # offsets) errors attempted active_failed sw =
     (let idx = (start + offset) mod oc_n sw
      in if \<not> supports idx
         then media_loop credential_ids supports call now start offsets errors attempted active_failed sw
         else case call idx of
           Inr result \<Rightarrow>
             (if idx = start \<or> active_failed then commit_success now idx sw else sw, MediaResult result)
         | Inl err \<Rightarrow>
             let error_class = classify_api_error err;
                 errors' = errors @ [(credential_ids ! idx, error_class, err, idx)];
                 active_failed' = (active_failed \<or> idx = start)
             in if is_fail_fast error_class then (sw, MediaRaised err)
                else media_loop credential_ids supports call now start offsets errors' True active_failed' sw)"

definition mc_get_media_completion_async ::
    "(nat \<Rightarrow> bool) \<Rightarrow> (nat \<Rightarrow> api_error + 'a) \<Rightarrow> rat \<Rightarrow> rat \<Rightarrow> rat \<Rightarrow> multi_credential_vlm
     \<Rightarrow> multi_credential_vlm \<times> 'a media_out" where
  "mc_get_media_completion_async supports call now now' now'' mv =
     (let (sw, start) = maybe_failback now now' (mv_switcher mv);
          (sw', out) = media_loop (mv_credential_ids mv) supports call now'' start [0 ..< oc_n sw] [] False False sw
      in (mv\<lparr>mv_switcher := sw'\<rparr>, out))"

definition mc_active_credential_id :: "multi_credential_vlm \<Rightarrow> string" where
  "mc_active_credential_id mv =
     (let idx = oc_active_idx (mv_switcher mv)
      in if idx < length (mv_credential_ids mv) then mv_credential_ids mv ! idx else ''exhausted'')"

section \<open>Primary and backup\<close>

definition pb_get_completion_with_failover ::
    "api_error + 'a \<Rightarrow> api_error + 'a \<Rightarrow> rat \<Rightarrow> rat \<Rightarrow> primary_backup_switcher
     \<Rightarrow> primary_backup_switcher \<times> (api_error + 'a)" where
  "pb_get_completion_with_failover primary backup now now' s =
     (let try_backup = (\<lambda>s. (record_backup_request s, backup))
      in if should_try_primary now s
         then case primary of
                Inr result \<Rightarrow> (record_primary_success s, Inr result)
              | Inl e \<Rightarrow>
                  let (s', switched) = record_primary_failure now' e s
                  in if switched then try_backup s' else (s', Inl e)
         else try_backup s)"

definition pb_get_completion_with_failover_async ::
    "api_error + 'a \<Rightarrow> api_error + 'a \<Rightarrow> rat \<Rightarrow> rat \<Rightarrow> primary_backup_switcher
     \<Rightarrow> primary_backup_switcher \<times> (api_error + 'a)" where
  "pb_get_completion_with_failover_async primary backup now now' s =
     (let try_backup = (\<lambda>s. (record_backup_request s, backup))
      in if should_try_primary now s
         then case primary of
                Inr result \<Rightarrow> (record_primary_success s, Inr result)
              | Inl e \<Rightarrow>
                  let (s', switched) = record_primary_failure now' e s
                  in if switched then try_backup s' else (s', Inl e)
         else try_backup s)"

definition pb_stream_with_failover ::
    "'a stream_run \<Rightarrow> 'a stream_run \<Rightarrow> rat \<Rightarrow> rat \<Rightarrow> primary_backup_switcher
     \<Rightarrow> primary_backup_switcher \<times> 'a stream_run" where
  "pb_stream_with_failover primary backup now now' s =
     (let try_backup = (\<lambda>s. (record_backup_request s, backup))
      in if should_try_primary now s
         then case primary of
                (items, None) \<Rightarrow> (record_primary_success s, (items, None))
              | (items, Some exc) \<Rightarrow>
                  if items \<noteq> [] then (s, (items, Some exc))
                  else let (s', switched) = record_primary_failure now' exc s
                       in if switched then try_backup s' else (s', ([], Some exc))
         else try_backup s)"

section \<open>Specification of a pass\<close>

definition ring_order :: "nat \<Rightarrow> nat \<Rightarrow> nat list" where
  "ring_order n start = map (\<lambda>offset. (start + offset) mod n) [0 ..< n]"

definition passed_over :: "(nat \<Rightarrow> api_error + 'a) \<Rightarrow> nat \<Rightarrow> bool" where
  "passed_over call idx =
     (case call idx of Inr _ \<Rightarrow> False | Inl e \<Rightarrow> \<not> is_fail_fast (classify_api_error e))"

definition failure_entry :: "string list \<Rightarrow> (nat \<Rightarrow> api_error + 'a) \<Rightarrow> nat \<Rightarrow> cred_error" where
  "failure_entry credential_ids call idx =
     (case call idx of Inl e \<Rightarrow> (credential_ids ! idx, classify_api_error e, e, idx)
      | Inr _ \<Rightarrow> (credential_ids ! idx, ERROR_CLASS_UNKNOWN, ApiError '''' False None, idx))"

text \<open>
  The request is decided by the first credential, in ring order from the start, that either
  serves it or fails for a reason that concerns the request.
\<close>

definition ring_spec :: "string list \<Rightarrow> (nat \<Rightarrow> api_error + 'a) \<Rightarrow> rat \<Rightarrow> nat list \<Rightarrow> cred_error list
    \<Rightarrow> ordered_credential_switcher \<Rightarrow> ordered_credential_switcher \<times> (api_error + 'a)" where
  "ring_spec credential_ids call now order acc sw =
     (case find (\<lambda>i. \<not> passed_over call i) order of
        None \<Rightarrow> (sw, Inl (AllCredentialsFailedError (acc @ map (failure_entry credential_ids call) order)))
      | Some i \<Rightarrow> (case call i of Inr r \<Rightarrow> (commit_success now i sw, Inr r) | Inl e \<Rightarrow> (sw, Inl e)))"

lemma ring_loop_spec:
  "ring_loop credential_ids call now start offsets acc sw =
     ring_spec credential_ids call now (map (\<lambda>offset. (start + offset) mod oc_n sw) offsets) acc sw"
proof (induction offsets arbitrary: acc)
  case (Cons offset offsets)
  show ?case
  proof (cases "call ((start + offset) mod oc_n sw)")
    case (Inl e)
    with Cons show ?thesis
      by (simp add: ring_spec_def passed_over_def failure_entry_def Let_def split: option.splits)
  qed (simp add: ring_spec_def passed_over_def)
qed (simp add: ring_spec_def)

lemma mod_add_inj:
  assumes "(a + i) mod n = (a + j) mod n" and "i < n" and "j < n"
  shows "i = (j :: nat)"
proof -
  have le: "x = y" if "(a + x) mod n = (a + y) mod n" "x \<le> y" "y < n" for x y
  proof -
    have "n dvd (a + y) - (a + x)" using that by (metis mod_eq_dvd_iff_nat add_le_cancel_left)
    with that show ?thesis by (auto dest: dvd_imp_le)
  qed
  show ?thesis
    using le [OF assms(1) _ assms(3)] le [OF assms(1) [symmetric] _ assms(2)] by (cases "i \<le> j") auto
qed

lemma distinct_ring_order: "distinct (ring_order n start)"
proof -
  have "inj_on (\<lambda>offset. (start + offset) mod n) (set [0 ..< n])"
    by (rule inj_onI) (auto dest: mod_add_inj)
  then show ?thesis by (simp add: ring_order_def distinct_map)
qed

lemma set_ring_order: "set (ring_order n start) = {..<n}"
proof (rule card_subset_eq)
  show "set (ring_order n start) \<subseteq> {..<n}" by (auto simp: ring_order_def)
  show "card (set (ring_order n start)) = card {..<n}"
    using distinct_card [OF distinct_ring_order, of n start] by (simp add: ring_order_def)
qed simp

lemma find_ring_None: "find P (ring_order n start) = None \<longleftrightarrow> (\<forall>i<n. \<not> P i)"
  by (auto simp: find_None_iff set_ring_order)

lemma find_ring_Some: "find P (ring_order n start) = Some i \<Longrightarrow> i < n \<and> P i"
  by (auto simp: find_Some_iff) (metis lessThan_iff nth_mem set_ring_order)

lemma embed_failover_eq:
  assumes "maybe_failback now now' (fe_switcher fe) = (sw, start)"
  shows "embed_with_failover call now now' now'' fe =
    (let (sw', out) = ring_spec (fe_credential_ids fe) call now'' (ring_order (oc_n sw) start) [] sw
     in (fe\<lparr>fe_switcher := sw'\<rparr>, out))"
  using assms by (simp add: embed_with_failover_def ring_loop_spec ring_order_def)

lemma embed_failover_inv [inv_intros]:
  assumes "switcher_inv (fe_switcher fe)"
  shows "switcher_inv (fe_switcher (fst (embed_with_failover call now now' now'' fe)))"
proof -
  obtain sw start where m: "maybe_failback now now' (fe_switcher fe) = (sw, start)" by force
  have "switcher_inv sw" using maybe_failback_inv [OF m assms] .
  then show ?thesis
    by (auto simp: embed_failover_eq [OF m] ring_spec_def intro!: commit_success_inv
        dest!: find_ring_Some split: option.splits sum.splits prod.splits)
qed

section \<open>Properties\<close>

text \<open>C10: failover serves what can be served. When some credential can serve the request and
  every failure is of the credential and not of the request, the call returns the result of
  the first serving credential in ring order, and that credential is the active one afterwards.\<close>

theorem failover_serves:
  assumes "switcher_inv (fe_switcher fe)" and "i < oc_n (fe_switcher fe)" and "call i = Inr r"
    and "\<And>j e. call j = Inl e \<Longrightarrow> \<not> is_fail_fast (classify_api_error e)"
  shows "\<exists>k < oc_n (fe_switcher fe). \<exists>r'. call k = Inr r'
    \<and> snd (embed_with_failover call now now' now'' fe) = Inr r'
    \<and> oc_active_idx (fe_switcher (fst (embed_with_failover call now now' now'' fe))) = k
    \<and> find (\<lambda>j. \<not> isl (call j)) (ring_order (oc_n (fe_switcher fe)) (snd (maybe_failback now now' (fe_switcher fe)))) = Some k"
proof -
  obtain sw start where m: "maybe_failback now now' (fe_switcher fe) = (sw, start)" by force
  have n: "oc_n sw = oc_n (fe_switcher fe)" using maybe_failback_idx [OF m] by simp
  have po: "(\<lambda>j. \<not> passed_over call j) = (\<lambda>j. \<not> isl (call j))"
    using assms(4) by (auto simp: passed_over_def fun_eq_iff isl_def split: sum.splits)
  obtain k where k: "find (\<lambda>j. \<not> isl (call j)) (ring_order (oc_n sw) start) = Some k"
    using assms(2,3) n by (cases "find (\<lambda>j. \<not> isl (call j)) (ring_order (oc_n sw) start)") (auto simp: find_ring_None)
  then obtain r' where "k < oc_n sw" "call k = Inr r'"
    using find_ring_Some [OF k] by (cases "call k") auto
  with k n show ?thesis
    by (auto simp: embed_failover_eq [OF m] m ring_spec_def po commit_success_active)
qed

definition demo_calls :: "nat \<Rightarrow> api_error + string" where
  "demo_calls i =
     (if i = 1 then Inr ''vector'' else Inl (ApiError ''Error code: 401 - unauthorized'' False None))"

definition demo_embedder :: failover_embedder where
  "demo_embedder = \<lparr>fe_credential_ids = [''a'', ''b'', ''c''],
     fe_switcher = \<lparr>oc_n = 3, oc_failback_timeout = 600, oc_failback_request_count = 50,
       oc_active_idx = 2, oc_last_switch_time = 0, oc_active_request_count = 1\<rparr>\<rparr>"

lemma demo_auth: "classify_api_error (ApiError ''Error code: 401 - unauthorized'' False None) = ERROR_CLASS_AUTH"
  by code_simp

theorem failover_serves_witness:
  "\<exists>k < 3. \<exists>r'. demo_calls k = Inr r' \<and> snd (embed_with_failover demo_calls 10 10 11 demo_embedder) = Inr r'"
proof -
  have "\<not> is_fail_fast (classify_api_error e)" if "demo_calls j = Inl e" for j e
    using that demo_auth by (auto simp: demo_calls_def is_fail_fast_def split: if_splits)
  moreover have "switcher_inv (fe_switcher demo_embedder)" "oc_n (fe_switcher demo_embedder) = 3"
    by (simp_all add: demo_embedder_def switcher_inv_def)
  moreover have "demo_calls 1 = Inr ''vector''" by (simp add: demo_calls_def)
  ultimately show ?thesis
    using failover_serves [of demo_embedder 1 demo_calls "''vector''" 10 10 11] by fastforce
qed

text \<open>exhaustion is reported completely. When no credential can serve the request and no
  failure concerns the request itself, the call raises the aggregate error, which lists every
  credential exactly once with its own error, in ring order, the active credential does not
  change, and the aggregate is not itself a reason to fail fast.\<close>

lemma failover_exhausted:
  assumes "switcher_inv (fe_switcher fe)"
    and "\<And>j. j < oc_n (fe_switcher fe) \<Longrightarrow> passed_over call j"
    and "maybe_failback now now' (fe_switcher fe) = (sw, start)"
  shows "\<exists>errors. embed_with_failover call now now' now'' fe =
       (fe\<lparr>fe_switcher := sw\<rparr>, Inl (AllCredentialsFailedError errors))
    \<and> map (\<lambda>(_, _, _, idx). idx) errors = ring_order (oc_n (fe_switcher fe)) start
    \<and> (\<forall>(cid, ec, e, idx) \<in> set errors. call idx = Inl e \<and> ec = classify_api_error e
         \<and> cid = fe_credential_ids fe ! idx)
    \<and> \<not> is_fail_fast (classify_api_error (AllCredentialsFailedError errors))"
proof -
  let ?order = "ring_order (oc_n (fe_switcher fe)) start"
  let ?errors = "map (failure_entry (fe_credential_ids fe) call) ?order"
  have n: "oc_n sw = oc_n (fe_switcher fe)" using maybe_failback_idx [OF assms(3)] by simp
  have "find (\<lambda>i. \<not> passed_over call i) ?order = None"
    using assms(2) by (simp add: find_ring_None)
  then have "embed_with_failover call now now' now'' fe =
       (fe\<lparr>fe_switcher := sw\<rparr>, Inl (AllCredentialsFailedError ?errors))"
    by (simp add: embed_failover_eq [OF assms(3)] ring_spec_def n)
  moreover have "map (\<lambda>(_, _, _, idx). idx) ?errors = ?order"
    by (rule nth_equalityI) (auto simp: failure_entry_def split: sum.splits)
  moreover have "\<forall>(cid, ec, e, idx) \<in> set ?errors. call idx = Inl e \<and> ec = classify_api_error e
         \<and> cid = fe_credential_ids fe ! idx"
    using assms(2) unfolding failure_entry_def passed_over_def
    by (fastforce simp: set_ring_order split: sum.splits)
  moreover have "\<not> is_fail_fast (classify_api_error (AllCredentialsFailedError ?errors))"
    by (simp add: is_fail_fast_def Let_def)
  ultimately show ?thesis by blast
qed

definition demo_denied :: "nat \<Rightarrow> api_error + string" where
  "demo_denied i = Inl (ApiError ''Error code: 401 - unauthorized'' False None)"

lemma stream_loop_single:
  assumes "stream_loop ids streams now start offsets acc sw = (sw', (items, end_err))" and "0 < oc_n sw"
  shows "(items = [] \<and> end_err \<noteq> None) \<or> (\<exists>k < oc_n sw. streams k = (items, end_err))"
  using assms
proof (induction offsets arbitrary: acc)
  case (Cons offset offsets)
  obtain its e where s: "streams ((start + offset) mod oc_n sw) = (its, e)" by force
  show ?case
  proof (cases "e = None \<or> its \<noteq> []")
    case True
    with Cons.prems s have "streams ((start + offset) mod oc_n sw) = (items, end_err)"
      by (auto split: option.splits if_splits simp: Let_def)
    with assms(2) show ?thesis by (metis mod_less_divisor)
  next
    case False
    with Cons s show ?thesis by (auto simp: Let_def split: if_splits)
  qed
qed auto

text \<open>a stream is never replayed. What a consumer of \<open>stream_with_failover\<close> receives, items and
  end, is the run of one single credential, unless nothing was delivered and an error is raised: the
  output of two credentials is never mixed.\<close>

lemma stream_not_replayed:
  assumes "switcher_inv (mv_switcher mv)"
    and "mc_stream_with_failover streams now now' now'' mv = (mv', (items, end_err))"
  shows "(items = [] \<and> end_err \<noteq> None) \<or> (\<exists>k < oc_n (mv_switcher mv). streams k = (items, end_err))"
proof -
  obtain sw start where m: "maybe_failback now now' (mv_switcher mv) = (sw, start)" by force
  have n: "oc_n sw = oc_n (mv_switcher mv)" using maybe_failback_idx [OF m] by simp
  obtain sw' where "stream_loop (mv_credential_ids mv) streams now'' start [0 ..< oc_n sw] [] sw = (sw', (items, end_err))"
    using assms(2) by (auto simp: mc_stream_with_failover_def m split: prod.splits)
  from stream_loop_single [OF this] show ?thesis
    using n assms(1) by (auto simp: switcher_inv_def)
qed

definition demo_vlm :: multi_credential_vlm where
  "demo_vlm = \<lparr>mv_credential_ids = [''a'', ''b''],
     mv_switcher = \<lparr>oc_n = 2, oc_failback_timeout = 600, oc_failback_request_count = 50,
       oc_active_idx = 0, oc_last_switch_time = 0, oc_active_request_count = 0\<rparr>\<rparr>"

definition demo_streams :: "nat \<Rightarrow> string stream_run" where
  "demo_streams k = (if k = 0 then ([], Some (ApiError ''HTTP 503'' False None)) else ([''x'', ''y''], None))"

lemma demo_transient: "classify_api_error (ApiError ''HTTP 503'' False None) = ERROR_CLASS_TRANSIENT"
  by code_simp

lemma demo_stream_run:
  "snd (mc_stream_with_failover demo_streams 1 1 2 demo_vlm) = ([''x'', ''y''], None)"
  by (simp add: mc_stream_with_failover_def maybe_failback_def demo_vlm_def upt_rec demo_streams_def
      demo_transient is_fail_fast_def del: classify_api_error.simps)

lemma media_loop_sticky:
  "\<not> supports start \<Longrightarrow>
     fst (media_loop ids supports call now start offsets errors attempted False sw) = sw"
  by (induction offsets arbitrary: errors attempted)
    (auto simp: Let_def split: sum.splits)

text \<open>Capability routing keeps the active credential. When the active credential does not
  support the media input, a media call never changes which credential text and vision calls
  use, whatever the other credentials do.\<close>

lemma media_routing_sticky:
  assumes "maybe_failback now now' (mv_switcher mv) = (sw, start)" and "\<not> supports start"
  shows "mv_switcher (fst (mc_get_media_completion_async supports call now now' now'' mv)) = sw"
  using media_loop_sticky [where supports = supports and start = start and sw = sw, OF assms(2)]
  by (simp add: mc_get_media_completion_async_def assms(1) case_prod_unfold Let_def)

text \<open>a failback that meets a transient error. When the switcher is on the backup, the failback
  threshold is reached and the primary fails with an error that is neither permanent, auth
  nor quota, the error is raised although a backup is available, and the switcher is
  unchanged: neither the timer nor the counter is reset, so the next request tries the primary again.\<close>

lemma failback_transient_error:
  assumes "pb_using_backup s" and "should_try_primary now s"
    and "classify_api_error e \<in> {ERROR_CLASS_TRANSIENT, ERROR_CLASS_UNKNOWN, ERROR_CLASS_INPUT_TOO_LARGE, ERROR_CLASS_CONTENT_SAFETY}"
    and "now \<le> later"
  shows "pb_get_completion_with_failover (Inl e) backup now now' s = (s, Inl e)
    \<and> should_try_primary later s"
  using assms
  by (auto simp: pb_get_completion_with_failover_def record_primary_failure_def should_try_primary_def
      split: if_splits)

end
