(* ===== verification/Circuit_Breaker.thy ===== *)
theory Circuit_Breaker
  imports Model_Retry
begin

text \<open>
  The circuit breaker, \<open>openviking/utils/circuit_breaker.py\<close>. Every method holds the lock for its
  whole body, so concurrent use is an interleaving of whole operations; the value of
  \<open>time.monotonic()\<close> is an argument.
\<close>

datatype breaker_state = STATE_CLOSED | STATE_OPEN | STATE_HALF_OPEN

record circuit_breaker =
  cb_failure_threshold :: int
  cb_reset_timeout :: rat
  cb_base_reset_timeout :: rat
  cb_max_reset_timeout :: rat
  cb_current_reset_timeout :: rat
  cb_state :: breaker_state
  cb_failure_count :: int
  cb_last_failure_time :: rat

definition init_breaker :: "int \<Rightarrow> rat \<Rightarrow> rat option \<Rightarrow> circuit_breaker" where
  "init_breaker failure_threshold reset_timeout max_reset_timeout =
     \<lparr>cb_failure_threshold = failure_threshold, cb_reset_timeout = reset_timeout,
      cb_base_reset_timeout = reset_timeout,
      cb_max_reset_timeout = (case max_reset_timeout of None \<Rightarrow> reset_timeout | Some t \<Rightarrow> t),
      cb_current_reset_timeout = reset_timeout, cb_state = STATE_CLOSED,
      cb_failure_count = 0, cb_last_failure_time = 0\<rparr>"

definition check :: "rat \<Rightarrow> circuit_breaker \<Rightarrow> circuit_breaker \<times> unit res" where
  "check now b =
     (if cb_state b = STATE_CLOSED then (b, Inr ())
      else if cb_state b = STATE_HALF_OPEN then (b, Inr ())
      else
        let elapsed = now - cb_last_failure_time b
        in if elapsed \<ge> cb_current_reset_timeout b then (b\<lparr>cb_state := STATE_HALF_OPEN\<rparr>, Inr ())
           else (b, Inl CircuitBreakerOpen))"

definition retry_after :: "rat \<Rightarrow> circuit_breaker \<Rightarrow> rat" where
  "retry_after now b =
     (if cb_state b \<noteq> STATE_OPEN then 0
      else
        let remaining = cb_current_reset_timeout b - (now - cb_last_failure_time b)
        in min (max remaining 0) 30)"

definition record_success :: "circuit_breaker \<Rightarrow> circuit_breaker" where
  "record_success b =
     b\<lparr>cb_failure_count := 0, cb_state := STATE_CLOSED,
       cb_current_reset_timeout := cb_base_reset_timeout b\<rparr>"

definition record_failure :: "rat \<Rightarrow> api_error \<Rightarrow> circuit_breaker \<Rightarrow> circuit_breaker" where
  "record_failure now error b =
     (let error_class = classify_api_error error
      in if error_class = ERROR_CLASS_INPUT_TOO_LARGE then b
         else
           let b' = b\<lparr>cb_failure_count := cb_failure_count b + 1, cb_last_failure_time := now\<rparr>
           in if cb_state b' = STATE_HALF_OPEN
              then b'\<lparr>cb_state := STATE_OPEN,
                cb_current_reset_timeout := min (cb_current_reset_timeout b' * 2) (cb_max_reset_timeout b')\<rparr>
              else if error_class \<in> {ERROR_CLASS_PERMANENT, ERROR_CLASS_AUTH, ERROR_CLASS_QUOTA_EXCEEDED}
              then b'\<lparr>cb_state := STATE_OPEN, cb_current_reset_timeout := cb_base_reset_timeout b'\<rparr>
              else if cb_failure_count b' \<ge> cb_failure_threshold b'
              then b'\<lparr>cb_state := STATE_OPEN, cb_current_reset_timeout := cb_base_reset_timeout b'\<rparr>
              else b')"

section \<open>Runs of the breaker\<close>

datatype breaker_op = Check rat | Success | Failure rat api_error

fun apply_op :: "breaker_op \<Rightarrow> circuit_breaker \<Rightarrow> circuit_breaker" where
  "apply_op (Check now) b = fst (check now b)"
| "apply_op Success b = record_success b"
| "apply_op (Failure now e) b = record_failure now e b"

definition breaker_inv :: "circuit_breaker \<Rightarrow> bool" where
  "breaker_inv b \<longleftrightarrow>
     (cb_state b = STATE_CLOSED \<longrightarrow> cb_failure_count b < cb_failure_threshold b)
     \<and> cb_base_reset_timeout b \<le> cb_current_reset_timeout b
     \<and> cb_current_reset_timeout b \<le> cb_max_reset_timeout b
     \<and> 0 \<le> cb_base_reset_timeout b \<and> cb_base_reset_timeout b \<le> cb_max_reset_timeout b
     \<and> 1 \<le> cb_failure_threshold b \<and> 0 \<le> cb_failure_count b"

lemma init_breaker_inv [inv_intros]:
  "1 \<le> threshold \<Longrightarrow> 0 \<le> reset \<Longrightarrow> (\<forall>t. max_reset = Some t \<longrightarrow> reset \<le> t) \<Longrightarrow>
     breaker_inv (init_breaker threshold reset max_reset)"
  by (auto simp: breaker_inv_def init_breaker_def split: option.splits)

lemma check_inv [inv_intros]: "breaker_inv b \<Longrightarrow> breaker_inv (fst (check now b))"
  by (auto simp: breaker_inv_def check_def Let_def)

lemma record_success_inv [inv_intros]: "breaker_inv b \<Longrightarrow> breaker_inv (record_success b)"
  by (auto simp: breaker_inv_def record_success_def)

lemma record_failure_inv [inv_intros]: "breaker_inv b \<Longrightarrow> breaker_inv (record_failure now e b)"
  by (auto simp: breaker_inv_def record_failure_def Let_def min_def)

lemma apply_op_inv [inv_intros]: "breaker_inv b \<Longrightarrow> breaker_inv (apply_op op b)"
  by (cases op) (auto intro: inv_intros)

lemma fold_ops_inv: "breaker_inv b \<Longrightarrow> breaker_inv (fold apply_op ops b)"
  by (induction ops arbitrary: b) (auto intro: apply_op_inv)

lemma apply_op_threshold [simp]: "cb_failure_threshold (apply_op op b) = cb_failure_threshold b"
  by (cases op) (auto simp: check_def record_success_def record_failure_def Let_def)

text \<open>A failure that counts leaves the breaker open or one failure closer to its threshold.\<close>

lemma counted_failure:
  "classify_api_error e \<noteq> ERROR_CLASS_INPUT_TOO_LARGE \<Longrightarrow> breaker_inv b \<Longrightarrow>
     cb_state (record_failure now e b) = STATE_OPEN
     \<or> (cb_state b = STATE_CLOSED \<and> cb_state (record_failure now e b) = STATE_CLOSED
        \<and> cb_failure_count (record_failure now e b) = cb_failure_count b + 1)
     \<or> cb_state b = STATE_OPEN"
  by (cases "cb_state b") (auto simp: record_failure_def Let_def)

lemma open_stays_open:
  "cb_state b = STATE_OPEN \<Longrightarrow> cb_state (record_failure now e b) = STATE_OPEN"
  by (auto simp: record_failure_def Let_def)

lemma fold_failures:
  "fold (\<lambda>(now, e). record_failure now e) fs b = fold apply_op (map (\<lambda>(now, e). Failure now e) fs) b"
  by (induction fs arbitrary: b) auto

lemma failures_open_or_count:
  assumes "breaker_inv b" and "\<forall>(now, e) \<in> set fs. classify_api_error e \<noteq> ERROR_CLASS_INPUT_TOO_LARGE"
  shows "cb_state (fold (\<lambda>(now, e). record_failure now e) fs b) = STATE_OPEN
    \<or> (fs = [] \<or> cb_state b = STATE_CLOSED)
      \<and> cb_state (fold (\<lambda>(now, e). record_failure now e) fs b) = cb_state b
      \<and> cb_failure_count (fold (\<lambda>(now, e). record_failure now e) fs b) = cb_failure_count b + int (length fs)"
  using assms
proof (induction fs rule: rev_induct)
  case (snoc f fs)
  obtain now e where f: "f = (now, e)" by force
  let ?b = "fold (\<lambda>(now, e). record_failure now e) fs b"
  have inv: "breaker_inv ?b"
    unfolding fold_failures by (rule fold_ops_inv [OF snoc.prems(1)])
  show ?case
  proof (cases "cb_state ?b = STATE_OPEN")
    case True
    then show ?thesis by (simp add: f open_stays_open)
  next
    case False
    with snoc have "cb_state ?b = cb_state b" "cb_failure_count ?b = cb_failure_count b + int (length fs)"
      by auto
    with counted_failure [OF _ inv, of e now] snoc.prems(2) False show ?thesis
      by (auto simp: f)
  qed
qed simp

section \<open>Properties\<close>

text \<open>Invariant of the breaker. After any sequence of checks, successes and failures, at any
  times and with any errors, a closed breaker has seen fewer consecutive counted failures than the
  threshold, and the current reset timeout lies between the base and the maximum.\<close>

lemma breaker_invariant:
  assumes "1 \<le> threshold" and "0 \<le> reset" and "reset \<le> max_reset"
  shows "let b = fold apply_op ops (init_breaker threshold reset (Some max_reset))
    in (cb_state b = STATE_CLOSED \<longrightarrow> cb_failure_count b < cb_failure_threshold b)
       \<and> reset \<le> cb_current_reset_timeout b \<and> cb_current_reset_timeout b \<le> max_reset"
proof -
  let ?b0 = "init_breaker threshold reset (Some max_reset)"
  have "breaker_inv (fold apply_op ops ?b0)"
    using assms by (intro fold_ops_inv init_breaker_inv) auto
  moreover have "cb_base_reset_timeout (fold apply_op ops b) = cb_base_reset_timeout b
      \<and> cb_max_reset_timeout (fold apply_op ops b) = cb_max_reset_timeout b" for b
  proof (induction ops arbitrary: b)
    case (Cons op ops)
    then show ?case
      by (cases op) (auto simp: check_def record_success_def record_failure_def Let_def)
  qed simp
  ultimately show ?thesis
    by (simp add: breaker_inv_def init_breaker_def Let_def)
qed

text \<open>C29: the breaker trips and protects. From any state of a breaker, after as many consecutive
  failures as the threshold, none of them caused by the size of the input, the breaker is open, and
  every check before the reset timeout has elapsed raises and changes nothing.\<close>

theorem breaker_trips:
  assumes "breaker_inv b" and "fs \<noteq> []" and "int (length fs) \<ge> cb_failure_threshold b"
    and "\<forall>(now, e) \<in> set fs. classify_api_error e \<noteq> ERROR_CLASS_INPUT_TOO_LARGE"
    and "b' = fold (\<lambda>(now, e). record_failure now e) fs b"
  shows "cb_state b' = STATE_OPEN
    \<and> (now < cb_last_failure_time b' + cb_current_reset_timeout b' \<longrightarrow> check now b' = (b', Inl CircuitBreakerOpen))"
proof -
  have inv: "breaker_inv b'" and th: "cb_failure_threshold b' = cb_failure_threshold b"
  proof -
    have fo: "b' = fold apply_op (map (\<lambda>(now, e). Failure now e) fs) b"
      by (simp only: assms(5) fold_failures)
    show "breaker_inv b'" unfolding fo by (rule fold_ops_inv [OF assms(1)])
    have "cb_failure_threshold (fold apply_op ops c) = cb_failure_threshold c" for ops c
      by (induction ops arbitrary: c) auto
    then show "cb_failure_threshold b' = cb_failure_threshold b" unfolding fo .
  qed
  have "cb_state b' = STATE_OPEN"
  proof (rule ccontr)
    assume ne: "cb_state b' \<noteq> STATE_OPEN"
    with failures_open_or_count [OF assms(1,4)] assms(2,5)
    have "cb_state b' = STATE_CLOSED" "cb_failure_count b' = cb_failure_count b + int (length fs)" by auto
    with inv assms(1,3) th show False by (simp add: breaker_inv_def)
  qed
  then show ?thesis by (simp add: check_def Let_def)
qed

theorem breaker_trips_witness:
  "cb_state (fold (\<lambda>(now, e). record_failure now e)
      [(1, ApiError ''boom'' False None), (2, ApiError ''boom'' False None)] (init_breaker 2 10 None)) = STATE_OPEN"
proof -
  have c: "classify_api_error (ApiError ''boom'' False None) = ERROR_CLASS_UNKNOWN" by code_simp
  have "breaker_inv (init_breaker 2 10 None)" by (rule init_breaker_inv) auto
  then show ?thesis
    using breaker_trips [where fs = "[(1, ApiError ''boom'' False None), (2, ApiError ''boom'' False None)]"
        and b = "init_breaker 2 10 None", OF _ _ _ _ refl] c
    by (simp add: init_breaker_def del: classify_api_error.simps)
qed

text \<open>How many probes a half-open breaker lets through. Once the reset timeout has elapsed, the first
  check turns the breaker half-open and every further check passes too, for as long as no
  outcome is recorded: nothing limits the requests to one probe.\<close>

lemma half_open_admits_all:
  assumes "cb_state b = STATE_OPEN" and "cb_last_failure_time b + cb_current_reset_timeout b \<le> now"
  shows "check now b = (b\<lparr>cb_state := STATE_HALF_OPEN\<rparr>, Inr ())
    \<and> (\<forall>later. check later (fst (check now b)) = (fst (check now b), Inr ()))"
proof -
  have "check now b = (b\<lparr>cb_state := STATE_HALF_OPEN\<rparr>, Inr ())"
    using assms by (auto simp: check_def Let_def algebra_simps)
  then show ?thesis by (simp add: check_def)
qed

end
