(* ===== verification/Token_Estimation.thy ===== *)
theory Token_Estimation
  imports Py_Prelude Complex_Main "HOL-Library.Sublist"
begin

text \<open>
  The shared token estimator and the text truncation built on it,
  \<open>openviking/utils/token_estimation.py\<close>. A text is the list of its code points. The weights are
  multiples of a quarter, so the float sums of the code are exact and a rational models them.
\<close>

type_synonym utext = "nat list"

definition is_cjk_code_point :: "nat \<Rightarrow> bool" where
  "is_cjk_code_point code_point \<longleftrightarrow>
     (0x3400 \<le> code_point \<and> code_point \<le> 0x4DBF)
     \<or> (0x4E00 \<le> code_point \<and> code_point \<le> 0x9FFF)
     \<or> (0xF900 \<le> code_point \<and> code_point \<le> 0xFAFF)
     \<or> (0x20000 \<le> code_point \<and> code_point \<le> 0x2EBEF)
     \<or> (0x3040 \<le> code_point \<and> code_point \<le> 0x30FF)
     \<or> (0x31F0 \<le> code_point \<and> code_point \<le> 0x31FF)
     \<or> (0xAC00 \<le> code_point \<and> code_point \<le> 0xD7AF)
     \<or> (0x1100 \<le> code_point \<and> code_point \<le> 0x11FF)
     \<or> (0x3130 \<le> code_point \<and> code_point \<le> 0x318F)
     \<or> (0xFF00 \<le> code_point \<and> code_point \<le> 0xFFEF)
     \<or> (0x3000 \<le> code_point \<and> code_point \<le> 0x303F)"

definition code_point_weight :: "nat \<Rightarrow> rat" where
  "code_point_weight code_point =
     (if is_cjk_code_point code_point then 3/2
      else if code_point > 0xFFFF then 2
      else 1/4)"

definition estimate_text_tokens :: "utext \<Rightarrow> int" where
  "estimate_text_tokens text =
     (if text = [] then 0 else \<lceil>sum_list (map code_point_weight text)\<rceil>)"

text \<open>\<open>str.isspace\<close> on code points, the characters that \<open>rstrip()\<close> and \<open>lstrip()\<close> remove.\<close>

definition is_space_cp :: "nat \<Rightarrow> bool" where
  "is_space_cp n \<longleftrightarrow>
     (9 \<le> n \<and> n \<le> 13) \<or> (28 \<le> n \<and> n \<le> 32) \<or> n = 0x85 \<or> n = 0xA0 \<or> n = 0x1680
     \<or> (0x2000 \<le> n \<and> n \<le> 0x200A) \<or> n = 0x2028 \<or> n = 0x2029 \<or> n = 0x202F \<or> n = 0x205F \<or> n = 0x3000"

definition lstrip_text :: "utext \<Rightarrow> utext" where
  "lstrip_text t = dropWhile is_space_cp t"

definition rstrip_text :: "utext \<Rightarrow> utext" where
  "rstrip_text t = rev (dropWhile is_space_cp (rev t))"

section \<open>Binary search for the last index\<close>

text \<open>The loop of \<open>_prefix_length\<close>, with its test as a parameter.\<close>

function search_last :: "(nat \<Rightarrow> bool) \<Rightarrow> nat \<Rightarrow> nat \<Rightarrow> nat" where
  "search_last fits low high =
     (if low < high then
        let mid = (low + high + 1) div 2
        in if fits mid then search_last fits mid high else search_last fits low (mid - 1)
      else low)"
  by pat_completeness auto
termination
  by (relation "measure (\<lambda>(_, low, high). high - low)") auto

declare search_last.simps [simp del]

definition prefix_length :: "utext \<Rightarrow> int \<Rightarrow> nat" where
  "prefix_length value budget =
     search_last (\<lambda>mid. estimate_text_tokens (take mid value) \<le> budget) 0 (length value)"

definition default_marker :: utext where
  "default_marker = [10, 0x2026, 10]"

definition truncate_text_to_token_budget :: "utext \<Rightarrow> int \<Rightarrow> utext \<Rightarrow> rat \<Rightarrow> utext" where
  "truncate_text_to_token_budget text max_tokens marker head_ratio =
     (if text = [] \<or> estimate_text_tokens text \<le> max_tokens then text
      else if max_tokens \<le> 0 then []
      else
        let (marker, marker_tokens) =
              (if estimate_text_tokens marker \<ge> max_tokens then ([], 0)
               else (marker, estimate_text_tokens marker));
            content_tokens = max_tokens - marker_tokens;
            bounded_head_ratio = min (max head_ratio 0) 1;
            head_tokens = \<lfloor>of_int content_tokens * bounded_head_ratio\<rfloor>;
            tail_tokens = content_tokens - head_tokens;
            head_end = prefix_length text head_tokens;
            remaining = drop head_end text;
            tail_length = prefix_length (rev remaining) tail_tokens;
            tail = (if tail_length \<noteq> 0 then drop (length remaining - tail_length) remaining else [])
        in rstrip_text (take head_end text) @ marker @ lstrip_text tail)"

section \<open>Search in a downward closed predicate\<close>

text \<open>
  The contract of the test of a binary search for the last index: it holds at 0, and where it holds
  it holds everywhere before.
\<close>

locale downward_closed =
  fixes fits :: "nat \<Rightarrow> bool"
  assumes fits_zero: "fits 0"
    and fits_down: "fits j \<Longrightarrow> i \<le> j \<Longrightarrow> fits i"
begin

lemma search_last_spec:
  "low \<le> high \<Longrightarrow> fits low \<Longrightarrow>
     low \<le> search_last fits low high \<and> search_last fits low high \<le> high
     \<and> fits (search_last fits low high)
     \<and> (\<forall>k. search_last fits low high < k \<and> k \<le> high \<longrightarrow> \<not> fits k)"
proof (induction "high - low" arbitrary: low high rule: less_induct)
  case less
  let ?mid = "(low + high + 1) div 2"
  show ?case
  proof (cases "low < high")
    case False
    with less.prems show ?thesis by (subst (1 2 3 4) search_last.simps) auto
  next
    case True
    then have mid: "low < ?mid" "?mid \<le> high" by linarith+
    show ?thesis
    proof (cases "fits ?mid")
      case t: True
      have "search_last fits low high = search_last fits ?mid high"
        using True t by (subst search_last.simps) simp
      moreover have "high - ?mid < high - low" using mid True by linarith
      ultimately show ?thesis using less.hyps [of high ?mid] t mid by auto
    next
      case f: False
      have eq: "search_last fits low high = search_last fits low (?mid - 1)"
        using True f by (subst search_last.simps) simp
      have "low \<le> ?mid - 1" "(?mid - 1) - low < high - low" using mid by linarith+
      then have IH: "low \<le> search_last fits low (?mid - 1) \<and> search_last fits low (?mid - 1) \<le> ?mid - 1
          \<and> fits (search_last fits low (?mid - 1))
          \<and> (\<forall>k. search_last fits low (?mid - 1) < k \<and> k \<le> ?mid - 1 \<longrightarrow> \<not> fits k)"
        using less.hyps less.prems(2) by blast
      have "\<not> fits k" if "?mid \<le> k" for k using f fits_down that by blast
      then have "\<not> fits k" if "search_last fits low (?mid - 1) < k" for k
        using IH that by (cases "k \<le> ?mid - 1") auto
      moreover have "?mid - 1 \<le> high" using mid by linarith
      ultimately show ?thesis unfolding eq using IH by (blast intro: order_trans)
    qed
  qed
qed

lemma search_last_greatest:
  "k \<le> n \<Longrightarrow> fits k \<Longrightarrow> k \<le> search_last fits 0 n"
  using search_last_spec [of 0 n] fits_zero by (meson le0 not_le)

lemma search_last_fits: "fits (search_last fits 0 n)" and search_last_le: "search_last fits 0 n \<le> n"
  using search_last_spec [of 0 n] fits_zero by auto

end

section \<open>The estimator\<close>

lemma code_point_weight_pos: "0 < code_point_weight c"
  by (simp add: code_point_weight_def)

lemma weight_nonneg: "0 \<le> sum_list (map code_point_weight t)"
  by (rule sum_list_nonneg) (auto intro: less_imp_le code_point_weight_pos)

lemma estimate_text_tokens_ceiling: "estimate_text_tokens t = \<lceil>sum_list (map code_point_weight t)\<rceil>"
  by (simp add: estimate_text_tokens_def)

lemma estimate_Nil [simp]: "estimate_text_tokens [] = 0"
  by (simp add: estimate_text_tokens_def)

lemma estimate_nonneg [simp]: "0 \<le> estimate_text_tokens t"
  using weight_nonneg [of t] by (simp add: estimate_text_tokens_ceiling order_trans [OF _ le_of_int_ceiling])

lemma estimate_append_le: "estimate_text_tokens (a @ b) \<le> estimate_text_tokens a + estimate_text_tokens b"
  by (simp add: estimate_text_tokens_ceiling ceiling_add_le)

lemma estimate_sublist_le: "sublist a b \<Longrightarrow> estimate_text_tokens a \<le> estimate_text_tokens b"
  using weight_nonneg by (auto simp: sublist_def estimate_text_tokens_ceiling intro!: ceiling_mono add_increasing add_increasing2)

lemma estimate_rev [simp]: "estimate_text_tokens (rev t) = estimate_text_tokens t"
  by (simp add: estimate_text_tokens_ceiling rev_map [symmetric])

lemma estimate_take_mono: "i \<le> j \<Longrightarrow> estimate_text_tokens (take i t) \<le> estimate_text_tokens (take j t)"
  by (rule estimate_sublist_le) (metis min.absorb1 prefix_imp_sublist take_is_prefix take_take)

interpretation prefix_fit: downward_closed "\<lambda>mid. estimate_text_tokens (take mid value) \<le> int budget"
  for "value" :: utext and budget :: nat
proof unfold_locales
  show "estimate_text_tokens (take 0 value) \<le> int budget" by (simp add: estimate_text_tokens_def)
  show "estimate_text_tokens (take i value) \<le> int budget"
    if "estimate_text_tokens (take j value) \<le> int budget" "i \<le> j" for i j
    using estimate_take_mono [OF that(2)] that(1) by (rule order_trans)
qed

lemma prefix_length_fits: "0 \<le> b \<Longrightarrow> estimate_text_tokens (take (prefix_length v b) v) \<le> b"
  using prefix_fit.search_last_fits [of v "nat b" "length v"] by (simp add: prefix_length_def)

lemma prefix_length_greatest:
  "0 \<le> b \<Longrightarrow> k \<le> length v \<Longrightarrow> estimate_text_tokens (take k v) \<le> b \<Longrightarrow> k \<le> prefix_length v b"
  using prefix_fit.search_last_greatest [of k "length v" v "nat b"] by (simp add: prefix_length_def)

lemma prefix_length_le: "0 \<le> b \<Longrightarrow> prefix_length v b \<le> length v"
  using prefix_fit.search_last_le [of v "nat b" "length v"] by (simp add: prefix_length_def)

lemma suffix_lstrip_text: "suffix (lstrip_text t) t"
  by (simp add: lstrip_text_def suffix_dropWhile)

lemma prefix_rstrip_text: "prefix (rstrip_text t) t"
  using suffix_dropWhile [of is_space_cp "rev t"] by (simp add: rstrip_text_def suffix_to_prefix)

text \<open>The tail that the code cuts is the reversal of a fitting prefix of the reversed remainder.\<close>

lemma tail_cut:
  assumes "0 \<le> b"
  shows "estimate_text_tokens (drop (length r - prefix_length (rev r) b) r) \<le> b"
proof -
  have "drop (length r - prefix_length (rev r) b) r = rev (take (prefix_length (rev r) b) (rev r))"
    by (simp add: take_rev)
  with prefix_length_fits [OF assms, of "rev r"] show ?thesis by simp
qed

lemma head_tokens_bounds:
  assumes "0 \<le> (c :: int)"
  shows "0 \<le> \<lfloor>of_int c * min (max h 0) 1 :: rat\<rfloor>" and "\<lfloor>of_int c * min (max h 0) 1 :: rat\<rfloor> \<le> c"
proof -
  have b: "0 \<le> min (max h 0) (1::rat)" "min (max h 0) (1::rat) \<le> 1" by auto
  then show "0 \<le> \<lfloor>of_int c * min (max h 0) 1 :: rat\<rfloor>" using assms by simp
  have "of_int c * min (max h 0) 1 \<le> (of_int c :: rat)" using assms b by (intro mult_left_le) auto
  then show "\<lfloor>of_int c * min (max h 0) 1 :: rat\<rfloor> \<le> c" by linarith
qed

text \<open>The shape of every truncation, in the names of the code.\<close>

lemma truncate_shape:
  assumes "text \<noteq> []" and "estimate_text_tokens text > max_tokens" and "0 < max_tokens"
  obtains h t m where
    "truncate_text_to_token_budget text max_tokens marker head_ratio = h @ m @ t"
    "prefix h text" "suffix t text" "m = marker \<or> m = []"
    "estimate_text_tokens h + estimate_text_tokens m + estimate_text_tokens t \<le> max_tokens"
proof -
  define m where "m = (if estimate_text_tokens marker \<ge> max_tokens then [] else marker)"
  define c where "c = max_tokens - estimate_text_tokens m"
  define ht where "ht = \<lfloor>of_int c * min (max head_ratio 0) 1 :: rat\<rfloor>"
  define hd_end where "hd_end = prefix_length text ht"
  define r where "r = drop hd_end text"
  define tl_len where "tl_len = prefix_length (rev r) (c - ht)"
  define tail where "tail = (if tl_len \<noteq> 0 then drop (length r - tl_len) r else [])"
  have c: "0 \<le> c" using assms(3) by (auto simp: c_def m_def)
  note ht = head_tokens_bounds [OF c, of head_ratio, folded ht_def]
  have eq: "truncate_text_to_token_budget text max_tokens marker head_ratio =
      rstrip_text (take hd_end text) @ m @ lstrip_text tail"
    using assms
    by (simp add: truncate_text_to_token_budget_def Let_def m_def c_def ht_def hd_end_def r_def tl_len_def
        tail_def)
  have "estimate_text_tokens (rstrip_text (take hd_end text)) \<le> estimate_text_tokens (take hd_end text)"
    "estimate_text_tokens (lstrip_text tail) \<le> estimate_text_tokens tail"
    by (auto intro: estimate_sublist_le prefix_rstrip_text suffix_lstrip_text)
  moreover have "estimate_text_tokens (take hd_end text) \<le> ht"
    using ht(1) by (simp add: hd_end_def prefix_length_fits)
  moreover have "estimate_text_tokens tail \<le> c - ht"
    using ht tail_cut [of "c - ht" r] by (simp add: tail_def tl_len_def)
  ultimately have "estimate_text_tokens (rstrip_text (take hd_end text)) + estimate_text_tokens m
      + estimate_text_tokens (lstrip_text tail) \<le> max_tokens"
    by (simp add: c_def)
  moreover have "prefix (rstrip_text (take hd_end text)) text"
    using prefix_rstrip_text take_is_prefix prefix_order.trans by blast
  moreover have "suffix (lstrip_text tail) text"
  proof -
    have "suffix tail text" unfolding tail_def r_def by (auto simp: suffix_drop suffix_order.trans [OF suffix_drop suffix_drop])
    then show ?thesis using suffix_lstrip_text suffix_order.trans by blast
  qed
  moreover have "m = marker \<or> m = []" by (simp add: m_def)
  ultimately show thesis using that eq by blast
qed

section \<open>Properties\<close>

lemma truncate_split:
  "estimate_text_tokens (truncate_text_to_token_budget text max_tokens marker head_ratio) \<le> max 0 max_tokens
   \<and> (if estimate_text_tokens text \<le> max_tokens
      then truncate_text_to_token_budget text max_tokens marker head_ratio = text
      else \<exists>h m t. truncate_text_to_token_budget text max_tokens marker head_ratio = h @ m @ t
        \<and> prefix h text \<and> suffix t text \<and> (m = marker \<or> m = []))"
proof (cases "text = [] \<or> estimate_text_tokens text \<le> max_tokens \<or> max_tokens \<le> 0")
  case True
  then show ?thesis
    using estimate_nonneg [of "text"] by (auto simp: truncate_text_to_token_budget_def)
next
  case False
  then obtain h t m where s:
    "truncate_text_to_token_budget text max_tokens marker head_ratio = h @ m @ t"
    "prefix h text" "suffix t text" "m = marker \<or> m = []"
    "estimate_text_tokens h + estimate_text_tokens m + estimate_text_tokens t \<le> max_tokens"
    using truncate_shape [of "text" max_tokens marker head_ratio] by (metis not_le)
  have "estimate_text_tokens (h @ m @ t) \<le> max_tokens"
    using estimate_append_le [of h "m @ t"] estimate_append_le [of m t] s(5) by linarith
  with s False show ?thesis by auto
qed


text \<open>C32: truncation keeps the budget. For every text, marker and head ratio the result costs at
  most the budget (nothing for a budget that is not positive); a text that fits is returned
  unchanged, and otherwise the result is a prefix of the text, the marker or nothing, and a suffix of the text.\<close>

theorem truncate_within_budget:
  "estimate_text_tokens (truncate_text_to_token_budget text max_tokens marker head_ratio) \<le> max 0 max_tokens
   \<and> (if estimate_text_tokens text \<le> max_tokens
      then truncate_text_to_token_budget text max_tokens marker head_ratio = text
      else \<exists>h m t. truncate_text_to_token_budget text max_tokens marker head_ratio = h @ m @ t
        \<and> prefix h text \<and> suffix t text \<and> (m = marker \<or> m = []))"
  by (rule truncate_split)

end
