(* ===== verification/Message.thy ===== *)
theory Message
  imports Token_Estimation
begin

text \<open>
  Messages and their parts, \<open>openviking/message/message.py\<close> and \<open>openviking/message/part.py\<close>. Bodies are
  texts of code points, identifiers are strings. A message carries the identity of its object,
  since the retention code indexes messages by \<open>id(message)\<close>. The text that \<open>json.dumps\<close> gives for a tool
  input is computed by \<open>dumps\<close>; a float is kept as its \<open>repr\<close>.
\<close>

definition cps :: "string \<Rightarrow> utext" where
  "cps s = map of_char s"

datatype json =
    JNull
  | JBool bool
  | JInt int
  | JFloat utext
  | JStr utext
  | JList "json list"
  | JDict "(utext \<times> json) list"

section \<open>\<open>json.dumps\<close> with \<open>ensure_ascii=False\<close>\<close>

fun digits :: "nat \<Rightarrow> utext" where
  "digits n = (if n < 10 then [48 + n] else digits (n div 10) @ [48 + n mod 10])"

declare digits.simps [simp del]

definition int_text :: "int \<Rightarrow> utext" where
  "int_text i = (if i < 0 then 45 # digits (nat (- i)) else digits (nat i))"

definition hex_digit :: "nat \<Rightarrow> nat" where
  "hex_digit d = (if d < 10 then 48 + d else 87 + d)"

definition escape_cp :: "nat \<Rightarrow> utext" where
  "escape_cp c =
     (if c = 34 then [92, 34] else if c = 92 then [92, 92]
      else if c = 10 then [92, 110] else if c = 13 then [92, 114] else if c = 9 then [92, 116]
      else if c = 12 then [92, 102] else if c = 8 then [92, 98]
      else if c < 32 then [92, 117, 48, 48, hex_digit (c div 16), hex_digit (c mod 16)]
      else [c])"

definition str_text :: "utext \<Rightarrow> utext" where
  "str_text s = 34 # concat (map escape_cp s) @ [34]"

fun commas :: "utext list \<Rightarrow> utext" where
  "commas [] = []"
| "commas [t] = t"
| "commas (t # u # ts) = t @ [44, 32] @ commas (u # ts)"

fun dumps :: "json \<Rightarrow> utext" where
  "dumps JNull = cps ''null''"
| "dumps (JBool b) = cps (if b then ''true'' else ''false'')"
| "dumps (JInt i) = int_text i"
| "dumps (JFloat r) = r"
| "dumps (JStr s) = str_text s"
| "dumps (JList xs) = 91 # commas (map dumps xs) @ [93]"
| "dumps (JDict kvs) = 123 # commas (map (\<lambda>(k, v). str_text k @ [58, 32] @ dumps v) kvs) @ [125]"

section \<open>Parts\<close>

record tool_part =
  tool_id :: string
  tool_name :: string
  tool_uri :: string
  skill_uri :: string
  tool_input :: "(utext \<times> json) list option"
  tool_output :: utext
  tool_status :: string
  duration_ms :: "rat option"
  prompt_tokens :: "int option"
  completion_tokens :: "int option"
  tool_output_ref :: string
  tool_output_truncated :: bool
  tool_output_original_chars :: "int option"
  tool_output_preview_chars :: "int option"
  tool_output_sha256 :: string
  tool_output_storage_uri :: string
  tool_output_mime_type :: string
  tool_output_source_ref :: string
  tool_output_source_offset :: "int option"
  tool_output_source_limit :: "int option"
  tool_output_externalization_error :: utext
  tool_output_group_id :: string
  tool_output_externalized_reason :: string
  tool_output_group_original_chars :: "int option"
  tool_output_group_budget_chars :: "int option"

datatype part =
    TextPart utext
  | ContextPart string string utext
  | ImagePart string "string option"
  | ToolPart tool_part

definition is_tool_part :: "part \<Rightarrow> bool" where
  "is_tool_part p = (case p of ToolPart _ \<Rightarrow> True | _ \<Rightarrow> False)"

definition default_tool_part :: tool_part where
  "default_tool_part =
     \<lparr>tool_id = '''', tool_name = '''', tool_uri = '''', skill_uri = '''', tool_input = None,
      tool_output = [], tool_status = ''pending'', duration_ms = None, prompt_tokens = None,
      completion_tokens = None, tool_output_ref = '''', tool_output_truncated = False,
      tool_output_original_chars = None, tool_output_preview_chars = None, tool_output_sha256 = '''',
      tool_output_storage_uri = '''', tool_output_mime_type = ''text/plain'', tool_output_source_ref = '''',
      tool_output_source_offset = None, tool_output_source_limit = None,
      tool_output_externalization_error = [], tool_output_group_id = '''',
      tool_output_externalized_reason = '''', tool_output_group_original_chars = None,
      tool_output_group_budget_chars = None\<rparr>"

section \<open>Messages\<close>

record message =
  msg_object :: nat
  msg_id :: string
  role :: string
  parts :: "part list"
  msg_peer_id :: "string option"
  created_at :: "string option"
  turn_id :: "string option"
  message_kind :: "string option"
  source_message_ids :: "string list option"

fun content_of :: "part list \<Rightarrow> utext" where
  "content_of [] = []"
| "content_of (TextPart t # ps) = t"
| "content_of (_ # ps) = content_of ps"

definition content :: "message \<Rightarrow> utext" where
  "content m = content_of (parts m)"

text \<open>The strings one part contributes to \<open>token_text\<close>.\<close>

fun part_token_text :: "part \<Rightarrow> utext list" where
  "part_token_text (TextPart t) = [t]"
| "part_token_text (ContextPart uri context_type abstract) = [abstract]"
| "part_token_text (ImagePart url detail) = []"
| "part_token_text (ToolPart p) =
     [cps (tool_id p), cps (tool_name p)]
     @ (case tool_input p of None \<Rightarrow> [] | Some d \<Rightarrow> if d = [] then [] else [dumps (JDict d)])
     @ (if tool_output p = [] then [] else [tool_output p])"

definition parts_text :: "part list \<Rightarrow> utext" where
  "parts_text ps = concat (concat (map part_token_text ps))"

definition estimated_tokens :: "message \<Rightarrow> int" where
  "estimated_tokens m = estimate_text_tokens (parts_text (parts m))"

definition message_tokens :: "message list \<Rightarrow> int" where
  "message_tokens messages = sum_list (map estimated_tokens messages)"

lemma estimated_tokens_nonneg [simp]: "0 \<le> estimated_tokens m"
  by (simp add: estimated_tokens_def)

lemma message_tokens_nonneg [simp]: "0 \<le> message_tokens ms"
  unfolding message_tokens_def by (rule sum_list_nonneg) auto

lemma message_tokens_simps [simp]:
  "message_tokens [] = 0"
  "message_tokens (m # ms) = estimated_tokens m + message_tokens ms"
  "message_tokens (ms @ ns) = message_tokens ms + message_tokens ns"
  by (simp_all add: message_tokens_def)

end
