(* ===== verification/Retention.thy ===== *)
theory Retention
  imports Message "HOL-Library.List_Lexorder" "HOL-Library.Char_ord" "HOL-Library.Multiset"
begin

text \<open>
  Turn-aware session retention, \<open>openviking/session/retention.py\<close>: grouping messages into user turns
  and atomic assistant steps, the plan of what is archived and what stays live, and the strict budgeted view
  of the live messages. Lists that the code mutates in place are passed along; the slots of
  \<open>_truncate_message_group\<close>, which point to a part inside the cloned messages, are pairs of positions.
\<close>

section \<open>Turns and steps\<close>

definition CHECKPOINT_TOKEN_RESERVE :: int where
  "CHECKPOINT_TOKEN_RESERVE = 1024"

definition is_tool_transport :: "message \<Rightarrow> bool" where
  "is_tool_transport m =
     (if message_kind m = Some ''tool_transport'' then True
      else if message_kind m = Some ''user_query'' then False
      else parts m \<noteq> [] \<and> role m = ''user'' \<and> list_all is_tool_part (parts m))"

definition is_user_query :: "message \<Rightarrow> bool" where
  "is_user_query m =
     (if message_kind m = Some ''user_query'' then True
      else if message_kind m = Some ''tool_transport'' then False
      else role m = ''user'' \<and> \<not> is_tool_transport m)"

type_synonym assistant_step = "message list"

definition step_tokens :: "assistant_step \<Rightarrow> int" where
  "step_tokens s = sum_list (map estimated_tokens s)"

record user_turn =
  anchor :: "message option"
  steps :: "assistant_step list"

definition turn_messages :: "user_turn \<Rightarrow> message list" where
  "turn_messages t = (case anchor t of None \<Rightarrow> [] | Some m \<Rightarrow> [m]) @ concat (steps t)"

definition turn_tokens :: "user_turn \<Rightarrow> int" where
  "turn_tokens t = sum_list (map estimated_tokens (turn_messages t))"

record retention_plan =
  archive_messages :: "message list"
  retained_messages :: "message list"
  turn_anchor :: "message option"
  checkpoint_source_message_ids :: "string list"
  raw_tail_start_message_id :: "string option"
  estimated_active_tokens :: int
  budget_exceeded :: bool
  partial_turn :: bool

definition has_archive_work :: "retention_plan \<Rightarrow> bool" where
  "has_archive_work p \<longleftrightarrow> archive_messages p \<noteq> []"

definition plain_plan :: "message list \<Rightarrow> message list \<Rightarrow> int \<Rightarrow> retention_plan" where
  "plain_plan archive retained active =
     \<lparr>archive_messages = archive, retained_messages = retained, turn_anchor = None,
      checkpoint_source_message_ids = [], raw_tail_start_message_id = None,
      estimated_active_tokens = active, budget_exceeded = False, partial_turn = False\<rparr>"

record active_message_budget_plan =
  ab_messages :: "message list"
  ab_estimated_tokens :: int
  dropped_message_ids :: "string list"
  truncated_message_ids :: "string list"

definition append_to_turn :: "user_turn \<Rightarrow> message \<Rightarrow> user_turn" where
  "append_to_turn turn m =
     (if is_tool_transport m \<and> steps turn \<noteq> []
      then turn\<lparr>steps := butlast (steps turn) @ [last (steps turn) @ [m]]\<rparr>
      else if role m = ''assistant'' then turn\<lparr>steps := steps turn @ [[m]]\<rparr>
      else turn\<lparr>steps := steps turn @ [[m]]\<rparr>)"

text \<open>
  One round of the loop of \<open>build_turns\<close>. \<open>current\<close> is always the last turn of the list, or absent
  when the list is empty, so the list alone is the loop state.
\<close>

definition add_message :: "user_turn list \<Rightarrow> message \<Rightarrow> user_turn list" where
  "add_message turns m =
     (if is_user_query m then turns @ [\<lparr>anchor = Some m, steps = []\<rparr>]
      else if turns = [] then [append_to_turn \<lparr>anchor = None, steps = []\<rparr> m]
      else butlast turns @ [append_to_turn (last turns) m])"

definition build_turns :: "message list \<Rightarrow> user_turn list" where
  "build_turns messages = foldl add_message [] messages"

definition flatten_turns :: "user_turn list \<Rightarrow> message list" where
  "flatten_turns turns = concat (map turn_messages turns)"

section \<open>Truncating an atomic group\<close>

text \<open>The body of a part that may be shortened, and its replacement; \<open>None\<close> for an image.\<close>

fun part_body :: "part \<Rightarrow> utext option" where
  "part_body (TextPart t) = Some t"
| "part_body (ContextPart uri context_type abstract) = Some abstract"
| "part_body (ToolPart p) = Some (tool_output p)"
| "part_body (ImagePart url detail) = None"

fun set_part_body :: "utext \<Rightarrow> part \<Rightarrow> part" where
  "set_part_body b (TextPart t) = TextPart b"
| "set_part_body b (ContextPart uri context_type abstract) = ContextPart uri context_type b"
| "set_part_body b (ToolPart p) = ToolPart (p\<lparr>tool_output := b\<rparr>)"
| "set_part_body b (ImagePart url detail) = ImagePart url detail"

definition map_part :: "nat \<Rightarrow> nat \<Rightarrow> (part \<Rightarrow> part) \<Rightarrow> message list \<Rightarrow> message list" where
  "map_part i j f ms = ms[i := (ms ! i)\<lparr>parts := (parts (ms ! i))[j := f (parts (ms ! i) ! j)]\<rparr>]"

text \<open>All positions of parts, in message and part order.\<close>

definition positions :: "message list \<Rightarrow> (nat \<times> nat) list" where
  "positions ms = concat (map (\<lambda>i. map (\<lambda>j. (i, j)) [0 ..< length (parts (ms ! i))]) [0 ..< length ms])"

definition slots :: "message list \<Rightarrow> (nat \<times> nat \<times> utext) list" where
  "slots ms =
     concat (map (\<lambda>(i, j). case part_body (parts (ms ! i) ! j) of None \<Rightarrow> [] | Some b \<Rightarrow> [(i, j, b)])
       (rev (positions ms)))"

definition clear_bodies :: "message list \<Rightarrow> message list" where
  "clear_bodies ms = map (\<lambda>m. m\<lparr>parts := map (set_part_body []) (parts m)\<rparr>) ms"

fun clear_input :: "part \<Rightarrow> part" where
  "clear_input (ToolPart p) = ToolPart (p\<lparr>tool_input := Some []\<rparr>)"
| "clear_input p = p"

fun has_input :: "part \<Rightarrow> bool" where
  "has_input (ToolPart p) = (case tool_input p of None \<Rightarrow> False | Some d \<Rightarrow> d \<noteq> [])"
| "has_input p = False"

text \<open>Drop tool inputs, oldest first, until the fixed cost fits; both loops break together.\<close>

fun drop_inputs :: "int \<Rightarrow> (nat \<times> nat) list \<Rightarrow> message list \<Rightarrow> string list \<Rightarrow> message list \<times> string list" where
  "drop_inputs token_budget [] cloned ids = (cloned, ids)"
| "drop_inputs token_budget ((i, j) # ps) cloned ids =
     (if \<not> has_input (parts (cloned ! i) ! j) then drop_inputs token_budget ps cloned ids
      else
        let cloned' = map_part i j clear_input cloned; ids' = msg_id (cloned ! i) # ids
        in if message_tokens cloned' \<le> token_budget then (cloned', ids')
           else drop_inputs token_budget ps cloned' ids')"

fun fill_slots :: "int \<Rightarrow> (nat \<times> nat \<times> utext) list \<Rightarrow> message list \<Rightarrow> message list" where
  "fill_slots token_budget [] cloned = cloned"
| "fill_slots token_budget ((i, j, original) # ss) cloned =
     (if original = [] then fill_slots token_budget ss cloned
      else
        let remaining = max 0 (token_budget - message_tokens cloned)
        in if remaining \<le> 0 then cloned
           else
             let fitted = truncate_text_to_token_budget original remaining default_marker (3/4)
             in fill_slots token_budget ss (map_part i j (set_part_body fitted) cloned))"

fun mark_truncated :: "utext \<Rightarrow> utext \<Rightarrow> part \<Rightarrow> part" where
  "mark_truncated original fitted (ToolPart p) =
     ToolPart (p\<lparr>tool_output_truncated := True,
       tool_output_original_chars :=
         (case tool_output_original_chars p of None \<Rightarrow> Some (int (length original)) | Some n \<Rightarrow> Some n),
       tool_output_preview_chars := Some (int (length fitted))\<rparr>)"
| "mark_truncated original fitted p = p"

fun record_slots :: "(nat \<times> nat \<times> utext) list \<Rightarrow> message list \<Rightarrow> string list \<Rightarrow> message list \<times> string list" where
  "record_slots [] cloned ids = (cloned, ids)"
| "record_slots ((i, j, original) # ss) cloned ids =
     (case part_body (parts (cloned ! i) ! j) of
        None \<Rightarrow> record_slots ss cloned ids
      | Some fitted \<Rightarrow>
          if fitted = original then record_slots ss cloned ids
          else record_slots ss (map_part i j (mark_truncated original fitted) cloned) (msg_id (cloned ! i) # ids))"

definition truncate_message_group :: "message list \<Rightarrow> int \<Rightarrow> message list \<times> string list" where
  "truncate_message_group messages token_budget =
     (if token_budget \<le> 0 \<or> messages = [] then ([], [])
      else if message_tokens messages \<le> token_budget then (messages, [])
      else
        let ss = slots messages;
            cloned0 = clear_bodies messages;
            (cloned1, ids1) =
              (if message_tokens cloned0 > token_budget
               then drop_inputs token_budget (positions cloned0) cloned0 []
               else (cloned0, []))
        in if message_tokens cloned1 > token_budget then ([], [])
           else
             let cloned2 = fill_slots token_budget ss cloned1;
                 (cloned3, ids3) = record_slots ss cloned2 ids1
             in if message_tokens cloned3 > token_budget then ([], [])
                else (cloned3, sort (remdups ids3)))"

section \<open>Planning retention\<close>

text \<open>The backward loop over the steps before the mandatory tail.\<close>

fun extend_tail :: "assistant_step list \<Rightarrow> nat \<Rightarrow> int \<Rightarrow> int \<Rightarrow> nat" where
  "extend_tail ss 0 retained_tokens raw_budget = 0"
| "extend_tail ss (Suc index) retained_tokens raw_budget =
     (if retained_tokens + step_tokens (ss ! index) > raw_budget then Suc index
      else extend_tail ss index (retained_tokens + step_tokens (ss ! index)) raw_budget)"

definition partial_latest_turn_plan :: "user_turn list \<Rightarrow> user_turn \<Rightarrow> int \<Rightarrow> int \<Rightarrow> retention_plan" where
  "partial_latest_turn_plan older_turns latest_turn token_budget min_raw_tail_steps =
     (let ss = steps latest_turn;
          min_tail = (if ss \<noteq> [] then nat (max 1 min_raw_tail_steps) else 0);
          mandatory = drop (length ss - min_tail) ss;
          anchor_list = (case anchor latest_turn of None \<Rightarrow> [] | Some m \<Rightarrow> [m]);
          retained_tokens = message_tokens anchor_list + sum_list (map step_tokens mandatory);
          checkpoint_reserve = min CHECKPOINT_TOKEN_RESERVE (max 0 (token_budget div 4));
          raw_budget = max 0 (token_budget - checkpoint_reserve);
          first_retained_step = extend_tail ss (length ss - length mandatory) retained_tokens raw_budget;
          retained_steps = drop first_retained_step ss;
          archived_source_messages = concat (take first_retained_step ss);
          retained = anchor_list @ concat retained_steps;
          archive = flatten_turns older_turns @
            (if archived_source_messages \<noteq> [] then anchor_list @ archived_source_messages else []);
          active_tokens = message_tokens retained
      in \<lparr>archive_messages = archive, retained_messages = retained, turn_anchor = anchor latest_turn,
          checkpoint_source_message_ids = map msg_id archived_source_messages,
          raw_tail_start_message_id =
            (if retained_steps \<noteq> [] \<and> hd retained_steps \<noteq> [] then Some (msg_id (hd (hd retained_steps))) else None),
          estimated_active_tokens = active_tokens, budget_exceeded = active_tokens > token_budget,
          partial_turn = (archived_source_messages \<noteq> [])\<rparr>)"

text \<open>The eviction loop of \<open>plan_retention\<close> gives the first retained turn.\<close>

function evict_turns :: "user_turn list \<Rightarrow> int \<Rightarrow> nat \<Rightarrow> nat" where
  "evict_turns turns token_budget selected_start =
     (if length (drop selected_start turns) > 1
         \<and> sum_list (map turn_tokens (drop selected_start turns)) > token_budget
      then evict_turns turns token_budget (selected_start + 1)
      else selected_start)"
  by pat_completeness auto
termination
  by (relation "measure (\<lambda>(turns, _, selected_start). length turns - selected_start)") auto

declare evict_turns.simps [simp del]

definition plan_retention :: "message list \<Rightarrow> int \<Rightarrow> int \<Rightarrow> int \<Rightarrow> retention_plan" where
  "plan_retention messages keep_recent_turn_count token_budget min_raw_tail_steps =
     (let keep = nat keep_recent_turn_count;
          token_budget = max 0 token_budget;
          turns = build_turns messages
      in if turns = [] \<or> keep = 0 then plain_plan messages [] 0
         else
           let selected_start = evict_turns turns token_budget (length turns - keep);
               retained_turns = drop selected_start turns;
               older_turns = take selected_start turns;
               latest_turn = last retained_turns
           in if turn_tokens latest_turn > token_budget
              then (if anchor latest_turn = None
                    then plain_plan (flatten_turns (older_turns @ [latest_turn])) [] 0
                    else partial_latest_turn_plan older_turns latest_turn token_budget min_raw_tail_steps)
              else plain_plan (flatten_turns older_turns) (flatten_turns retained_turns)
                (message_tokens (flatten_turns retained_turns)))"

section \<open>Grouping loses nothing\<close>

lemma turn_messages_append [simp]: "turn_messages (append_to_turn t m) = turn_messages t @ [m]"
proof (cases "steps t = []")
  case False
  then have "concat (steps t) = concat (butlast (steps t)) @ last (steps t)"
    by (metis append_butlast_last_id concat.simps concat_append append_Nil2)
  with False show ?thesis by (simp add: append_to_turn_def turn_messages_def)
qed (simp add: append_to_turn_def turn_messages_def)

lemma flatten_turns_simps [simp]:
  "flatten_turns [] = []" "flatten_turns (t # ts) = turn_messages t @ flatten_turns ts"
  "flatten_turns (ts @ us) = flatten_turns ts @ flatten_turns us"
  by (simp_all add: flatten_turns_def)

lemma flatten_add_message: "flatten_turns (add_message ts m) = flatten_turns ts @ [m]"
proof (cases "ts = [] \<or> is_user_query m")
  case True
  then show ?thesis by (auto simp: add_message_def) (simp_all add: turn_messages_def)
next
  case False
  then have "flatten_turns ts = flatten_turns (butlast ts) @ turn_messages (last ts)"
    by (metis append_butlast_last_id flatten_turns_simps append_Nil2)
  with False show ?thesis by (simp add: add_message_def)
qed

lemma flatten_build_turns [simp]: "flatten_turns (build_turns ms) = ms"
  by (induction ms rule: rev_induct) (simp_all add: build_turns_def flatten_add_message)

lemma build_turns_Nil_iff [simp]: "build_turns ms = [] \<longleftrightarrow> ms = []"
  by (metis flatten_build_turns flatten_turns_simps(1) build_turns_def foldl_Nil)

text \<open>
  Well-formed turns: the anchor is a user query, every step is non-empty and only its first message may be
  something else than a tool transport, and a step that follows another one starts with a
  message that is no tool transport.
\<close>

definition turn_wf :: "user_turn \<Rightarrow> bool" where
  "turn_wf t \<longleftrightarrow>
     (\<forall>m. anchor t = Some m \<longrightarrow> is_user_query m)
     \<and> (\<forall>s \<in> set (steps t). s \<noteq> [] \<and> list_all is_tool_transport (tl s))
     \<and> (\<forall>s \<in> set (tl (steps t)). \<not> is_tool_transport (hd s))"

lemma append_to_turn_wf [inv_intros]: "turn_wf t \<Longrightarrow> turn_wf (append_to_turn t m)"
proof (cases "is_tool_transport m \<and> steps t \<noteq> []")
  case True
  assume wf: "turn_wf t"
  obtain ss s where st: "steps t = ss @ [s]" using True by (metis rev_exhaust)
  have s: "s \<noteq> []" "list_all is_tool_transport (tl s)" using wf st by (auto simp: turn_wf_def)
  show ?thesis
    using wf True s by (cases ss) (auto simp: turn_wf_def append_to_turn_def st)
next
  case False
  assume "turn_wf t"
  with False show ?thesis
    by (cases "steps t") (auto simp: turn_wf_def append_to_turn_def)
qed

lemma build_turns_wf: "t \<in> set (build_turns ms) \<Longrightarrow> turn_wf t"
proof (induction ms arbitrary: t rule: rev_induct)
  case (snoc m ms)
  let ?ts = "build_turns ms"
  have eq: "build_turns (ms @ [m]) = add_message ?ts m" by (simp add: build_turns_def)
  have "turn_wf \<lparr>anchor = None, steps = []\<rparr>" by (simp add: turn_wf_def)
  moreover have "turn_wf \<lparr>anchor = Some m, steps = []\<rparr>" if "is_user_query m"
    using that by (simp add: turn_wf_def)
  moreover have "turn_wf (last ?ts)" if "?ts \<noteq> []" using snoc.IH that by simp
  moreover have "turn_wf u" if "u \<in> set (butlast ?ts)" for u using snoc.IH that by (meson in_set_butlastD)
  ultimately show ?case
    using snoc.prems snoc.IH unfolding eq
    by (auto simp: add_message_def intro: append_to_turn_wf split: if_splits)
qed (simp add: build_turns_def)

section \<open>The eviction loop and the tail\<close>

lemma evict_turns_bounds:
  "start < length turns \<Longrightarrow>
     start \<le> evict_turns turns b start \<and> evict_turns turns b start < length turns
     \<and> (length (drop (evict_turns turns b start) turns) = 1
        \<or> sum_list (map turn_tokens (drop (evict_turns turns b start) turns)) \<le> b)"
proof (induction turns b start rule: evict_turns.induct)
  case (1 turns b start)
  show ?case
  proof (cases "length (drop start turns) > 1 \<and> sum_list (map turn_tokens (drop start turns)) > b")
    case True
    then have "start + 1 < length turns" by auto
    with 1(1) [OF True] True show ?thesis by (subst (1 2 3 4) evict_turns.simps) auto
  next
    case False
    with 1(2) have "length (drop start turns) = 1 \<or> sum_list (map turn_tokens (drop start turns)) \<le> b"
      by auto
    with False 1(2) show ?thesis by (subst (1 2 3 4) evict_turns.simps) auto
  qed
qed

lemma extend_tail_bounds:
  assumes "k \<le> length ss"
  shows "extend_tail ss k rt rb \<le> k
    \<and> (extend_tail ss k rt rb = k
       \<or> rt + sum_list (map step_tokens (drop (extend_tail ss k rt rb) (take k ss))) \<le> rb)"
  using assms
proof (induction ss k rt rb rule: extend_tail.induct)
  case (2 ss index rt rb)
  show ?case
  proof (cases "rt + step_tokens (ss ! index) > rb")
    case False
    let ?r = "extend_tail ss index (rt + step_tokens (ss ! index)) rb"
    have IH: "?r \<le> index \<and> (?r = index \<or> rt + step_tokens (ss ! index) + sum_list (map step_tokens (drop ?r (take index ss))) \<le> rb)"
      using 2 False by simp
    have t: "take (Suc index) ss = take index ss @ [ss ! index]"
      using 2(2) by (simp add: take_Suc_conv_app_nth)
    have "drop ?r (take (Suc index) ss) = drop ?r (take index ss) @ [ss ! index]"
      using IH 2(2) unfolding t by (simp add: drop_append)
    with IH False show ?thesis by auto
  qed simp
qed simp

lemma sum_step_tokens: "sum_list (map step_tokens ss) = message_tokens (concat ss)"
  by (induction ss) (simp_all add: step_tokens_def message_tokens_def)

lemma sum_turn_tokens: "sum_list (map turn_tokens ts) = message_tokens (flatten_turns ts)"
  by (induction ts) (simp_all add: turn_tokens_def message_tokens_def)

section \<open>The partial plan of the latest turn\<close>

definition mandatory_steps :: "user_turn \<Rightarrow> int \<Rightarrow> assistant_step list" where
  "mandatory_steps t min_raw_tail_steps =
     drop (length (steps t) - (if steps t \<noteq> [] then nat (max 1 min_raw_tail_steps) else 0)) (steps t)"

lemma mandatory_steps_Nil: "steps t \<noteq> [] \<Longrightarrow> mandatory_steps t k \<noteq> []"
proof -
  assume "steps t \<noteq> []"
  moreover have "1 \<le> nat (max 1 k)" by simp
  ultimately show ?thesis by (simp add: mandatory_steps_def not_le diff_less)
qed

lemma drop_take_drop:
  assumes "k \<le> n"
  shows "drop k xs = drop k (take n xs) @ drop n xs"
proof -
  have "drop k (take n xs @ drop n xs) = drop k (take n xs) @ drop n xs"
    unfolding drop_append using assms by (cases "n \<le> length xs") auto
  then show ?thesis by simp
qed

lemma partial_plan_shape:
  assumes "anchor t = Some a" and "p = partial_latest_turn_plan older t budget min_tail"
  obtains k where
    "retained_messages p = a # concat (drop k (steps t))"
    "archive_messages p = flatten_turns older @ (if partial_turn p then a # concat (take k (steps t)) else [])"
    "partial_turn p \<longleftrightarrow> concat (take k (steps t)) \<noteq> []"
    "checkpoint_source_message_ids p = map msg_id (concat (take k (steps t)))"
    "turn_anchor p = Some a" "k \<le> length (steps t) - length (mandatory_steps t min_tail)"
    "estimated_active_tokens p = message_tokens (retained_messages p)"
    "budget_exceeded p \<longleftrightarrow> message_tokens (retained_messages p) > budget"
    "0 \<le> budget \<Longrightarrow> budget_exceeded p \<Longrightarrow> retained_messages p = a # concat (mandatory_steps t min_tail)"
proof -
  let ?ss = "steps t" and ?mand = "mandatory_steps t min_tail"
  let ?n = "length ?ss - length ?mand"
  let ?rt = "message_tokens [a] + sum_list (map step_tokens ?mand)"
  let ?rb = "max 0 (budget - min CHECKPOINT_TOKEN_RESERVE (max 0 (budget div 4)))"
  define k where "k = extend_tail ?ss ?n ?rt ?rb"
  have md: "?mand = drop ?n ?ss" by (auto simp: mandatory_steps_def)
  have k: "k \<le> ?n" "k = ?n \<or> ?rt + sum_list (map step_tokens (drop k (take ?n ?ss))) \<le> ?rb"
    using extend_tail_bounds [of ?n ?ss ?rt ?rb] by (auto simp: k_def)
  have "p = \<lparr>archive_messages = flatten_turns older @
        (if concat (take k ?ss) \<noteq> [] then [a] @ concat (take k ?ss) else []),
      retained_messages = [a] @ concat (drop k ?ss), turn_anchor = Some a,
      checkpoint_source_message_ids = map msg_id (concat (take k ?ss)),
      raw_tail_start_message_id = (if drop k ?ss \<noteq> [] \<and> hd (drop k ?ss) \<noteq> [] then Some (msg_id (hd (hd (drop k ?ss)))) else None),
      estimated_active_tokens = message_tokens ([a] @ concat (drop k ?ss)),
      budget_exceeded = message_tokens ([a] @ concat (drop k ?ss)) > budget,
      partial_turn = (concat (take k ?ss) \<noteq> [])\<rparr>"
    unfolding assms(2) k_def mandatory_steps_def
    by (simp only: partial_latest_turn_plan_def Let_def assms(1) option.case)
  then have p: "retained_messages p = a # concat (drop k ?ss)"
    "archive_messages p = flatten_turns older @ (if concat (take k ?ss) \<noteq> [] then a # concat (take k ?ss) else [])"
    "partial_turn p \<longleftrightarrow> concat (take k ?ss) \<noteq> []"
    "checkpoint_source_message_ids p = map msg_id (concat (take k ?ss))"
    "turn_anchor p = Some a"
    "estimated_active_tokens p = message_tokens (a # concat (drop k ?ss))"
    "budget_exceeded p \<longleftrightarrow> message_tokens (a # concat (drop k ?ss)) > budget"
    by simp_all
  have "retained_messages p = a # concat ?mand" if "0 \<le> budget" "budget_exceeded p"
  proof (cases "k = ?n")
    case True
    then show ?thesis using p(1) md by metis
  next
    case False
    have "drop k ?ss = drop k (take ?n ?ss) @ ?mand"
      using drop_take_drop [OF k(1), of ?ss] unfolding md [symmetric] .
    then have "message_tokens (a # concat (drop k ?ss)) = ?rt + sum_list (map step_tokens (drop k (take ?n ?ss)))"
      by (simp add: sum_step_tokens)
    also have "\<dots> \<le> ?rb" using False k(2) by simp
    also have "?rb \<le> budget" using that(1) by (auto simp: CHECKPOINT_TOKEN_RESERVE_def)
    finally show ?thesis using that(2) p(7) by simp
  qed
  with p k(1) show thesis by (intro that [of k]) auto
qed

text \<open>The situation in which \<open>plan_retention\<close> ends in each of its four ways.\<close>

lemma plan_retention_cases:
  fixes messages keep budget min_tail
  defines "b \<equiv> max 0 budget" and "turns \<equiv> build_turns messages"
  obtains (none) "plan_retention messages keep budget min_tail = plain_plan messages [] 0"
  | (fits) i where "plan_retention messages keep budget min_tail =
        plain_plan (flatten_turns (take i turns)) (flatten_turns (drop i turns)) (message_tokens (flatten_turns (drop i turns)))"
      "message_tokens (flatten_turns (drop i turns)) \<le> b"
  | (partial) older t a where "turns = older @ [t]" "anchor t = Some a" "turn_wf t"
      "plan_retention messages keep budget min_tail = partial_latest_turn_plan older t b min_tail"
proof (cases "turns = [] \<or> nat keep = 0")
  case True
  then show thesis by (intro none) (simp add: plan_retention_def turns_def)
next
  case False
  define i where "i = evict_turns turns b (length turns - nat keep)"
  have i: "i < length turns"
    "length (drop i turns) = 1 \<or> sum_list (map turn_tokens (drop i turns)) \<le> b"
    using False evict_turns_bounds [of "length turns - nat keep" turns b] by (auto simp: i_def)
  have ne: "drop i turns \<noteq> []" using i(1) by simp
  have eq: "plan_retention messages keep budget min_tail =
      (if turn_tokens (last (drop i turns)) > b
       then (if anchor (last (drop i turns)) = None
             then plain_plan (flatten_turns (take i turns @ [last (drop i turns)])) [] 0
             else partial_latest_turn_plan (take i turns) (last (drop i turns)) b min_tail)
       else plain_plan (flatten_turns (take i turns)) (flatten_turns (drop i turns))
         (message_tokens (flatten_turns (drop i turns))))"
    using False by (simp add: plan_retention_def turns_def b_def i_def Let_def)
  show thesis
  proof (cases "turn_tokens (last (drop i turns)) > b")
    case over: True
    have "turn_tokens (last (drop i turns)) \<le> sum_list (map turn_tokens (drop i turns))"
    proof (rule member_le_sum_list)
      show "turn_tokens (last (drop i turns)) \<in> set (map turn_tokens (drop i turns))"
        unfolding set_map by (rule imageI [OF last_in_set [OF ne]])
    qed (auto simp: turn_tokens_def intro!: sum_list_nonneg)
    with over i(2) have "length (drop i turns) = 1" by linarith
    then obtain t where t: "drop i turns = [t]" by (metis length_0_conv length_Suc_conv One_nat_def)
    then have split: "turns = take i turns @ [t]" by (metis append_take_drop_id)
    then have wf: "turn_wf t" using build_turns_wf [of t messages] by (metis in_set_conv_decomp turns_def)
    show thesis
    proof (cases "anchor t")
      case None
      have "flatten_turns (take i turns @ [t]) = messages"
        using split turns_def flatten_build_turns by metis
      then show thesis using None over t by (intro none) (simp add: eq del: flatten_turns_simps)
    next
      case (Some a)
      then show thesis using over t split wf by (intro partial [of "take i turns" t a]) (auto simp: eq)
    qed
  next
    case False
    have "message_tokens (flatten_turns (drop i turns)) \<le> b"
    proof (cases "sum_list (map turn_tokens (drop i turns)) \<le> b")
      case nf: False
      then obtain t where "drop i turns = [t]" using i(2) by (metis length_0_conv length_Suc_conv One_nat_def)
      with False nf show ?thesis by simp
    qed (simp add: sum_turn_tokens)
    with False show thesis by (intro fits [of i]) (simp_all add: eq)
  qed
qed

section \<open>Properties of the plan\<close>

text \<open>Turns are a grouping. Flattening the turns of any message list gives the list back,
  and in every turn the anchor is a user query and tool results stay in the step of the
  assistant response they answer.\<close>

lemma build_turns_preserves:
  "flatten_turns (build_turns messages) = messages \<and> list_all turn_wf (build_turns messages)"
  using build_turns_wf by (auto simp: list_all_iff)

lemma turn_wf_later_step:
  assumes "turn_wf t" and "0 < k" and "k < length (steps t)"
  shows "concat (drop k (steps t)) \<noteq> [] \<and> \<not> is_tool_transport (hd (concat (drop k (steps t))))"
proof -
  have d: "drop k (steps t) = (steps t ! k) # drop (Suc k) (steps t)"
    using assms(3) by (simp add: Cons_nth_drop_Suc)
  have "steps t ! k = tl (steps t) ! (k - 1)" using assms(2,3) by (simp add: nth_tl)
  then have "steps t ! k \<in> set (tl (steps t))" using assms(2,3) by (simp add: nth_mem)
  moreover have "steps t ! k \<noteq> []" using assms(1,3) by (auto simp: turn_wf_def)
  ultimately show ?thesis using assms(1) d by (auto simp: turn_wf_def)
qed

lemma plan_retention_split:
  "let p = plan_retention messages keep budget min_tail
   in if partial_turn p
      then \<exists>older a pre tail. messages = older @ a # pre @ tail \<and> is_user_query a
        \<and> archive_messages p = older @ a # pre \<and> retained_messages p = a # tail
        \<and> turn_anchor p = Some a \<and> checkpoint_source_message_ids p = map msg_id pre
        \<and> tail \<noteq> [] \<and> \<not> is_tool_transport (hd tail)
      else archive_messages p @ retained_messages p = messages"
proof (cases rule: plan_retention_cases [of messages keep budget min_tail])
  case none
  then show ?thesis by (simp add: plain_plan_def)
next
  case (fits i)
  then show ?thesis
    by (simp add: plain_plan_def flatten_turns_simps(3) [symmetric] del: flatten_turns_simps)
next
  case (partial older t a)
  obtain k where p: "retained_messages (plan_retention messages keep budget min_tail) = a # concat (drop k (steps t))"
    "archive_messages (plan_retention messages keep budget min_tail) =
       flatten_turns older @ (if partial_turn (plan_retention messages keep budget min_tail) then a # concat (take k (steps t)) else [])"
    "partial_turn (plan_retention messages keep budget min_tail) \<longleftrightarrow> concat (take k (steps t)) \<noteq> []"
    "checkpoint_source_message_ids (plan_retention messages keep budget min_tail) = map msg_id (concat (take k (steps t)))"
    "turn_anchor (plan_retention messages keep budget min_tail) = Some a"
    "k \<le> length (steps t) - length (mandatory_steps t min_tail)"
    using partial_plan_shape [OF partial(2,4)] by metis
  have "messages = flatten_turns older @ a # concat (steps t)"
    using arg_cong [OF partial(1), of flatten_turns] partial(2) by (simp add: turn_messages_def)
  then have ms: "messages = flatten_turns older @ a # concat (take k (steps t)) @ concat (drop k (steps t))"
    by (metis append_take_drop_id concat_append)
  show ?thesis
  proof (cases "partial_turn (plan_retention messages keep budget min_tail)")
    case True
    then have "steps t \<noteq> []" "0 < k" using p(3) by (auto intro: gr0I)
    moreover have "k < length (steps t)"
      using p(6) mandatory_steps_Nil [OF calculation(1)] calculation(1)
      by (metis diff_less le_less_trans length_greater_0_conv)
    ultimately show ?thesis
      using True p ms partial(2,3) turn_wf_later_step [OF partial(3), of k] by (auto simp: turn_wf_def Let_def)
  next
    case False
    then show ?thesis using p ms by (simp add: Let_def)
  qed
qed

text \<open>C4: retention loses nothing and cuts at step boundaries. Either the archive followed by the
  retained messages is the message list; or the plan is partial, and then the messages are the
  older ones, the user query that anchors the latest turn, an archived part and a non-empty
  tail, the archive is everything but the tail, the anchor and the tail are retained, the checkpoint
  sources are the archived part, and the tail does not start with a tool result.\<close>

theorem plan_retention_lossless:
  "let p = plan_retention messages keep budget min_tail
   in if partial_turn p
      then \<exists>older a pre tail. messages = older @ a # pre @ tail \<and> is_user_query a
        \<and> archive_messages p = older @ a # pre \<and> retained_messages p = a # tail
        \<and> turn_anchor p = Some a \<and> checkpoint_source_message_ids p = map msg_id pre
        \<and> tail \<noteq> [] \<and> \<not> is_tool_transport (hd tail)
      else archive_messages p @ retained_messages p = messages"
  by (rule plan_retention_split)

text \<open>the budget of the plan. The retained messages cost at most the token budget, unless the plan
  says that the budget is exceeded; and then exactly the mandatory messages are retained: the anchor of
  the latest turn and its last \<open>max 1 min_raw_tail_steps\<close> steps. The reported token count is the cost of what is retained.\<close>

lemma plan_retention_budget:
  "let p = plan_retention messages keep budget min_tail; t = last (build_turns messages)
   in estimated_active_tokens p = message_tokens (retained_messages p)
      \<and> (if budget_exceeded p
         then message_tokens (retained_messages p) > max 0 budget
           \<and> retained_messages p = (case anchor t of None \<Rightarrow> [] | Some a \<Rightarrow> [a]) @ concat (mandatory_steps t min_tail)
         else message_tokens (retained_messages p) \<le> max 0 budget)"
proof (cases rule: plan_retention_cases [of messages keep budget min_tail])
  case none
  then show ?thesis by (simp add: plain_plan_def)
next
  case (fits i)
  then show ?thesis by (simp add: plain_plan_def)
next
  case (partial older t a)
  obtain k where p: "estimated_active_tokens (plan_retention messages keep budget min_tail) =
      message_tokens (retained_messages (plan_retention messages keep budget min_tail))"
    "budget_exceeded (plan_retention messages keep budget min_tail) \<longleftrightarrow>
       message_tokens (retained_messages (plan_retention messages keep budget min_tail)) > max 0 budget"
    "budget_exceeded (plan_retention messages keep budget min_tail) \<Longrightarrow>
       retained_messages (plan_retention messages keep budget min_tail) = a # concat (mandatory_steps t min_tail)"
    by (rule partial_plan_shape [OF partial(2,4)]) simp
  have "last (build_turns messages) = t" using partial(1) by simp
  with p partial(2) show ?thesis by (auto simp: Let_def not_less)
qed

section \<open>The budgeted view of active messages\<close>

text \<open>
  The variables that the closure \<open>_select_group\<close> updates: \<open>selected\<close>, \<open>truncated_ids\<close> and
  \<open>used_tokens\<close>. \<open>message_indexes\<close> maps the identity of a message object to its position.
\<close>

record selection =
  selected :: "(nat \<times> message) list"
  sel_truncated_ids :: "string list"
  used_tokens :: int

definition message_indexes :: "message list \<Rightarrow> (nat \<times> nat) list" where
  "message_indexes messages = fold (\<lambda>(index, m). AList.update (msg_object m) index) (enumerate 0 messages) []"

definition select_group :: "message list \<Rightarrow> int \<Rightarrow> message list \<Rightarrow> bool \<Rightarrow> int option \<Rightarrow> selection \<Rightarrow> selection \<times> bool" where
  "select_group messages token_budget grp allow_truncate max_budget st =
     (if grp = [] then (st, True)
      else
        let remaining0 = max 0 (token_budget - used_tokens st);
            remaining = (case max_budget of None \<Rightarrow> remaining0 | Some mb \<Rightarrow> min remaining0 (max 0 mb));
            group_tokens = message_tokens grp;
            commit = (\<lambda>chosen ids. (st\<lparr>
              selected := fold (\<lambda>(original, returned).
                AList.update (the (map_of (message_indexes messages) (msg_object original))) returned)
                (zip grp chosen) (selected st),
              sel_truncated_ids := ids @ sel_truncated_ids st,
              used_tokens := used_tokens st + message_tokens chosen\<rparr>, True))
        in if group_tokens > remaining
           then (if \<not> allow_truncate \<or> remaining \<le> 0 then (st, False)
                 else case truncate_message_group grp remaining of
                   (chosen, ids) \<Rightarrow> if chosen = [] then (st, False) else commit chosen ids)
           else commit grp [])"

text \<open>A loop over groups that breaks at the first one that is not selected.\<close>

fun select_while :: "message list \<Rightarrow> int \<Rightarrow> bool \<Rightarrow> message list list \<Rightarrow> selection \<Rightarrow> selection" where
  "select_while messages token_budget allow_truncate [] st = st"
| "select_while messages token_budget allow_truncate (g # gs) st =
     (case select_group messages token_budget g allow_truncate None st of
        (st', ok) \<Rightarrow> if ok then select_while messages token_budget allow_truncate gs st' else st')"

function search_minimum :: "(int \<Rightarrow> bool) \<Rightarrow> int \<Rightarrow> int \<Rightarrow> int option \<Rightarrow> int option" where
  "search_minimum fits low high minimum =
     (if low \<le> high then
        let candidate = (low + high) div 2
        in if fits candidate then search_minimum fits low (candidate - 1) (Some candidate)
           else search_minimum fits (candidate + 1) high minimum
      else minimum)"
  by pat_completeness auto
termination
  by (relation "measure (\<lambda>(_, low, high, _). nat (high - low + 1))") auto

declare search_minimum.simps [simp del]

definition minimum_group_budget :: "int \<Rightarrow> message list \<Rightarrow> int option" where
  "minimum_group_budget token_budget grp =
     (if grp = [] \<or> message_tokens grp = 0 then Some 0
      else search_minimum (\<lambda>candidate. fst (truncate_message_group grp candidate) \<noteq> [])
        1 (min (message_tokens grp) token_budget) None)"

definition final_reserve :: "int \<Rightarrow> message list \<Rightarrow> message list \<Rightarrow> int" where
  "final_reserve token_budget anchor_group final_group =
     (if anchor_group \<noteq> [] \<and> final_group \<noteq> []
      then case (minimum_group_budget token_budget anchor_group, minimum_group_budget token_budget final_group) of
        (Some anchor_minimum, Some final_minimum) \<Rightarrow>
          if anchor_minimum + final_minimum \<le> token_budget
          then min (min (message_tokens final_group) (max final_minimum (token_budget div 2)))
                 (token_budget - anchor_minimum)
          else 0
      | _ \<Rightarrow> 0
      else 0)"

definition has_checkpoint :: "assistant_step \<Rightarrow> bool" where
  "has_checkpoint s = list_ex (\<lambda>m. message_kind m = Some ''checkpoint'') s"

definition select_active :: "message list \<Rightarrow> int \<Rightarrow> selection" where
  "select_active messages token_budget =
     (let turns = build_turns messages;
          latest = last turns;
          final_group = (if steps latest \<noteq> [] then last (steps latest) else []);
          anchor_group = (case anchor latest of None \<Rightarrow> [] | Some m \<Rightarrow> [m]);
          reserve = final_reserve token_budget anchor_group final_group;
          st0 = \<lparr>selected = [], sel_truncated_ids = [], used_tokens = 0\<rparr>;
          st1 = (if anchor_group \<noteq> []
                 then fst (select_group messages token_budget anchor_group True (Some (token_budget - reserve)) st0)
                 else st0);
          st2 = (if final_group \<noteq> [] then fst (select_group messages token_budget final_group True None st1) else st1);
          checkpoint_steps = filter has_checkpoint (butlast (steps latest));
          st3 = select_while messages token_budget True checkpoint_steps st2;
          st4 = select_while messages token_budget False
            (filter (\<lambda>s. \<not> has_checkpoint s) (rev (butlast (steps latest)))) st3
      in select_while messages token_budget False (map turn_messages (rev (butlast turns))) st4)"

definition fit_active_messages_to_budget :: "message list \<Rightarrow> int \<Rightarrow> active_message_budget_plan" where
  "fit_active_messages_to_budget messages token_budget0 =
     (let token_budget = max 0 token_budget0
      in if messages = [] \<or> token_budget = 0
         then \<lparr>ab_messages = [], ab_estimated_tokens = 0, dropped_message_ids = map msg_id messages,
               truncated_message_ids = []\<rparr>
         else if message_tokens messages \<le> token_budget
         then \<lparr>ab_messages = messages, ab_estimated_tokens = message_tokens messages,
               dropped_message_ids = [], truncated_message_ids = []\<rparr>
         else
           let st = select_active messages token_budget;
               returned = map (\<lambda>index. the (map_of (selected st) index)) (sort (map fst (selected st)))
           in \<lparr>ab_messages = returned, ab_estimated_tokens = message_tokens returned,
               dropped_message_ids =
                 map (\<lambda>(index, m). msg_id m)
                   (filter (\<lambda>(index, m). index \<notin> set (map fst (selected st))) (enumerate 0 messages)),
               truncated_message_ids = sort (remdups (sel_truncated_ids st))\<rparr>)"

section \<open>Truncated groups\<close>

text \<open>What every truncation step keeps: the number of messages and their identifiers.\<close>

abbreviation same_ids :: "message list \<Rightarrow> message list \<Rightarrow> bool" where
  "same_ids ms ns \<equiv> map msg_id ms = map msg_id ns"

lemma map_part_ids [simp]: "map msg_id (map_part i j f ms) = map msg_id ms"
proof (cases "i < length ms")
  case True
  then have "(map msg_id ms)[i := msg_id (ms ! i)] = map msg_id ms" by (metis list_update_id nth_map)
  then show ?thesis by (simp add: map_part_def map_update)
qed (simp add: map_part_def not_less list_update_beyond)

lemma clear_bodies_ids [simp]: "map msg_id (clear_bodies ms) = map msg_id ms"
  by (simp add: clear_bodies_def)

lemma drop_inputs_ids: "map msg_id (fst (drop_inputs b ps ms ids)) = map msg_id ms"
  by (induction b ps ms ids rule: drop_inputs.induct) (auto simp: Let_def)

lemma fill_slots_ids: "map msg_id (fill_slots b ss ms) = map msg_id ms"
  by (induction b ss ms rule: fill_slots.induct) (auto simp: Let_def)

lemma record_slots_ids: "map msg_id (fst (record_slots ss ms ids)) = map msg_id ms"
  by (induction ss ms ids rule: record_slots.induct) (auto split: option.splits)

lemma truncate_message_group_spec:
  assumes "truncate_message_group ms b = (chosen, ids)" and "chosen \<noteq> []"
  shows "map msg_id chosen = map msg_id ms \<and> message_tokens chosen \<le> b"
proof -
  let ?c1 = "if message_tokens (clear_bodies ms) > b
      then drop_inputs b (positions (clear_bodies ms)) (clear_bodies ms) [] else (clear_bodies ms, [])"
  have "map msg_id (fst ?c1) = map msg_id ms" by (simp add: drop_inputs_ids)
  then have "map msg_id (fst (record_slots (slots ms) (fill_slots b (slots ms) (fst ?c1)) (snd ?c1))) = map msg_id ms"
    by (simp only: record_slots_ids fill_slots_ids)
  with assms show ?thesis
    unfolding truncate_message_group_def Let_def case_prod_unfold by (auto split: if_splits)
qed

section \<open>Invariant of the selection\<close>

definition sel_cost :: "selection \<Rightarrow> int" where
  "sel_cost st = sum_list (map (\<lambda>(_, m). estimated_tokens m) (selected st))"

definition sel_inv :: "int \<Rightarrow> selection \<Rightarrow> bool" where
  "sel_inv token_budget st \<longleftrightarrow>
     distinct (map fst (selected st)) \<and> sel_cost st \<le> used_tokens st \<and> used_tokens st \<le> token_budget"

lemma cost_update:
  "sum_list (map (\<lambda>(_, m). estimated_tokens m) (AList.update k v d))
     \<le> sum_list (map (\<lambda>(_, m). estimated_tokens m) d) + estimated_tokens v"
  by (induction d) auto

lemma cost_fold_update:
  "length g = length chosen \<Longrightarrow>
   sum_list (map (\<lambda>(_, m). estimated_tokens m) (fold (\<lambda>(original, returned). AList.update (key original) returned) (zip g chosen) d))
     \<le> sum_list (map (\<lambda>(_, m). estimated_tokens m) d) + message_tokens chosen"
proof (induction g chosen arbitrary: d rule: list_induct2)
  case (Cons x xs y ys)
  show ?case
    using cost_update [of "key x" y d] Cons.IH [of "AList.update (key x) y d"] by simp
qed simp

lemma distinct_fold_update:
  "distinct (map fst d) \<Longrightarrow>
     distinct (map fst (fold (\<lambda>(original, returned). AList.update (key original) returned) zs d))"
  by (induction zs arbitrary: d) (auto intro: AList.distinct_update)

text \<open>Either nothing changes, or a list with the identifiers of the group and a cost within the rest of the
  budget is written at the positions of the group.\<close>

lemma select_group_cases:
  obtains (same) ok where "select_group messages b g tr mb st = (st, ok)"
  | (commit) chosen ids where
      "map msg_id chosen = map msg_id g" "message_tokens chosen \<le> max 0 (b - used_tokens st)"
      "select_group messages b g tr mb st = (st\<lparr>
         selected := fold (\<lambda>(original, returned).
           AList.update (the (map_of (message_indexes messages) (msg_object original))) returned)
           (zip g chosen) (selected st),
         sel_truncated_ids := ids @ sel_truncated_ids st,
         used_tokens := used_tokens st + message_tokens chosen\<rparr>, True)"
proof -
  define r where "r = (case mb of None \<Rightarrow> max 0 (b - used_tokens st) | Some m \<Rightarrow> min (max 0 (b - used_tokens st)) (max 0 m))"
  let ?commit = "\<lambda>chosen ids. (st\<lparr>
         selected := fold (\<lambda>(original, returned).
           AList.update (the (map_of (message_indexes messages) (msg_object original))) returned)
           (zip g chosen) (selected st),
         sel_truncated_ids := ids @ sel_truncated_ids st,
         used_tokens := used_tokens st + message_tokens chosen\<rparr>, True)"
  have eq: "select_group messages b g tr mb st =
      (if g = [] then (st, True)
       else if message_tokens g > r
       then (if \<not> tr \<or> r \<le> 0 then (st, False)
             else case truncate_message_group g r of
               (chosen, ids) \<Rightarrow> if chosen = [] then (st, False) else ?commit chosen ids)
       else ?commit g [])"
    unfolding select_group_def Let_def r_def by (rule refl)
  have r: "r \<le> max 0 (b - used_tokens st)" by (auto simp: r_def split: option.splits)
  consider (a) "g = []" | (b) "g \<noteq> []" "message_tokens g \<le> r"
    | (c) "g \<noteq> []" "message_tokens g > r" "\<not> tr \<or> r \<le> 0 \<or> fst (truncate_message_group g r) = []"
    | (d) "g \<noteq> []" "message_tokens g > r" "tr" "0 < r" "fst (truncate_message_group g r) \<noteq> []"
    by linarith
  then show thesis
  proof cases
    case a
    then show thesis by (intro same [of True]) (simp add: select_group_def)
  next
    case b
    with r show thesis
      by (intro commit [of g "[]"]) (auto simp: eq)
  next
    case c
    then show thesis
      by (intro same [of False]) (auto simp: eq split: prod.splits)
  next
    case d
    obtain chosen ids where t: "truncate_message_group g r = (chosen, ids)" by force
    have "select_group messages b g tr mb st = ?commit chosen ids" unfolding eq using d t by simp
    with d t truncate_message_group_spec [OF t] r show thesis by (intro commit [of chosen ids]) auto
  qed
qed

lemma select_group_inv [inv_intros]:
  assumes "sel_inv b st"
  shows "sel_inv b (fst (select_group messages b g tr mb st))"
proof (cases rule: select_group_cases [of messages b g tr mb st])
  case (same ok)
  then show ?thesis using assms by simp
next
  case (commit chosen ids)
  have len: "length g = length chosen" using commit(1) by (metis length_map)
  note c = cost_fold_update [OF len, of "\<lambda>m. the (map_of (message_indexes messages) (msg_object m))" "selected st"]
  have "message_tokens chosen \<le> b - used_tokens st \<or> message_tokens chosen \<le> 0" using commit(2) by linarith
  then show ?thesis
    using assms c unfolding commit(3) sel_inv_def sel_cost_def
    by (auto intro: distinct_fold_update)
qed

lemma select_while_inv [inv_intros]: "sel_inv b st \<Longrightarrow> sel_inv b (select_while messages b tr gs st)"
proof (induction messages b tr gs st rule: select_while.induct)
  case (2 messages b tr g gs st)
  obtain st' ok where s: "select_group messages b g tr None st = (st', ok)" by force
  with select_group_inv [OF 2(2), of messages g tr None] have "sel_inv b st'" by simp
  with 2(1) [OF s [symmetric]] show ?case by (simp add: s)
qed simp

lemma sel_inv_start: "0 \<le> b \<Longrightarrow> sel_inv b \<lparr>selected = [], sel_truncated_ids = [], used_tokens = 0\<rparr>"
  by (simp add: sel_inv_def sel_cost_def)

lemma select_active_inv: "0 \<le> b \<Longrightarrow> sel_inv b (select_active messages b)"
  unfolding select_active_def Let_def
  by (intro select_while_inv) (auto intro!: select_group_inv sel_inv_start)

lemma returned_cost:
  assumes "distinct (map fst d)"
  shows "message_tokens (map (\<lambda>i. the (map_of d i)) (sort (map fst d))) = sum_list (map (\<lambda>(_, m). estimated_tokens m) d)"
proof -
  let ?f = "\<lambda>i. estimated_tokens (the (map_of d i))"
  have "message_tokens (map (\<lambda>i. the (map_of d i)) (sort (map fst d))) = sum_list (map ?f (sort (map fst d)))"
    by (simp add: message_tokens_def comp_def)
  also have "\<dots> = sum_list (map ?f (map fst d))"
  proof -
    have "mset (map ?f (sort (map fst d))) = mset (map ?f (map fst d))" by (simp only: mset_map mset_sort)
    then show ?thesis by (metis sum_mset_sum_list)
  qed
  also have "\<dots> = sum_list (map (\<lambda>(_, m). estimated_tokens m) d)"
    using assms by (auto simp: comp_def intro!: arg_cong [where f = sum_list] map_cong)
  finally show ?thesis .
qed

lemma fit_active_cost:
  "let p = fit_active_messages_to_budget messages token_budget
   in message_tokens (ab_messages p) \<le> max 0 token_budget \<and> ab_estimated_tokens p = message_tokens (ab_messages p)"
proof -
  have "sel_inv (max 0 token_budget) (select_active messages (max 0 token_budget))"
    by (rule select_active_inv) simp
  then show ?thesis
    using returned_cost [of "selected (select_active messages (max 0 token_budget))"]
    by (auto simp: fit_active_messages_to_budget_def Let_def sel_inv_def sel_cost_def)
qed

text \<open>C12: the view of active messages is within the budget. For every message list and every
  budget, the messages returned by \<open>fit_active_messages_to_budget\<close> cost at most the budget, and the
  reported number is their cost.\<close>

theorem fit_active_within_budget:
  "let p = fit_active_messages_to_budget messages token_budget
   in message_tokens (ab_messages p) \<le> max 0 token_budget \<and> ab_estimated_tokens p = message_tokens (ab_messages p)"
  by (rule fit_active_cost)

section \<open>The view accounts for every message\<close>

definition sel_wf :: "message list \<Rightarrow> selection \<Rightarrow> bool" where
  "sel_wf messages st \<longleftrightarrow>
     (\<forall>(i, m) \<in> set (selected st). i < length messages \<and> msg_id m = msg_id (messages ! i))"

lemma message_indexes_lookup:
  assumes "distinct (map msg_object messages)" and "i < length messages"
  shows "map_of (message_indexes messages) (msg_object (messages ! i)) = Some i"
proof -
  let ?ws = "map (\<lambda>(index, m). (msg_object m, index)) (enumerate 0 messages)"
  have "message_indexes messages = fold (\<lambda>(k, v). AList.update k v) ?ws []"
    by (simp add: message_indexes_def fold_map comp_def case_prod_unfold)
  moreover have "map fst ?ws = map msg_object messages"
    by (simp add: comp_def case_prod_unfold) (metis map_map map_snd_enumerate comp_apply map_cong)
  moreover have "(msg_object (messages ! i), i) \<in> set ?ws"
    using assms(2) by (force simp: in_set_enumerate_eq)
  ultimately have "map_of (rev ?ws) (msg_object (messages ! i)) = Some i"
    using assms(1) by (intro map_of_is_SomeI) (simp_all add: rev_map [symmetric])
  then show ?thesis
    using dict.get_put_all [of ?ws "[]" "msg_object (messages ! i)"]
    by (simp add: \<open>message_indexes messages = _\<close>)
qed

lemma fold_update_wf:
  assumes "\<forall>(i, m) \<in> set d. Q i m" and "\<forall>(x, y) \<in> set zs. Q (key x) y"
  shows "\<forall>(i, m) \<in> set (fold (\<lambda>(original, returned). AList.update (key original) returned) zs d). Q i m"
  using assms
proof (induction zs arbitrary: d)
  case (Cons z zs)
  obtain x y where z: "z = (x, y)" by force
  have "\<forall>(i, m) \<in> set (AList.update (key x) y d). Q i m"
    using Cons.prems z by (auto dest!: set_update_values)
  then show ?case using Cons z by simp
qed simp

lemma select_group_wf [inv_intros]:
  assumes "distinct (map msg_object messages)" and "set g \<subseteq> set messages" and "sel_wf messages st"
  shows "sel_wf messages (fst (select_group messages b g tr mb st))"
proof (cases rule: select_group_cases [of messages b g tr mb st])
  case (same ok)
  then show ?thesis using assms(3) by simp
next
  case (commit chosen ids)
  let ?key = "\<lambda>m. the (map_of (message_indexes messages) (msg_object m))"
  have "?key x < length messages \<and> msg_id y = msg_id (messages ! ?key x)" if xy: "(x, y) \<in> set (zip g chosen)" for x y
  proof -
    obtain i where "i < length messages" "x = messages ! i"
      using xy assms(2) by (metis in_set_conv_nth set_zip_leftD subsetD)
    moreover have "msg_id y = msg_id x"
      using xy commit(1) by (auto simp: set_zip) (metis length_map nth_map)
    ultimately show ?thesis using message_indexes_lookup [OF assms(1)] by simp
  qed
  then have "\<forall>(i, m) \<in> set (fold (\<lambda>(original, returned). AList.update (?key original) returned) (zip g chosen) (selected st)).
      i < length messages \<and> msg_id m = msg_id (messages ! i)"
    using assms(3) by (intro fold_update_wf) (auto simp: sel_wf_def)
  then show ?thesis unfolding commit(3) sel_wf_def by simp
qed

lemma select_while_wf [inv_intros]:
  assumes "distinct (map msg_object messages)"
  shows "(\<forall>g \<in> set gs. set g \<subseteq> set messages) \<Longrightarrow> sel_wf messages st \<Longrightarrow>
    sel_wf messages (select_while messages b tr gs st)"
proof (induction gs arbitrary: st)
  case (Cons g gs)
  obtain st' ok where s: "select_group messages b g tr None st = (st', ok)" by force
  have "set g \<subseteq> set messages" using Cons.prems(1) by simp
  from select_group_wf [OF assms this Cons.prems(2), of b tr None] s have "sel_wf messages st'" by simp
  with Cons.IH [of st'] Cons.prems(1) show ?case by (simp add: s)
qed simp

lemma build_turns_subset:
  assumes "t \<in> set (build_turns messages)"
  shows "set (turn_messages t) \<subseteq> set messages"
  using assms arg_cong [OF flatten_build_turns [of messages], of set] by (auto simp: flatten_turns_def)

lemma select_active_wf:
  assumes "distinct (map msg_object messages)" and "messages \<noteq> []"
  shows "sel_wf messages (select_active messages b)"
proof -
  let ?t = "last (build_turns messages)"
  have t: "set (turn_messages ?t) \<subseteq> set messages"
    using assms(2) by (intro build_turns_subset last_in_set) simp
  then have st: "set s \<subseteq> set messages" if "s \<in> set (steps ?t)" for s
    using that by (auto simp: turn_messages_def)
  have an: "set (case anchor ?t of None \<Rightarrow> [] | Some m \<Rightarrow> [m]) \<subseteq> set messages"
    using t by (auto simp: turn_messages_def)
  have start: "sel_wf messages \<lparr>selected = [], sel_truncated_ids = [], used_tokens = 0\<rparr>"
    by (simp add: sel_wf_def)
  have bl: "set s \<subseteq> set messages" if "s \<in> set (butlast (steps ?t))" for s
    using st in_set_butlastD [OF that] .
  have tb: "set (turn_messages u) \<subseteq> set messages" if "u \<in> set (butlast (build_turns messages))" for u
    using build_turns_subset in_set_butlastD [OF that] .
  have fin: "set (if steps ?t \<noteq> [] then last (steps ?t) else []) \<subseteq> set messages"
    using st [OF last_in_set] by auto
  show ?thesis
    unfolding select_active_def Let_def
    using start an fin bl tb assms(1)
    by (intro select_while_wf) (simp_all add: select_group_wf)
qed

lemma selected_order:
  assumes "distinct (map fst d)" and "\<forall>(i, m) \<in> set d. i < n \<and> f m = g i"
  shows "map f (map (\<lambda>i. the (map_of d i)) (sort (map fst d))) = map g (filter (\<lambda>i. i \<in> fst ` set d) [0 ..< n])"
proof -
  have "sort (map fst d) = filter (\<lambda>i. i \<in> fst ` set d) [0 ..< n]"
    using assms by (intro sorted_distinct_set_unique) (auto simp: sorted_wrt_filter)
  moreover have "f (the (map_of d i)) = g i" if "i \<in> fst ` set d" for i
    using that assms by (auto simp: map_of_is_SomeI)
  ultimately show ?thesis by (auto simp: comp_def)
qed

lemma enumerate_filter_map:
  "map (\<lambda>(i, m). f m) (filter (\<lambda>(i, m). P i) (enumerate 0 ms)) = map (\<lambda>i. f (ms ! i)) (filter P [0 ..< length ms])"
proof -
  have "enumerate 0 ms = map (\<lambda>i. (i, ms ! i)) [0 ..< length ms]"
    by (rule nth_equalityI) (auto simp: nth_enumerate_eq)
  then show ?thesis by (simp add: filter_map comp_def)
qed

text \<open>The view keeps the order and accounts for every message. The returned messages carry, in the
  original order, the identifiers of the messages at some set of positions, and the dropped
  identifiers are those of all other positions.\<close>

lemma fit_active_accounts:
  assumes "distinct (map msg_object messages)" and "p = fit_active_messages_to_budget messages token_budget"
  shows "\<exists>K. map msg_id (ab_messages p) = map (\<lambda>i. msg_id (messages ! i)) (filter (\<lambda>i. i \<in> K) [0 ..< length messages])
    \<and> dropped_message_ids p = map (\<lambda>i. msg_id (messages ! i)) (filter (\<lambda>i. i \<notin> K) [0 ..< length messages])"
proof -
  let ?b = "max 0 token_budget"
  let ?st = "select_active messages ?b"
  have ids: "map (\<lambda>i. msg_id (messages ! i)) [0 ..< length messages] = map msg_id messages"
    by (rule nth_equalityI) auto
  consider (none) "messages = [] \<or> ?b = 0" | (all) "messages \<noteq> []" "?b \<noteq> 0" "message_tokens messages \<le> ?b"
    | (some) "messages \<noteq> []" "?b \<noteq> 0" "message_tokens messages > ?b" by linarith
  then show ?thesis
  proof cases
    case none
    then show ?thesis
      by (intro exI [of _ "{}"]) (simp add: assms(2) fit_active_messages_to_budget_def Let_def ids)
  next
    case all
    then show ?thesis
      by (intro exI [of _ UNIV]) (simp add: assms(2) fit_active_messages_to_budget_def Let_def ids)
  next
    case some
    have wf: "distinct (map fst (selected ?st))"
      "\<forall>(i, m) \<in> set (selected ?st). i < length messages \<and> msg_id m = msg_id (messages ! i)"
      using select_active_inv [of ?b messages] select_active_wf [OF assms(1) some(1), of ?b]
      by (auto simp: sel_inv_def sel_wf_def)
    have "ab_messages p = map (\<lambda>i. the (map_of (selected ?st) i)) (sort (map fst (selected ?st)))"
      "dropped_message_ids p = map (\<lambda>(index, m). msg_id m)
         (filter (\<lambda>(index, m). index \<notin> set (map fst (selected ?st))) (enumerate 0 messages))"
    proof -
      have c: "(messages = [] \<or> ?b = 0) = False" "(message_tokens messages \<le> ?b) = False" using some by auto
      show "ab_messages p = map (\<lambda>i. the (map_of (selected ?st) i)) (sort (map fst (selected ?st)))"
        "dropped_message_ids p = map (\<lambda>(index, m). msg_id m)
         (filter (\<lambda>(index, m). index \<notin> set (map fst (selected ?st))) (enumerate 0 messages))"
        unfolding assms(2) fit_active_messages_to_budget_def Let_def c if_False by simp_all
    qed
    then show ?thesis
      using selected_order [OF wf] enumerate_filter_map [of msg_id "\<lambda>i. i \<notin> set (map fst (selected ?st))" messages]
      by (intro exI [of _ "fst ` set (selected ?st)"]) simp
  qed
qed

definition demo_message :: "nat \<Rightarrow> string \<Rightarrow> nat \<Rightarrow> message" where
  "demo_message i r n = \<lparr>msg_object = i, msg_id = [char_of (97 + i)], role = r, parts = [TextPart (replicate n 97)],
     msg_peer_id = None, created_at = None, turn_id = None, message_kind = None, source_message_ids = None\<rparr>"

definition demo_messages :: "message list" where
  "demo_messages = [demo_message 0 ''user'' 40, demo_message 1 ''assistant'' 8]"

end
