(* ===== verification/Task_Store.thy ===== *)
theory Task_Store
  imports Message
begin

text \<open>
  Task records and their persistent store, the data types of \<open>openviking/service/task_tracker.py\<close> and
  \<open>openviking/service/task_store.py\<close>. The AGFS volume is the list of its files with their decoded
  contents: a read returns what was last written to the path, \<open>rm\<close> with \<open>force\<close> removes the file if
  it is there, \<open>ls\<close> gives the direct children, and making the directories does not touch files.
  Timestamps are rational seconds.
\<close>

section \<open>Task records\<close>

datatype task_status = PENDING | RUNNING | CANCELLING | COMPLETED | FAILED | CANCELLED

fun status_value :: "task_status \<Rightarrow> string" where
  "status_value PENDING = ''pending''"
| "status_value RUNNING = ''running''"
| "status_value CANCELLING = ''cancelling''"
| "status_value COMPLETED = ''completed''"
| "status_value FAILED = ''failed''"
| "status_value CANCELLED = ''cancelled''"

definition status_of_value :: "string \<Rightarrow> task_status res" where
  "status_of_value v =
     (case find (\<lambda>s. status_value s = v) [PENDING, RUNNING, CANCELLING, COMPLETED, FAILED, CANCELLED] of
        Some s \<Rightarrow> Inr s | None \<Rightarrow> Inl ValueError)"

definition TERMINAL_STATUSES :: "task_status list" where
  "TERMINAL_STATUSES = [COMPLETED, FAILED, CANCELLED]"

definition ACTIVE_STATUSES :: "task_status list" where
  "ACTIVE_STATUSES = [PENDING, RUNNING, CANCELLING]"

definition CANCELLABLE_TASK_TYPES :: "string list" where
  "CANCELLABLE_TASK_TYPES = [''add_resource'', ''session_commit'', ''admin_reindex'', ''snapshot_restore_reindex'']"

record task_record =
  task_id :: string
  task_type :: string
  status :: task_status
  tr_created_at :: rat
  updated_at :: rat
  resource_id :: "string option"
  account_id :: string
  user_id :: string
  meta :: json
  stage :: "string option"
  result :: "json option"
  error :: "string option"
  auth :: json

section \<open>Payloads\<close>

record task_payload =
  tp_task_id :: string
  tp_task_type :: string
  tp_status :: string
  tp_created_at :: rat
  tp_updated_at :: rat
  tp_resource_id :: "string option"
  tp_account_id :: string
  tp_user_id :: string
  tp_meta :: json
  tp_stage :: "string option"
  tp_result :: "json option"
  tp_error :: "string option"
  tp_auth :: json

definition task_to_payload :: "task_record \<Rightarrow> task_payload" where
  "task_to_payload t =
     \<lparr>tp_task_id = task_id t, tp_task_type = task_type t, tp_status = status_value (status t),
      tp_created_at = tr_created_at t, tp_updated_at = updated_at t, tp_resource_id = resource_id t,
      tp_account_id = account_id t, tp_user_id = user_id t, tp_meta = meta t, tp_stage = stage t,
      tp_result = result t, tp_error = error t, tp_auth = auth t\<rparr>"

definition record_from_payload :: "task_payload \<Rightarrow> task_record res" where
  "record_from_payload p =
     bind_res (status_of_value (tp_status p)) (\<lambda>s. Inr
       \<lparr>task_id = tp_task_id p, task_type = tp_task_type p, status = s,
        tr_created_at = tp_created_at p, updated_at = tp_updated_at p, resource_id = tp_resource_id p,
        account_id = tp_account_id p, user_id = tp_user_id p, meta = tp_meta p, stage = tp_stage p,
        result = tp_result p, error = tp_error p, auth = tp_auth p\<rparr>)"

lemma status_of_value_inverse [simp]: "status_of_value (status_value s) = Inr s"
  by (cases s) (simp_all add: status_of_value_def)

lemma record_payload_roundtrip [simp]: "record_from_payload (task_to_payload t) = Inr t"
  by (simp add: record_from_payload_def task_to_payload_def)

section \<open>The store\<close>

definition ROOT_PREFIX :: string where "ROOT_PREFIX = ''/local''"
definition SYSTEM_DIRNAME :: string where "SYSTEM_DIRNAME = ''_system''"
definition TASKS_DIRNAME :: string where "TASKS_DIRNAME = ''tasks''"
definition SYSTEM_TASK_ACCOUNT_ID :: string where "SYSTEM_TASK_ACCOUNT_ID = ''_system''"

definition account_dir :: "string \<Rightarrow> string" where
  "account_dir account = ROOT_PREFIX @ ''/'' @ account"

definition system_dir :: "string \<Rightarrow> string" where
  "system_dir account =
     (if account = SYSTEM_TASK_ACCOUNT_ID then account_dir account
      else account_dir account @ ''/'' @ SYSTEM_DIRNAME)"

definition task_root_dir :: "string \<Rightarrow> string" where
  "task_root_dir account = system_dir account @ ''/'' @ TASKS_DIRNAME"

definition task_dir :: "string \<Rightarrow> string \<Rightarrow> string" where
  "task_dir account user = task_root_dir account @ ''/'' @ user"

definition task_path :: "string \<Rightarrow> string \<Rightarrow> string \<Rightarrow> string" where
  "task_path account user tid = task_dir account user @ ''/'' @ tid @ ''.json''"

type_synonym files = "(string \<times> task_payload) list"

definition store_get :: "string \<Rightarrow> string option \<Rightarrow> string option \<Rightarrow> files \<Rightarrow> task_payload option" where
  "store_get tid account user fs =
     (case (account, user) of
        (Some a, Some u) \<Rightarrow> if a = [] \<or> u = [] then None else map_of fs (task_path a u tid)
      | _ \<Rightarrow> None)"

text \<open>The files directly below a directory, as \<open>ls\<close> lists them.\<close>

definition is_child :: "string \<Rightarrow> string \<Rightarrow> bool" where
  "is_child directory path \<longleftrightarrow>
     startswith path (directory @ ''/'') \<and> CHR ''/'' \<notin> set (drop (length directory + 1) path)"

definition store_list :: "string \<Rightarrow> string option \<Rightarrow> files \<Rightarrow> task_payload list" where
  "store_list account user fs =
     (case user of
        None \<Rightarrow> []
      | Some u \<Rightarrow>
          if u = [] then []
          else map snd (filter (\<lambda>(path, _). is_child (task_dir account u) path \<and> endswith path ''.json'') fs))"

definition store_delete :: "string \<Rightarrow> string \<Rightarrow> string option \<Rightarrow> files \<Rightarrow> files" where
  "store_delete tid account user fs =
     (case user of
        None \<Rightarrow> fs
      | Some u \<Rightarrow> if u = [] then fs else AList.delete (task_path account u tid) fs)"

definition write_task :: "task_record \<Rightarrow> files \<Rightarrow> files res" where
  "write_task t fs =
     (if account_id t = [] \<or> user_id t = [] then Inl ValueError
      else Inr (AList.update (task_path (account_id t) (user_id t) (task_id t)) (task_to_payload t) fs))"

section \<open>Paths identify tasks\<close>

definition slash_free :: "string \<Rightarrow> bool" where
  "slash_free s \<longleftrightarrow> s \<noteq> [] \<and> CHR ''/'' \<notin> set s"

lemmas task_path_defs = task_path_def task_dir_def task_root_dir_def system_dir_def account_dir_def
  ROOT_PREFIX_def SYSTEM_DIRNAME_def TASKS_DIRNAME_def SYSTEM_TASK_ACCOUNT_ID_def

definition task_path_segments :: "string \<Rightarrow> string \<Rightarrow> string \<Rightarrow> string list" where
  "task_path_segments a u tid =
     ['''', ''local'', a] @ (if a = ''_system'' then [] else [''_system'']) @ [''tasks'', u, tid @ ''.json'']"

lemma task_path_join: "task_path a u tid = join_with ''/'' (task_path_segments a u tid)"
  by (simp add: task_path_defs task_path_segments_def)

lemma task_path_parts:
  assumes "slash_free a" and "slash_free u" and "slash_free tid"
  shows "split_on (CHR ''/'') (task_path a u tid) = task_path_segments a u tid"
  unfolding task_path_join
  using assms by (intro split_on_join_with) (auto simp: task_path_segments_def slash_free_def)

lemma task_path_inject:
  assumes "slash_free a" "slash_free u" "slash_free tid" "slash_free a'" "slash_free u'" "slash_free tid'"
  shows "task_path a u tid = task_path a' u' tid' \<longleftrightarrow> a = a' \<and> u = u' \<and> tid = tid'"
proof
  assume "task_path a u tid = task_path a' u' tid'"
  then have "split_on (CHR ''/'') (task_path a u tid) = split_on (CHR ''/'') (task_path a' u' tid')" by simp
  then show "a = a' \<and> u = u' \<and> tid = tid'"
    using assms by (auto simp: task_path_parts task_path_segments_def split: if_splits)
qed simp

end
