(* ===== verification/Task_Work_Index.thy ===== *)
theory Task_Work_Index
  imports Py_Prelude
begin

text \<open>
  The runtime index of queue work owned by tasks, class \<open>TaskWorkIndex\<close> of
  \<open>openviking/service/task_work_index.py\<close>. Each method runs under the index lock, so it is one atomic
  operation. An asyncio task is its identity, a number. The callback \<open>is_cancellation_requested\<close> appears as the
  boolean it returns; the callback \<open>finalize_before_ack\<close> belongs to the tracker, whose theory
  composes it with \<open>remove_work\<close> and \<open>rollback_ack\<close>.
\<close>

record queue_task_metadata =
  qm_task_id :: string
  qm_work_id :: string
  qm_account_id :: string
  qm_user_id :: string

record work_index =
  wi_work :: "(string \<times> (string \<times> string) set) list"
  wi_active :: "(string \<times> nat set) list"
  wi_failures :: "(string \<times> string) list"

definition init_work_index :: work_index where
  "init_work_index = \<lparr>wi_work = [], wi_active = [], wi_failures = []\<rparr>"

definition get_set :: "string \<Rightarrow> (string \<times> 'a set) list \<Rightarrow> 'a set" where
  "get_set k d = (case map_of d k of None \<Rightarrow> {} | Some s \<Rightarrow> s)"

definition setdefault_add :: "string \<Rightarrow> 'a \<Rightarrow> (string \<times> 'a set) list \<Rightarrow> (string \<times> 'a set) list" where
  "setdefault_add k x d = AList.update k (insert x (get_set k d)) d"

definition discard_entry :: "string \<Rightarrow> 'a \<Rightarrow> (string \<times> 'a set) list \<Rightarrow> (string \<times> 'a set) list" where
  "discard_entry k x d =
     (case map_of d k of
        None \<Rightarrow> d
      | Some entries \<Rightarrow>
          if entries - {x} = {} then AList.delete k d else AList.update k (entries - {x}) d)"

text \<open>\<open>rebuild\<close>: the metadata that could be extracted from the messages of each queue, in order.\<close>

definition rebuild :: "(string \<times> queue_task_metadata list) list \<Rightarrow> work_index \<Rightarrow> work_index \<times> (string \<times> string \<times> string) list" where
  "rebuild snapshots idx =
     (let entries = concat (map (\<lambda>(queue_name, mds). map (\<lambda>md. (queue_name, md)) mds) snapshots);
          work = fold (\<lambda>(queue_name, md). setdefault_add (qm_task_id md) (queue_name, qm_work_id md)) entries [];
          owners = fold (\<lambda>(queue_name, md) ow.
            if qm_account_id md \<noteq> [] \<and> qm_user_id md \<noteq> []
            then AList.update (qm_task_id md) (qm_account_id md, qm_user_id md) ow else ow) entries []
      in (idx\<lparr>wi_work := work, wi_failures := []\<rparr>, owners))"

definition register_work :: "bool \<Rightarrow> string \<Rightarrow> queue_task_metadata option \<Rightarrow> work_index \<Rightarrow> work_index \<times> bool" where
  "register_work cancellation_requested queue_name metadata idx =
     (case metadata of
        None \<Rightarrow> (idx, True)
      | Some md \<Rightarrow>
          if cancellation_requested then (idx, False)
          else (idx\<lparr>wi_work := setdefault_add (qm_task_id md) (queue_name, qm_work_id md) (wi_work idx)\<rparr>, True))"

definition remove_work :: "string \<Rightarrow> queue_task_metadata \<Rightarrow> work_index \<Rightarrow> work_index \<times> bool \<times> bool" where
  "remove_work queue_name md idx =
     (let removed = ((queue_name, qm_work_id md) \<in> get_set (qm_task_id md) (wi_work idx));
          idx' = idx\<lparr>wi_work := discard_entry (qm_task_id md) (queue_name, qm_work_id md) (wi_work idx)\<rparr>;
          became_idle = (removed \<and> get_set (qm_task_id md) (wi_work idx') = {}
            \<and> get_set (qm_task_id md) (wi_active idx') = {})
      in (idx', removed, became_idle))"

definition rollback_ack :: "string \<Rightarrow> queue_task_metadata \<Rightarrow> work_index \<Rightarrow> work_index" where
  "rollback_ack queue_name md idx =
     idx\<lparr>wi_work := setdefault_add (qm_task_id md) (queue_name, qm_work_id md) (wi_work idx)\<rparr>"

definition has_work :: "string \<Rightarrow> string option \<Rightarrow> work_index \<Rightarrow> bool" where
  "has_work tid exclude_work_id idx =
     (case exclude_work_id of
        Some w \<Rightarrow> \<exists>(_, work_id) \<in> get_set tid (wi_work idx). work_id \<noteq> w
      | None \<Rightarrow> get_set tid (wi_work idx) \<noteq> {} \<or> get_set tid (wi_active idx) \<noteq> {})"

definition record_work_failure :: "string \<Rightarrow> string \<Rightarrow> work_index \<Rightarrow> work_index" where
  "record_work_failure tid err idx =
     (case map_of (wi_failures idx) tid of
        None \<Rightarrow> idx\<lparr>wi_failures := AList.update tid err (wi_failures idx)\<rparr>
      | Some _ \<Rightarrow> idx)"

definition failure :: "string \<Rightarrow> work_index \<Rightarrow> string option" where
  "failure tid idx = map_of (wi_failures idx) tid"

definition clear_failure :: "string \<Rightarrow> work_index \<Rightarrow> work_index" where
  "clear_failure tid idx = idx\<lparr>wi_failures := AList.delete tid (wi_failures idx)\<rparr>"

text \<open>\<open>register_active\<close> returns whether the asyncio task is to be cancelled instead.\<close>

definition register_active :: "bool \<Rightarrow> string \<Rightarrow> nat \<Rightarrow> work_index \<Rightarrow> work_index \<times> bool" where
  "register_active cancelled tid active_task idx =
     (if cancelled then (idx, True)
      else (idx\<lparr>wi_active := setdefault_add tid active_task (wi_active idx)\<rparr>, False))"

definition unregister_active :: "string \<Rightarrow> nat \<Rightarrow> work_index \<Rightarrow> work_index" where
  "unregister_active tid active_task idx = idx\<lparr>wi_active := discard_entry tid active_task (wi_active idx)\<rparr>"

text \<open>\<open>cancel_active\<close> changes nothing in the index; it returns the asyncio tasks it cancels.\<close>

definition cancel_active :: "string \<Rightarrow> work_index \<Rightarrow> nat set" where
  "cancel_active tid idx = get_set tid (wi_active idx)"

section \<open>A dictionary of sets as a set of pairs\<close>

lemma get_set_Nil [simp]: "get_set k [] = {}"
  by (simp add: get_set_def)

lemma get_set_setdefault_add [simp]:
  "get_set k' (setdefault_add k x d) = (if k' = k then insert x (get_set k d) else get_set k' d)"
  by (simp add: get_set_def setdefault_add_def AList.update_conv')

lemma get_set_discard_entry [simp]:
  "get_set k' (discard_entry k x d) = (if k' = k then get_set k d - {x} else get_set k' d)"
  by (auto simp: get_set_def discard_entry_def AList.update_conv' AList.delete_conv' split: option.splits)

text \<open>The abstract view of the index: which work items exist.\<close>

definition work_items :: "work_index \<Rightarrow> (string \<times> string \<times> string) set" where
  "work_items idx = {(tid, q, w). (q, w) \<in> get_set tid (wi_work idx)}"

lemma work_items_register [simp]:
  "work_items (fst (register_work False q (Some md) idx)) = insert (qm_task_id md, q, qm_work_id md) (work_items idx)"
  by (auto simp: work_items_def register_work_def split: if_splits)

lemma work_items_remove [simp]:
  "work_items (fst (remove_work q md idx)) = work_items idx - {(qm_task_id md, q, qm_work_id md)}"
  by (auto simp: work_items_def remove_work_def Let_def split: if_splits)

lemma work_items_rollback [simp]:
  "work_items (rollback_ack q md idx) = insert (qm_task_id md, q, qm_work_id md) (work_items idx)"
  by (auto simp: work_items_def rollback_ack_def split: if_splits)

lemma has_work_iff:
  "has_work tid None idx \<longleftrightarrow> (\<exists>q w. (tid, q, w) \<in> work_items idx) \<or> get_set tid (wi_active idx) \<noteq> {}"
  by (auto simp: has_work_def work_items_def)

lemma remove_work_idle:
  "remove_work q md idx = (idx', removed, idle) \<Longrightarrow>
     removed = ((qm_task_id md, q, qm_work_id md) \<in> work_items idx)
     \<and> idle = (removed \<and> \<not> has_work (qm_task_id md) None idx')"
  by (auto simp: remove_work_def Let_def has_work_def work_items_def)

text \<open>Rebuilding from the queues. After \<open>rebuild\<close> the work items of the index are exactly the pairs of
  a queue and a message that carries task metadata, whatever the index held before, so a
  restart neither loses nor invents work.\<close>

lemma rebuild_exact:
  "work_items (fst (rebuild snapshots idx)) =
     {(qm_task_id md, q, qm_work_id md) | q md mds. (q, mds) \<in> set snapshots \<and> md \<in> set mds}"
proof -
  let ?add = "\<lambda>(queue_name, md). setdefault_add (qm_task_id md) (queue_name, qm_work_id md)"
  have fold: "(q, w) \<in> get_set tid (fold ?add es d) \<longleftrightarrow>
      (q, w) \<in> get_set tid d \<or> (\<exists>md. (q, md) \<in> set es \<and> tid = qm_task_id md \<and> w = qm_work_id md)" for tid q w es d
  proof (induction es arbitrary: d)
    case (Cons e es)
    obtain qn md where "e = (qn, md)" by force
    with Cons show ?case by (auto split: if_splits)
  qed simp
  show ?thesis
    unfolding work_items_def rebuild_def Let_def fst_conv work_index.simps
    by (auto simp: fold get_set_Nil) force
qed

end
