(* ===== verification/Task_Tracker.thy ===== *)
theory Task_Tracker
  imports Task_Store Task_Work_Index "HOL-Library.Log_Nat"
begin

text \<open>
  The task tracker, \<open>openviking/service/task_tracker.py\<close>: a process-local cache of task records over the
  persistent store, with the work index deciding when a task may become terminal. All mutations run
  on one owner loop and hold the lock of their task, so each body between two acquisitions of
  that lock is one atomic operation here; \<open>complete\<close>, \<open>fail\<close> and \<open>cancel\<close> release the lock before they
  finalize, and the step relation has these two halves as separate steps too. The clock, fresh identifiers and
  whether the store accepts a write (\<open>io\<close>) are arguments. Cancellation of the calling coroutine is
  not modelled.
\<close>

section \<open>Sanitization\<close>

definition is_secret_char :: "char \<Rightarrow> bool" where
  "is_secret_char c \<longleftrightarrow>
     (let n = (of_char c :: nat)
      in (97 \<le> n \<and> n \<le> 122) \<or> (65 \<le> n \<and> n \<le> 90) \<or> (48 \<le> n \<and> n \<le> 57) \<or> n = 46 \<or> n = 95 \<or> n = 45)"

definition ascii_lower :: "char \<Rightarrow> char" where
  "ascii_lower c = (let n = (of_char c :: nat) in if 65 \<le> n \<and> n \<le> 90 then char_of (n + 32) else c)"

text \<open>The prefixes of \<open>_SENSITIVE_PATTERNS\<close> without \<open>Bearer\s+\<close>, compared without case.\<close>

definition SECRET_PREFIXES :: "string list" where
  "SECRET_PREFIXES = [''sk-'', ''cr_'', ''ghp_'', ''ntn_'', ''xoxb-'', ''xoxa-'', ''xoxp-'', ''xoxr-'', ''xoxs-'']"

definition after_prefix :: "string \<Rightarrow> string list" where
  "after_prefix s =
     map (\<lambda>p. drop (length p) s) (filter (\<lambda>p. startswith (map ascii_lower s) p) SECRET_PREFIXES)
     @ (if startswith (map ascii_lower s) ''bearer''
        then (let r = drop 6 s in if r \<noteq> [] \<and> is_space (hd r) then [dropWhile is_space r] else [])
        else [])"

text \<open>The text after a match of the pattern at the start of \<open>s\<close>, if there is one.\<close>

definition secret_rest :: "string \<Rightarrow> string option" where
  "secret_rest s =
     (case filter (\<lambda>r. r \<noteq> [] \<and> is_secret_char (hd r)) (after_prefix s) of
        [] \<Rightarrow> None
      | r # _ \<Rightarrow> Some (dropWhile is_secret_char r))"

lemma startswith_length: "startswith s p \<Longrightarrow> length p \<le> length s"
  unfolding startswith_def by (metis length_take min.cobounded1)

lemma after_prefix_shorter:
  assumes "t \<in> set (after_prefix s)"
  shows "length t < length s"
proof -
  consider p where "p \<in> set SECRET_PREFIXES" "startswith (map ascii_lower s) p" "t = drop (length p) s"
    | "startswith (map ascii_lower s) ''bearer''" "t = dropWhile is_space (drop 6 s)"
    using assms by (auto simp: after_prefix_def Let_def split: if_splits)
  then show ?thesis
  proof cases
    case (1 p)
    then have "0 < length p" by (auto simp: SECRET_PREFIXES_def)
    with startswith_length [OF 1(2)] have "length s - length p < length s"
      by (intro diff_less) auto
    then show ?thesis by (simp add: 1(3))
  next
    case 2
    then have "6 \<le> length s" using startswith_length [OF 2(1)] by simp
    with 2(2) length_dropWhile_le [of is_space "drop 6 s"] show ?thesis by simp
  qed
qed

lemma secret_rest_shorter: "secret_rest s = Some r \<Longrightarrow> length r < length s"
proof -
  assume "secret_rest s = Some r"
  then obtain t ts where "filter (\<lambda>r. r \<noteq> [] \<and> is_secret_char (hd r)) (after_prefix s) = t # ts"
    and r: "r = dropWhile is_secret_char t"
    by (auto simp: secret_rest_def split: list.splits)
  then have "t \<in> set (after_prefix s)" by (metis filter_is_subset list.set_intros(1) subsetD)
  from after_prefix_shorter [OF this] show ?thesis
    using r length_dropWhile_le [of is_secret_char t] by simp
qed

function redact :: "string \<Rightarrow> string" where
  "redact s =
     (case s of
        [] \<Rightarrow> []
      | c # cs \<Rightarrow>
          (case secret_rest s of
             Some rest \<Rightarrow> ''[REDACTED]'' @ redact rest
           | None \<Rightarrow> c # redact cs))"
  by pat_completeness auto
termination
  by (relation "measure length") (auto dest: secret_rest_shorter)

declare redact.simps [simp del]

definition MAX_ERROR_LEN :: nat where
  "MAX_ERROR_LEN = 500"

definition sanitize_error :: "string \<Rightarrow> string" where
  "sanitize_error err =
     (let sanitized = redact err
      in if length sanitized > MAX_ERROR_LEN then take MAX_ERROR_LEN sanitized @ ''...[truncated]''
         else sanitized)"

definition SENSITIVE_RESULT_KEYS :: "utext list" where
  "SENSITIVE_RESULT_KEYS = [cps ''user_key'']"

function sanitize_task_result :: "json \<Rightarrow> json" where
  "sanitize_task_result (JDict kvs) =
     JDict (map (\<lambda>(key, val). (key, sanitize_task_result val))
       (filter (\<lambda>(key, val). key \<notin> set SENSITIVE_RESULT_KEYS) kvs))"
| "sanitize_task_result (JList xs) = JList (map sanitize_task_result xs)"
| "sanitize_task_result JNull = JNull"
| "sanitize_task_result (JBool b) = JBool b"
| "sanitize_task_result (JInt i) = JInt i"
| "sanitize_task_result (JFloat r) = JFloat r"
| "sanitize_task_result (JStr t) = JStr t"
  by pat_completeness auto
termination
proof (relation "measure size")
  fix kvs :: "(utext \<times> json) list" and z key val
  assume "z \<in> set (filter (\<lambda>(key, val). key \<notin> set SENSITIVE_RESULT_KEYS) kvs)" "(key, val) = z"
  then have "(key, val) \<in> set kvs" by auto
  then have "size_prod (\<lambda>x. 0) size (key, val) \<le> size_list (size_prod (\<lambda>x. 0) size) kvs"
    by (rule size_list_estimation' [OF _ order_refl])
  then show "(val, JDict kvs) \<in> measure size" by simp
qed (auto simp: less_Suc_eq_le size_list_estimation')

section \<open>The tracker\<close>

record tracker =
  tasks :: "(string \<times> task_record) list"
  store :: files
  work :: work_index

definition MAX_TASKS :: nat where "MAX_TASKS = 10000"
definition TTL_COMPLETED :: rat where "TTL_COMPLETED = 86400"
definition TTL_FAILED :: rat where "TTL_FAILED = 604800"

definition matches_owner :: "task_record \<Rightarrow> string option \<Rightarrow> string option \<Rightarrow> bool" where
  "matches_owner task account user =
     (if account \<noteq> None \<and> Some (account_id task) \<noteq> account then False
      else if user \<noteq> None \<and> Some (user_id task) \<noteq> user then False
      else True)"

definition validate_owner :: "string \<Rightarrow> string \<Rightarrow> unit res" where
  "validate_owner account user = (if account = [] \<or> user = [] then Inl ValueError else Inr ())"

definition is_cancellation_requested :: "string \<Rightarrow> tracker \<Rightarrow> bool" where
  "is_cancellation_requested tid tr =
     (case map_of (tasks tr) tid of
        None \<Rightarrow> False
      | Some task \<Rightarrow> status task = CANCELLING \<or> status task = CANCELLED)"

definition cached_task :: "string \<Rightarrow> tracker \<Rightarrow> task_record option" where
  "cached_task tid tr = map_of (tasks tr) tid"

definition cache_snapshot :: "tracker \<Rightarrow> task_record list" where
  "cache_snapshot tr = map snd (tasks tr)"

definition publish_task :: "task_record \<Rightarrow> tracker \<Rightarrow> tracker" where
  "publish_task task tr = tr\<lparr>tasks := AList.update (task_id task) task (tasks tr)\<rparr>"

definition merge_loaded_task :: "task_record \<Rightarrow> tracker \<Rightarrow> tracker" where
  "merge_loaded_task loaded tr =
     (case map_of (tasks tr) (task_id loaded) of
        None \<Rightarrow> publish_task loaded tr
      | Some cached \<Rightarrow> if updated_at loaded > updated_at cached then publish_task loaded tr else tr)"

definition merge_loaded_tasks :: "task_record list \<Rightarrow> tracker \<Rightarrow> tracker" where
  "merge_loaded_tasks loaded tr = fold merge_loaded_task loaded tr"

text \<open>
  \<open>math.nextafter(t, inf)\<close> of a double \<open>t\<close> of at least one half: the spacing of the doubles
  with the binary exponent of \<open>t\<close>.
\<close>

definition nextafter :: "rat \<Rightarrow> rat" where
  "nextafter t = t + 2 ^ floorlog 2 (nat \<lfloor>t\<rfloor>) / 2 ^ 53"

definition next_updated_at :: "rat \<Rightarrow> task_record \<Rightarrow> rat" where
  "next_updated_at now task = max now (nextafter (updated_at task))"

definition copy_task :: "task_record \<Rightarrow> task_record" where
  "copy_task task =
     task\<lparr>meta := sanitize_task_result (meta task), result := map_option sanitize_task_result (result task),
       auth := JDict []\<rparr>"

fun map_res :: "('a \<Rightarrow> 'b res) \<Rightarrow> 'a list \<Rightarrow> 'b list res" where
  "map_res f [] = Inr []"
| "map_res f (x # xs) = bind_res (f x) (\<lambda>y. bind_res (map_res f xs) (\<lambda>ys. Inr (y # ys)))"

definition load_from_store :: "string \<Rightarrow> string \<Rightarrow> string option \<Rightarrow> tracker \<Rightarrow> task_record option res" where
  "load_from_store tid account user tr =
     (case store_get tid (Some account) user (store tr) of
        None \<Rightarrow> Inr None
      | Some payload \<Rightarrow> bind_res (record_from_payload payload) (\<lambda>t. Inr (Some t)))"

definition load_all_from_store :: "string \<Rightarrow> string option \<Rightarrow> tracker \<Rightarrow> task_record list res" where
  "load_all_from_store account user tr = map_res record_from_payload (store_list account user (store tr))"

definition load_for_update :: "string \<Rightarrow> string option \<Rightarrow> string option \<Rightarrow> tracker \<Rightarrow> task_record option res" where
  "load_for_update tid account user tr =
     (case cached_task tid tr of
        Some task \<Rightarrow> Inr (if matches_owner task account user then Some task else None)
      | None \<Rightarrow>
          (case (account, user) of
             (Some a, Some u) \<Rightarrow> load_from_store tid a (Some u) tr
           | _ \<Rightarrow> Inr None))"

text \<open>The write and the publication of its snapshot are settled together.\<close>

definition persist_and_publish :: "bool \<Rightarrow> task_record \<Rightarrow> tracker \<Rightarrow> tracker res" where
  "persist_and_publish io task tr =
     (if \<not> io then Inl StoreError
      else bind_res (write_task task (store tr)) (\<lambda>fs. Inr (publish_task task (tr\<lparr>store := fs\<rparr>))))"

text \<open>An operation returns the new state and its outcome; a failed write leaves the state.\<close>

definition persist_then :: "bool \<Rightarrow> task_record \<Rightarrow> 'a \<Rightarrow> tracker \<Rightarrow> tracker \<times> 'a res" where
  "persist_then io task out tr =
     (case persist_and_publish io task tr of Inl e \<Rightarrow> (tr, Inl e) | Inr tr' \<Rightarrow> (tr', Inr out))"

section \<open>Creating tasks\<close>

definition new_task :: "string \<Rightarrow> rat \<Rightarrow> string \<Rightarrow> string option \<Rightarrow> string \<Rightarrow> string \<Rightarrow> json \<Rightarrow> json \<Rightarrow> task_record" where
  "new_task tid now ttype resource account user mt au =
     \<lparr>task_id = tid, task_type = ttype, status = PENDING, tr_created_at = now, updated_at = now,
      resource_id = resource, account_id = account, user_id = user, meta = mt, stage = None,
      result = None, error = None, auth = au\<rparr>"

definition create_on_owner :: "bool \<Rightarrow> task_record \<Rightarrow> bool \<Rightarrow> tracker \<Rightarrow> tracker \<times> task_record res" where
  "create_on_owner io task check_existing tr =
     (if \<not> check_existing then persist_then io task (copy_task task) tr
      else
        case cached_task (task_id task) tr of
          Some existing \<Rightarrow>
            if \<not> matches_owner existing (Some (account_id task)) (Some (user_id task)) then (tr, Inl ValueError)
            else (tr, Inr (copy_task existing))
        | None \<Rightarrow>
            (case load_from_store (task_id task) (account_id task) (Some (user_id task)) tr of
               Inl e \<Rightarrow> (tr, Inl e)
             | Inr (Some existing) \<Rightarrow> (publish_task existing tr, Inr (copy_task existing))
             | Inr None \<Rightarrow> persist_then io task (copy_task task) tr))"

definition create :: "string \<Rightarrow> rat \<Rightarrow> bool \<Rightarrow> string \<Rightarrow> string option \<Rightarrow> string \<Rightarrow> string \<Rightarrow> string option
    \<Rightarrow> json \<Rightarrow> json \<Rightarrow> tracker \<Rightarrow> tracker \<times> task_record res" where
  "create new_id now io ttype resource account user tid mt au tr =
     (case validate_owner account user of
        Inl e \<Rightarrow> (tr, Inl e)
      | Inr _ \<Rightarrow>
          let task = new_task (case tid of Some t \<Rightarrow> (if t = [] then new_id else t) | None \<Rightarrow> new_id)
            now ttype resource account user mt au
          in create_on_owner io task (tid \<noteq> None) tr)"

definition has_active :: "string \<Rightarrow> string \<Rightarrow> string option \<Rightarrow> string option \<Rightarrow> task_record list \<Rightarrow> bool" where
  "has_active ttype resource account user ts =
     list_ex (\<lambda>t. task_type t = ttype \<and> resource_id t = Some resource \<and> matches_owner t account user
       \<and> status t \<in> set ACTIVE_STATUSES) ts"

definition create_if_no_running :: "string \<Rightarrow> rat \<Rightarrow> bool \<Rightarrow> string \<Rightarrow> string \<Rightarrow> string \<Rightarrow> string
    \<Rightarrow> tracker \<Rightarrow> tracker \<times> task_record option res" where
  "create_if_no_running new_id now io ttype resource account user tr =
     (case validate_owner account user of
        Inl e \<Rightarrow> (tr, Inl e)
      | Inr _ \<Rightarrow>
          (case load_all_from_store account (Some user) tr of
             Inl e \<Rightarrow> (tr, Inl e)
           | Inr loaded \<Rightarrow>
               let tr' = merge_loaded_tasks loaded tr
               in if has_active ttype resource (Some account) (Some user) (cache_snapshot tr') then (tr', Inr None)
                  else
                    let task = new_task new_id now ttype (Some resource) account user (JDict []) (JDict [])
                    in persist_then io task (Some (copy_task task)) tr'))"

section \<open>Lifecycle\<close>

definition start_task :: "rat \<Rightarrow> bool \<Rightarrow> string \<Rightarrow> string option \<Rightarrow> string option \<Rightarrow> string option \<Rightarrow> tracker \<Rightarrow> tracker \<times> unit res" where
  "start_task now io tid account user stg tr =
     (case load_for_update tid account user tr of
        Inl e \<Rightarrow> (tr, Inl e)
      | Inr None \<Rightarrow> (tr, Inr ())
      | Inr (Some task) \<Rightarrow>
          if status task \<in> {PENDING, RUNNING}
          then
            let updated = task\<lparr>status := RUNNING, stage := (case stg of None \<Rightarrow> stage task | Some s \<Rightarrow> Some s),
              updated_at := next_updated_at now task\<rparr>
            in persist_then io updated () tr
          else (tr, Inr ()))"

definition update_stage :: "rat \<Rightarrow> bool \<Rightarrow> string \<Rightarrow> string \<Rightarrow> string option \<Rightarrow> string option \<Rightarrow> tracker \<Rightarrow> tracker \<times> unit res" where
  "update_stage now io tid stg account user tr =
     (case load_for_update tid account user tr of
        Inl e \<Rightarrow> (tr, Inl e)
      | Inr None \<Rightarrow> (tr, Inr ())
      | Inr (Some task) \<Rightarrow>
          if status task \<in> {PENDING, RUNNING}
          then persist_then io (task\<lparr>stage := Some stg, updated_at := next_updated_at now task\<rparr>) () tr
          else (tr, Inr ()))"

definition apply_work_error :: "string \<Rightarrow> work_index \<Rightarrow> task_record \<Rightarrow> task_record" where
  "apply_work_error tid idx task =
     (case failure tid idx of
        None \<Rightarrow> task
      | Some e \<Rightarrow> if e \<noteq> [] \<and> error task = None then task\<lparr>error := Some (sanitize_error e)\<rparr> else task)"

definition outcome_record :: "rat \<Rightarrow> string \<Rightarrow> json option \<Rightarrow> string option \<Rightarrow> string option \<Rightarrow> work_index \<Rightarrow> task_record \<Rightarrow> task_record" where
  "outcome_record now tid res err resource idx task =
     (let u1 = (case res of
                  None \<Rightarrow> task
                | Some r \<Rightarrow> task\<lparr>result := Some r,
                    resource_id := (case resource of None \<Rightarrow> resource_id task | Some x \<Rightarrow> Some x)\<rparr>);
          u2 = (case err of
                  None \<Rightarrow> u1
                | Some e \<Rightarrow> if error u1 = None then u1\<lparr>error := Some (sanitize_error e)\<rparr> else u1);
          u3 = apply_work_error tid idx u2
      in u3\<lparr>updated_at := next_updated_at now task, auth := JDict []\<rparr>)"

text \<open>The half of \<open>_record_outcome_on_owner\<close> that holds the task lock.\<close>

definition record_outcome :: "rat \<Rightarrow> bool \<Rightarrow> string \<Rightarrow> string option \<Rightarrow> string option \<Rightarrow> json option \<Rightarrow> string option
    \<Rightarrow> string option \<Rightarrow> tracker \<Rightarrow> tracker \<times> unit res" where
  "record_outcome now io tid account user res err resource tr =
     (case load_for_update tid account user tr of
        Inl e \<Rightarrow> (tr, Inl e)
      | Inr None \<Rightarrow> (tr, Inr ())
      | Inr (Some task) \<Rightarrow>
          if status task \<in> {PENDING, RUNNING}
          then persist_then io (outcome_record now tid res err resource (work tr) task) () tr
          else (tr, Inr ()))"

definition final_record :: "rat \<Rightarrow> string \<Rightarrow> work_index \<Rightarrow> task_record \<Rightarrow> task_record option" where
  "final_record now tid idx task =
     (let updated = (if status task \<noteq> CANCELLING then apply_work_error tid idx task else task);
          final = (if status updated = CANCELLING then Some CANCELLED
                   else if error updated \<noteq> None then Some FAILED
                   else if result updated \<noteq> None then Some COMPLETED
                   else None)
      in map_option (\<lambda>s. updated\<lparr>status := s, stage := Some (status_value s),
           updated_at := next_updated_at now task, auth := JDict []\<rparr>) final)"

definition finalize_task :: "rat \<Rightarrow> bool \<Rightarrow> string \<Rightarrow> string option \<Rightarrow> string option \<Rightarrow> tracker \<Rightarrow> tracker \<times> unit res" where
  "finalize_task now io tid account user tr =
     (if has_work tid None (work tr) then (tr, Inr ())
      else
        case load_for_update tid account user tr of
          Inl e \<Rightarrow> (tr, Inl e)
        | Inr None \<Rightarrow> (tr, Inr ())
        | Inr (Some task) \<Rightarrow>
            if status task \<in> set ACTIVE_STATUSES
            then
              (case final_record now tid (work tr) task of
                 None \<Rightarrow> (tr, Inr ())
               | Some updated \<Rightarrow>
                   (case persist_then io updated () tr of
                      (tr', Inl e) \<Rightarrow> (tr', Inl e)
                    | (tr', Inr u) \<Rightarrow> (tr'\<lparr>work := clear_failure tid (work tr')\<rparr>, Inr u)))
            else (tr, Inr ()))"

text \<open>\<open>complete\<close> and \<open>fail\<close>: record the outcome, then finalize.\<close>

definition record_outcome_on_owner :: "rat \<Rightarrow> rat \<Rightarrow> bool \<Rightarrow> bool \<Rightarrow> string \<Rightarrow> string option \<Rightarrow> string option
    \<Rightarrow> json option \<Rightarrow> string option \<Rightarrow> string option \<Rightarrow> tracker \<Rightarrow> tracker \<times> unit res" where
  "record_outcome_on_owner now now' io io' tid account user res err resource tr =
     (case record_outcome now io tid account user res err resource tr of
        (tr', Inl e) \<Rightarrow> (tr', Inl e)
      | (tr', Inr _) \<Rightarrow> finalize_task now' io' tid account user tr')"

text \<open>
  The half of \<open>_cancel_on_owner\<close> that holds the task lock: the outcome is an error, or the snapshot to
  return at once, or the request to finish the cancellation.
\<close>

datatype cancel_out = CancelReturn "task_record option" | CancelFinish

definition request_cancel :: "rat \<Rightarrow> bool \<Rightarrow> string \<Rightarrow> string option \<Rightarrow> string option \<Rightarrow> tracker \<Rightarrow> tracker \<times> cancel_out res" where
  "request_cancel now io tid account user tr =
     (case load_for_update tid account user tr of
        Inl e \<Rightarrow> (tr, Inl e)
      | Inr None \<Rightarrow> (tr, Inr (CancelReturn None))
      | Inr (Some task) \<Rightarrow>
          if status task = CANCELLED then (tr, Inr (CancelReturn (Some (copy_task task))))
          else if status task \<noteq> CANCELLING
          then (if task_type task \<notin> set CANCELLABLE_TASK_TYPES then (tr, Inl ValueError)
                else if status task \<in> set TERMINAL_STATUSES then (tr, Inl ValueError)
                else persist_then io (task\<lparr>status := CANCELLING, updated_at := next_updated_at now task\<rparr>) CancelFinish tr)
          else (tr, Inr CancelFinish))"

definition cancel_task :: "rat \<Rightarrow> rat \<Rightarrow> bool \<Rightarrow> bool \<Rightarrow> string \<Rightarrow> string option \<Rightarrow> string option \<Rightarrow> tracker
    \<Rightarrow> tracker \<times> task_record option res" where
  "cancel_task now now' io io' tid account user tr =
     (case request_cancel now io tid account user tr of
        (tr', Inl e) \<Rightarrow> (tr', Inl e)
      | (tr', Inr (CancelReturn out)) \<Rightarrow> (tr', Inr out)
      | (tr', Inr CancelFinish) \<Rightarrow>
          (case finalize_task now' io' tid account user tr' of
             (tr'', Inl e) \<Rightarrow> (tr'', Inl e)
           | (tr'', Inr _) \<Rightarrow>
               (case cached_task tid tr'' of
                  None \<Rightarrow> (tr'', Inr None)
                | Some task \<Rightarrow>
                    if \<not> matches_owner task account user then (tr'', Inr None)
                    else (tr'', Inr (Some (copy_task task))))))"

section \<open>Reading and deleting tasks\<close>

definition get_on_owner :: "string \<Rightarrow> string \<Rightarrow> string option \<Rightarrow> tracker \<Rightarrow> tracker \<times> task_record option res" where
  "get_on_owner tid account user tr =
     (let visible = (\<lambda>tr'. case cached_task tid tr' of
            None \<Rightarrow> None
          | Some task \<Rightarrow> if matches_owner task (Some account) user then Some (copy_task task) else None)
      in if cached_task tid tr \<noteq> None then (tr, Inr (visible tr))
         else case load_from_store tid account user tr of
           Inl e \<Rightarrow> (tr, Inl e)
         | Inr None \<Rightarrow> (tr, Inr None)
         | Inr (Some task) \<Rightarrow> let tr' = merge_loaded_tasks [task] tr in (tr', Inr (visible tr')))"

definition get_task :: "string \<Rightarrow> string option \<Rightarrow> string option \<Rightarrow> tracker \<Rightarrow> tracker \<times> task_record option res" where
  "get_task tid account user tr =
     (case cached_task tid tr of
        Some task \<Rightarrow> (tr, Inr (if matches_owner task account user then Some (copy_task task) else None))
      | None \<Rightarrow> (case account of None \<Rightarrow> (tr, Inr None) | Some a \<Rightarrow> get_on_owner tid a user tr))"

definition restore_work_tasks :: "(string \<times> string \<times> string) list \<Rightarrow> tracker \<Rightarrow> tracker" where
  "restore_work_tasks owners tr =
     fold (\<lambda>(tid, account, user) tr. fst (get_task tid (Some account) (Some user) tr)) owners tr"

definition merge_owner_tasks :: "string option \<Rightarrow> string option \<Rightarrow> tracker \<Rightarrow> tracker res" where
  "merge_owner_tasks account user tr =
     (case account of
        None \<Rightarrow> Inr tr
      | Some a \<Rightarrow> bind_res (load_all_from_store a user tr) (\<lambda>loaded. Inr (merge_loaded_tasks loaded tr)))"

definition truthy :: "string option \<Rightarrow> bool" where
  "truthy s \<longleftrightarrow> s \<noteq> None \<and> s \<noteq> Some []"

definition list_tasks :: "string option \<Rightarrow> string option \<Rightarrow> string option \<Rightarrow> nat \<Rightarrow> string option \<Rightarrow> string option
    \<Rightarrow> tracker \<Rightarrow> tracker \<times> task_record list res" where
  "list_tasks ttype st resource limit account user tr =
     (case merge_owner_tasks account user tr of
        Inl e \<Rightarrow> (tr, Inl e)
      | Inr tr' \<Rightarrow>
          let ts = map copy_task (filter (\<lambda>t. matches_owner t account user) (cache_snapshot tr'));
              ts = (if truthy ttype then filter (\<lambda>t. Some (task_type t) = ttype) ts else ts);
              ts = (if truthy st then filter (\<lambda>t. Some (status_value (status t)) = st) ts else ts);
              ts = (if truthy resource then filter (\<lambda>t. resource_id t = resource) ts else ts)
          in (tr', Inr (take limit (sort_key (\<lambda>t. - tr_created_at t) ts))))"

definition has_running :: "string \<Rightarrow> string \<Rightarrow> string option \<Rightarrow> string option \<Rightarrow> tracker \<Rightarrow> tracker \<times> bool res" where
  "has_running ttype resource account user tr =
     (case merge_owner_tasks account user tr of
        Inl e \<Rightarrow> (tr, Inl e)
      | Inr tr' \<Rightarrow> (tr', Inr (has_active ttype resource account user (cache_snapshot tr'))))"

definition get_task_auth :: "string \<Rightarrow> string \<Rightarrow> string \<Rightarrow> tracker \<Rightarrow> tracker \<times> json res" where
  "get_task_auth tid account user tr =
     (let answer = (\<lambda>task. if matches_owner task (Some account) (Some user) then auth task else JDict [])
      in case validate_owner account user of
           Inl e \<Rightarrow> (tr, Inl e)
         | Inr _ \<Rightarrow>
             (case cached_task tid tr of
                Some task \<Rightarrow> (tr, Inr (answer task))
              | None \<Rightarrow>
                  (case load_from_store tid account (Some user) tr of
                     Inl e \<Rightarrow> (tr, Inl e)
                   | Inr None \<Rightarrow> (tr, Inr (JDict []))
                   | Inr (Some task) \<Rightarrow> (publish_task task tr, Inr (answer task)))))"

definition drop_task :: "string \<Rightarrow> string \<Rightarrow> string \<Rightarrow> tracker \<Rightarrow> tracker" where
  "drop_task tid account user tr =
     tr\<lparr>store := store_delete tid account (Some user) (store tr), tasks := AList.delete tid (tasks tr)\<rparr>"

definition is_expired :: "task_record \<Rightarrow> rat \<Rightarrow> bool" where
  "is_expired task now =
     (let age = now - updated_at task
      in if status task \<in> {COMPLETED, CANCELLED} then age > TTL_COMPLETED
         else status task = FAILED \<and> age > TTL_FAILED)"

definition delete_expired_task :: "bool \<Rightarrow> string \<Rightarrow> rat \<Rightarrow> tracker \<Rightarrow> tracker" where
  "delete_expired_task io tid now tr =
     (case cached_task tid tr of
        None \<Rightarrow> tr
      | Some task \<Rightarrow>
          if \<not> is_expired task now then tr
          else if account_id task = [] \<or> user_id task = [] then tr
          else if \<not> io then tr
          else drop_task tid (account_id task) (user_id task) tr)"

text \<open>The second half of \<open>_evict_expired_on_owner\<close>: the oldest entries leave the cache, not the store.\<close>

definition enforce_max_tasks :: "tracker \<Rightarrow> tracker" where
  "enforce_max_tasks tr =
     (if length (tasks tr) > MAX_TASKS
      then
        let sorted_tasks = sort_key (\<lambda>(_, t). tr_created_at t) (tasks tr);
            excess = length (tasks tr) - MAX_TASKS
        in tr\<lparr>tasks := fold (\<lambda>(tid, _). AList.delete tid) (take excess sorted_tasks) (tasks tr)\<rparr>
      else tr)"

definition evict_expired :: "(string \<Rightarrow> bool) \<Rightarrow> rat \<Rightarrow> tracker \<Rightarrow> tracker" where
  "evict_expired io now tr =
     (let expired_ids = map fst (filter (\<lambda>(_, t). is_expired t now) (tasks tr))
      in enforce_max_tasks (fold (\<lambda>tid tr. delete_expired_task (io tid) tid now tr) expired_ids tr))"

fun delete_each :: "(string \<Rightarrow> bool) \<Rightarrow> string \<Rightarrow> string \<Rightarrow> task_record list \<Rightarrow> nat \<Rightarrow> tracker \<Rightarrow> tracker \<times> nat res" where
  "delete_each io account user [] deleted tr = (tr, Inr deleted)"
| "delete_each io account user (task # ts) deleted tr =
     (case cached_task (task_id task) tr of
        None \<Rightarrow> delete_each io account user ts deleted tr
      | Some current \<Rightarrow>
          if \<not> matches_owner current (Some account) (Some user) then delete_each io account user ts deleted tr
          else if status current \<in> set ACTIVE_STATUSES \<or> has_work (task_id task) None (work tr) then (tr, Inl RuntimeError)
          else if \<not> io (task_id task) then (tr, Inl StoreError)
          else
            let tr' = drop_task (task_id task) account user tr
            in delete_each io account user ts (deleted + 1) (tr'\<lparr>work := clear_failure (task_id task) (work tr')\<rparr>))"

definition delete_user_tasks :: "(string \<Rightarrow> bool) \<Rightarrow> string \<Rightarrow> string \<Rightarrow> tracker \<Rightarrow> tracker \<times> nat res" where
  "delete_user_tasks io account user tr =
     (case validate_owner account user of
        Inl e \<Rightarrow> (tr, Inl e)
      | Inr _ \<Rightarrow>
          (case load_all_from_store account (Some user) tr of
             Inl e \<Rightarrow> (tr, Inl e)
           | Inr loaded \<Rightarrow>
               let tr' = merge_loaded_tasks loaded tr;
                   ts = filter (\<lambda>t. matches_owner t (Some account) (Some user)) (cache_snapshot tr')
               in if list_ex (\<lambda>t. status t \<in> set ACTIVE_STATUSES) ts then (tr', Inl RuntimeError)
                  else delete_each io account user ts 0 tr'))"

section \<open>Work of tasks\<close>

definition register_task_work :: "string \<Rightarrow> queue_task_metadata option \<Rightarrow> tracker \<Rightarrow> tracker \<times> bool" where
  "register_task_work queue_name metadata tr =
     (let (idx, ok) = register_work
            (case metadata of None \<Rightarrow> False | Some md \<Rightarrow> is_cancellation_requested (qm_task_id md) tr)
            queue_name metadata (work tr)
      in (tr\<lparr>work := idx\<rparr>, ok))"

definition finalize_before_ack :: "rat \<Rightarrow> bool \<Rightarrow> queue_task_metadata \<Rightarrow> tracker \<Rightarrow> tracker \<times> unit res" where
  "finalize_before_ack now io md tr =
     finalize_task now io (qm_task_id md)
       (if qm_account_id md = [] then None else Some (qm_account_id md))
       (if qm_user_id md = [] then None else Some (qm_user_id md)) tr"

text \<open>\<open>prepare_ack\<close> with the tracker's callback; an error of the finalization restores the work item.\<close>

definition prepare_ack :: "rat \<Rightarrow> bool \<Rightarrow> string \<Rightarrow> queue_task_metadata \<Rightarrow> tracker
    \<Rightarrow> tracker \<times> queue_task_metadata option res" where
  "prepare_ack now io queue_name md tr =
     (case remove_work queue_name md (work tr) of
        (idx, removed, became_idle) \<Rightarrow>
          let tr' = tr\<lparr>work := idx\<rparr>
          in if \<not> removed then (tr', Inr None)
             else if \<not> became_idle then (tr', Inr (Some md))
             else case finalize_before_ack now io md tr' of
               (tr'', Inl e) \<Rightarrow> (tr''\<lparr>work := rollback_ack queue_name md (work tr'')\<rparr>, Inl e)
             | (tr'', Inr _) \<Rightarrow> (tr'', Inr (Some md)))"

definition discard_task_work :: "rat \<Rightarrow> bool \<Rightarrow> string \<Rightarrow> queue_task_metadata \<Rightarrow> tracker \<Rightarrow> tracker \<times> unit res" where
  "discard_task_work now io queue_name md tr =
     (case remove_work queue_name md (work tr) of
        (idx, removed, became_idle) \<Rightarrow>
          let tr' = tr\<lparr>work := idx\<rparr>
          in if became_idle then finalize_before_ack now io md tr' else (tr', Inr ()))"

definition register_running_task :: "string \<Rightarrow> nat \<Rightarrow> tracker \<Rightarrow> tracker" where
  "register_running_task tid active_task tr =
     tr\<lparr>work := fst (register_active (is_cancellation_requested tid tr) tid active_task (work tr))\<rparr>"

definition unregister_running_task :: "rat \<Rightarrow> bool \<Rightarrow> string \<Rightarrow> nat \<Rightarrow> tracker \<Rightarrow> tracker \<times> unit res" where
  "unregister_running_task now io tid active_task tr =
     finalize_task now io tid None None (tr\<lparr>work := unregister_active tid active_task (work tr)\<rparr>)"

end
