(* ===== verification/Task_Lifecycle.thy ===== *)
theory Task_Lifecycle
  imports Task_Tracker
begin

text \<open>
  The lifecycle of tasks, over the operations of the tracker. The invariant says that every stored file is
  the record of its own path and that every cached record is what the store holds. An operation is
  \<open>sound\<close> when it keeps the invariant and changes a stored record only along the edges of the
  status machine; soundness composes, and the step relation of the tracker collects the sound operations.
\<close>

section \<open>The status machine\<close>

definition status_edges :: "(task_status \<times> task_status) list" where
  "status_edges =
     [(PENDING, PENDING), (PENDING, RUNNING), (RUNNING, RUNNING), (PENDING, CANCELLING), (RUNNING, CANCELLING),
      (PENDING, COMPLETED), (RUNNING, COMPLETED), (PENDING, FAILED), (RUNNING, FAILED), (CANCELLING, CANCELLED)]"

definition same_task :: "task_record \<Rightarrow> task_record \<Rightarrow> bool" where
  "same_task t u \<longleftrightarrow>
     task_id u = task_id t \<and> account_id u = account_id t \<and> user_id u = user_id t
     \<and> task_type u = task_type t \<and> tr_created_at u = tr_created_at t"

definition evolves :: "task_record \<Rightarrow> task_record \<Rightarrow> bool" where
  "evolves t u \<longleftrightarrow> same_task t u \<and> updated_at t < updated_at u \<and> (status t, status u) \<in> set status_edges"

lemma evolves_not_terminal: "evolves t u \<Longrightarrow> status t \<notin> set TERMINAL_STATUSES"
  by (auto simp: evolves_def status_edges_def TERMINAL_STATUSES_def)

lemma evolves_star_terminal:
  assumes "evolves\<^sup>*\<^sup>* t u" and "status t \<in> set TERMINAL_STATUSES"
  shows "u = t"
  using assms by (induction rule: converse_rtranclp_induct) (auto dest: evolves_not_terminal)

lemma evolves_star_same: "evolves\<^sup>*\<^sup>* t u \<Longrightarrow> same_task t u \<and> updated_at t \<le> updated_at u"
  by (induction rule: rtranclp_induct) (auto simp: evolves_def same_task_def)

section \<open>Invariant and soundness\<close>

definition path_of :: "task_record \<Rightarrow> string" where
  "path_of t = task_path (account_id t) (user_id t) (task_id t)"

definition clean_task :: "task_record \<Rightarrow> bool" where
  "clean_task t \<longleftrightarrow> slash_free (account_id t) \<and> slash_free (user_id t) \<and> slash_free (task_id t)"

definition stored :: "task_record \<Rightarrow> tracker \<Rightarrow> bool" where
  "stored t tr \<longleftrightarrow> clean_task t \<and> map_of (store tr) (path_of t) = Some (task_to_payload t)"

definition tracker_inv :: "tracker \<Rightarrow> bool" where
  "tracker_inv tr \<longleftrightarrow>
     distinct (map fst (store tr)) \<and> distinct (map fst (tasks tr))
     \<and> (\<forall>p pl. map_of (store tr) p = Some pl \<longrightarrow> (\<exists>t. pl = task_to_payload t \<and> p = path_of t \<and> clean_task t))
     \<and> (\<forall>tid t. map_of (tasks tr) tid = Some t \<longrightarrow> task_id t = tid \<and> stored t tr)"

lemma inv_file:
  "tracker_inv tr \<Longrightarrow> map_of (store tr) p = Some pl \<Longrightarrow> \<exists>t. pl = task_to_payload t \<and> p = path_of t \<and> clean_task t"
  unfolding tracker_inv_def by blast

lemma inv_cached: "tracker_inv tr \<Longrightarrow> map_of (tasks tr) tid = Some t \<Longrightarrow> task_id t = tid \<and> stored t tr"
  unfolding tracker_inv_def by blast

definition keeps :: "tracker \<Rightarrow> tracker \<Rightarrow> bool" where
  "keeps tr tr' \<longleftrightarrow> (\<forall>t. stored t tr \<longrightarrow> (\<exists>u. stored u tr' \<and> path_of u = path_of t \<and> evolves\<^sup>*\<^sup>* t u))"

definition sound :: "tracker \<Rightarrow> tracker \<Rightarrow> bool" where
  "sound tr tr' \<longleftrightarrow> (tracker_inv tr \<longrightarrow> tracker_inv tr' \<and> keeps tr tr')"

lemma keeps_refl: "keeps tr tr"
  by (auto simp: keeps_def)

lemma keeps_trans: "keeps a b \<Longrightarrow> keeps b c \<Longrightarrow> keeps a c"
  unfolding keeps_def by (metis rtranclp_trans)

lemma sound_refl [simp, intro]: "sound tr tr"
  by (simp add: sound_def keeps_refl)

lemma sound_trans: "sound a b \<Longrightarrow> sound b c \<Longrightarrow> sound a c"
  unfolding sound_def using keeps_trans by blast

lemma sound_work [simp, intro]: "sound tr (tr\<lparr>work := w\<rparr>)"
  by (auto simp: sound_def keeps_def tracker_inv_def stored_def)

lemma sound_after_work: "sound tr tr' \<Longrightarrow> sound tr (tr'\<lparr>work := w\<rparr>)"
  using sound_trans [OF _ sound_work] .

lemma sound_from_work: "sound (tr\<lparr>work := w\<rparr>) tr' \<Longrightarrow> sound tr tr'"
  using sound_trans [OF sound_work] .

lemma task_to_payload_inject [simp]: "task_to_payload t = task_to_payload u \<longleftrightarrow> t = u"
  by (metis record_payload_roundtrip sum.inject(2))

lemma path_of_inject:
  "clean_task t \<Longrightarrow> clean_task u \<Longrightarrow> path_of t = path_of u \<longleftrightarrow>
     account_id t = account_id u \<and> user_id t = user_id u \<and> task_id t = task_id u"
  by (simp add: path_of_def clean_task_def task_path_inject)

lemma stored_unique: "stored t tr \<Longrightarrow> stored u tr \<Longrightarrow> path_of t = path_of u \<Longrightarrow> t = u"
  by (auto simp: stored_def)

lemma sound_publish: "(tracker_inv tr \<Longrightarrow> stored t tr) \<Longrightarrow> sound tr (publish_task t tr)"
  by (auto simp: sound_def keeps_def publish_task_def tracker_inv_def stored_def AList.update_conv'
      intro: AList.distinct_update)

lemma sound_merge: "(tracker_inv tr \<Longrightarrow> stored t tr) \<Longrightarrow> sound tr (merge_loaded_task t tr)"
  unfolding merge_loaded_task_def by (auto intro: sound_publish split: option.splits)

lemma store_merge [simp]: "store (merge_loaded_task t tr) = store tr"
  by (simp add: merge_loaded_task_def publish_task_def split: option.splits)

lemma stored_merge [simp]: "stored u (merge_loaded_task t tr) = stored u tr"
  by (simp add: stored_def)

lemma sound_merge_all: "(\<And>t. tracker_inv tr \<Longrightarrow> t \<in> set ts \<Longrightarrow> stored t tr) \<Longrightarrow> sound tr (merge_loaded_tasks ts tr)"
  unfolding merge_loaded_tasks_def
proof (induction ts arbitrary: tr)
  case (Cons t ts)
  have s: "sound tr (merge_loaded_task t tr)" using Cons.prems by (intro sound_merge) auto
  show ?case
  proof (cases "tracker_inv tr")
    case True
    then have "sound (merge_loaded_task t tr) (fold merge_loaded_task ts (merge_loaded_task t tr))"
      using Cons.prems by (intro Cons.IH) simp
    with s show ?thesis by (simp add: sound_trans)
  qed (simp add: sound_def)
qed auto

section \<open>Reading from the store\<close>

lemma load_from_store_stored:
  assumes "tracker_inv tr" and "load_from_store tid a u tr = Inr (Some t)"
  shows "stored t tr"
proof -
  obtain us pl where p: "map_of (store tr) (task_path a us tid) = Some pl" "record_from_payload pl = Inr t"
    using assms(2) by (auto simp: load_from_store_def store_get_def bind_res_Inr_iff split: option.splits if_splits)
  then obtain v where v: "pl = task_to_payload v" "task_path a us tid = path_of v" "clean_task v"
    using inv_file [OF assms(1)] by blast
  with p show ?thesis by (auto simp: stored_def)
qed

lemma map_res_in: "map_res f xs = Inr ys \<Longrightarrow> y \<in> set ys \<Longrightarrow> \<exists>x \<in> set xs. f x = Inr y"
  by (induction xs arbitrary: ys) (auto simp: bind_res_Inr_iff)

lemma load_all_stored:
  assumes "tracker_inv tr" and "load_all_from_store a u tr = Inr ts" and "t \<in> set ts"
  shows "stored t tr"
proof -
  obtain pl where pl: "pl \<in> set (store_list a u (store tr))" "record_from_payload pl = Inr t"
    using map_res_in assms(2,3) unfolding load_all_from_store_def by fast
  then obtain p where "(p, pl) \<in> set (store tr)"
    by (auto simp: store_list_def split: option.splits if_splits)
  with assms(1) have m: "map_of (store tr) p = Some pl" by (simp add: tracker_inv_def map_of_is_SomeI)
  then obtain v where v: "pl = task_to_payload v" "p = path_of v" "clean_task v"
    using inv_file [OF assms(1)] by blast
  with m pl show ?thesis by (auto simp: stored_def)
qed

lemma load_for_update_stored:
  assumes "tracker_inv tr" and "load_for_update tid a u tr = Inr (Some t)"
  shows "stored t tr"
proof (cases "cached_task tid tr")
  case None
  with assms(2) obtain x y where "load_from_store tid x y tr = Inr (Some t)"
    by (auto simp: load_for_update_def split: option.splits)
  with assms(1) show ?thesis by (rule load_from_store_stored)
next
  case (Some c)
  with assms show ?thesis
    using inv_cached by (auto simp: load_for_update_def cached_task_def split: if_splits)
qed

section \<open>Writing\<close>

abbreviation write_record :: "task_record \<Rightarrow> tracker \<Rightarrow> tracker" where
  "write_record u tr \<equiv> publish_task u (tr\<lparr>store := AList.update (path_of u) (task_to_payload u) (store tr)\<rparr>)"

lemma write_record_inv:
  assumes "tracker_inv tr" and "clean_task u"
  shows "tracker_inv (write_record u tr)"
proof -
  have "stored t (write_record u tr)" if "map_of (tasks tr) tid = Some t" "tid \<noteq> task_id u" for tid t
  proof -
    have t: "stored t tr" "task_id t = tid" using inv_cached [OF assms(1) that(1)] by auto
    then have "path_of t \<noteq> path_of u" using that(2) assms(2) by (auto simp: path_of_inject stored_def)
    with t show ?thesis by (simp add: stored_def publish_task_def AList.update_conv')
  qed
  with assms show ?thesis
    by (auto simp: tracker_inv_def publish_task_def stored_def AList.update_conv' intro: AList.distinct_update
        split: if_splits)
qed

lemma write_record_keeps:
  assumes "clean_task u" and "\<And>t. stored t tr \<Longrightarrow> path_of t = path_of u \<Longrightarrow> evolves\<^sup>*\<^sup>* t u"
  shows "keeps tr (write_record u tr)"
  unfolding keeps_def
proof (intro allI impI)
  fix t assume t: "stored t tr"
  show "\<exists>v. stored v (write_record u tr) \<and> path_of v = path_of t \<and> evolves\<^sup>*\<^sup>* t v"
  proof (cases "path_of t = path_of u")
    case True
    then show ?thesis using assms t
      by (intro exI [of _ u]) (auto simp: stored_def publish_task_def AList.update_conv')
  next
    case False
    then show ?thesis using t
      by (intro exI [of _ t]) (auto simp: stored_def publish_task_def AList.update_conv')
  qed
qed

text \<open>The two ways the tracker writes: the next version of a stored record, and a new one.\<close>

lemma sound_write_next:
  assumes "tracker_inv tr \<Longrightarrow> stored t tr" and "evolves t u"
  shows "sound tr (write_record u tr)"
  unfolding sound_def
proof
  assume inv: "tracker_inv tr"
  have t: "stored t tr" using assms(1) inv .
  have cu: "clean_task u" and pu: "path_of u = path_of t"
    using t assms(2) by (auto simp: stored_def clean_task_def evolves_def same_task_def path_of_def)
  have "evolves\<^sup>*\<^sup>* s u" if "stored s tr" "path_of s = path_of u" for s
    using stored_unique [OF that(1) t] that(2) pu assms(2) by auto
  with cu inv show "tracker_inv (write_record u tr) \<and> keeps tr (write_record u tr)"
    by (simp add: write_record_inv write_record_keeps)
qed

lemma sound_write_new:
  assumes "clean_task u" and "map_of (store tr) (path_of u) = None"
  shows "sound tr (write_record u tr)"
  unfolding sound_def
  using assms by (auto intro!: write_record_inv write_record_keeps simp: stored_def)

lemma persist_then_eq:
  "persist_then io u out tr =
     (if \<not> io then (tr, Inl StoreError)
      else if account_id u = [] \<or> user_id u = [] then (tr, Inl ValueError)
      else (write_record u tr, Inr out))"
  by (simp add: persist_then_def persist_and_publish_def write_task_def path_of_def)

lemma sound_persist_next:
  "(tracker_inv tr \<Longrightarrow> stored t tr) \<Longrightarrow> evolves t u \<Longrightarrow> sound tr (fst (persist_then io u out tr))"
  by (auto simp: persist_then_eq intro: sound_write_next)

lemma sound_persist_new:
  "clean_task u \<Longrightarrow> map_of (store tr) (path_of u) = None \<Longrightarrow> sound tr (fst (persist_then io u out tr))"
  by (auto simp: persist_then_eq intro: sound_write_new)

lemma next_updated_at_greater: "updated_at t < next_updated_at now t"
  by (simp add: next_updated_at_def nextafter_def less_max_iff_disj)

section \<open>Every operation is sound\<close>

lemma sound_start: "sound tr (fst (start_task now io tid a u stg tr))"
  unfolding start_task_def
  by (auto split: sum.splits option.splits simp: Let_def evolves_def same_task_def status_edges_def next_updated_at_greater
      intro!: sound_persist_next dest: load_for_update_stored)

lemma sound_update_stage: "sound tr (fst (update_stage now io tid stg a u tr))"
  unfolding update_stage_def
  by (auto split: sum.splits option.splits simp: evolves_def same_task_def status_edges_def next_updated_at_greater
      intro!: sound_persist_next dest: load_for_update_stored)

lemma apply_work_error_fields [simp]:
  "task_id (apply_work_error tid idx t) = task_id t" "account_id (apply_work_error tid idx t) = account_id t"
  "user_id (apply_work_error tid idx t) = user_id t" "task_type (apply_work_error tid idx t) = task_type t"
  "tr_created_at (apply_work_error tid idx t) = tr_created_at t" "status (apply_work_error tid idx t) = status t"
  "result (apply_work_error tid idx t) = result t"
  by (simp_all add: apply_work_error_def split: option.splits)

lemma outcome_record_evolves: "status t \<in> {PENDING, RUNNING} \<Longrightarrow> evolves t (outcome_record now tid res err rid idx t)"
  by (auto simp: outcome_record_def evolves_def same_task_def status_edges_def next_updated_at_greater Let_def
      split: option.splits)

lemma final_record_evolves:
  "status t \<in> set ACTIVE_STATUSES \<Longrightarrow> final_record now tid idx t = Some u \<Longrightarrow>
     evolves t u \<and> status u \<in> set TERMINAL_STATUSES"
  by (auto simp: final_record_def evolves_def same_task_def status_edges_def next_updated_at_greater Let_def
      ACTIVE_STATUSES_def TERMINAL_STATUSES_def split: if_splits)

lemma sound_record_outcome: "sound tr (fst (record_outcome now io tid a u res err rid tr))"
  unfolding record_outcome_def
  by (auto split: sum.splits option.splits intro!: sound_persist_next outcome_record_evolves dest: load_for_update_stored)

lemma sound_finalize: "sound tr (fst (finalize_task now io tid a u tr))"
proof (cases "load_for_update tid a u tr")
  case (Inr r)
  show ?thesis
  proof (cases "\<exists>t v. r = Some t \<and> status t \<in> set ACTIVE_STATUSES \<and> final_record now tid (work tr) t = Some v")
    case True
    then obtain t v where t: "r = Some t" "status t \<in> set ACTIVE_STATUSES" "final_record now tid (work tr) t = Some v" by blast
    have "sound tr (fst (persist_then io v () tr))"
      using Inr t final_record_evolves [OF t(2,3)] by (intro sound_persist_next) (auto dest: load_for_update_stored)
    then show ?thesis
      using Inr t by (auto simp: finalize_task_def persist_then_eq split: prod.splits sum.splits intro: sound_after_work)
  next
    case False
    with Inr show ?thesis by (auto simp: finalize_task_def split: option.splits)
  qed
qed (simp add: finalize_task_def)

lemma sound_record_outcome_on_owner:
  "sound tr (fst (record_outcome_on_owner now now' io io' tid a u res err rid tr))"
  using sound_record_outcome [of tr now io tid a u res err rid] sound_finalize sound_trans
  by (fastforce simp: record_outcome_on_owner_def split: prod.splits sum.splits)

lemma sound_request_cancel: "sound tr (fst (request_cancel now io tid a u tr))"
proof (cases "load_for_update tid a u tr")
  case (Inr r)
  show ?thesis
  proof (cases "\<exists>t. r = Some t \<and> status t \<in> {PENDING, RUNNING}")
    case True
    then obtain t where t: "r = Some t" "status t \<in> {PENDING, RUNNING}" by blast
    have "evolves t (t\<lparr>status := CANCELLING, updated_at := next_updated_at now t\<rparr>)"
      using t by (auto simp: evolves_def same_task_def status_edges_def next_updated_at_greater)
    then have "sound tr (fst (persist_then io (t\<lparr>status := CANCELLING, updated_at := next_updated_at now t\<rparr>) CancelFinish tr))"
      using Inr t by (intro sound_persist_next) (auto dest: load_for_update_stored)
    with Inr t show ?thesis by (auto simp: request_cancel_def)
  next
    case False
    then have "status t \<notin> {PENDING, RUNNING}" if "r = Some t" for t using that by blast
    with Inr show ?thesis
      by (cases r) (auto simp: request_cancel_def TERMINAL_STATUSES_def, metis (no_types) task_status.exhaust)
  qed
qed (simp add: request_cancel_def)

lemma sound_cancel: "sound tr (fst (cancel_task now now' io io' tid a u tr))"
proof -
  obtain tr' out where rc: "request_cancel now io tid a u tr = (tr', out)" by force
  obtain tr'' out' where fin: "finalize_task now' io' tid a u tr' = (tr'', out')" by force
  have 1: "sound tr tr'" using sound_request_cancel [of tr now io tid a u] rc by simp
  have "sound tr' tr''" using sound_finalize [of tr' now' io' tid a u] fin by simp
  with 1 have 2: "sound tr tr''" by (rule sound_trans)
  have "fst (cancel_task now now' io io' tid a u tr) \<in> {tr', tr''}"
    by (simp add: cancel_task_def rc fin split: sum.splits cancel_out.splits option.splits)
  with 1 2 show ?thesis by auto
qed

lemma fresh_new_task:
  "slash_free a \<Longrightarrow> slash_free u \<Longrightarrow> slash_free tid \<Longrightarrow> clean_task (new_task tid now ty r a u m au)"
  "path_of (new_task tid now ty r a u m au) = task_path a u tid"
  by (simp_all add: clean_task_def new_task_def path_of_def)

lemma sound_create:
  assumes "slash_free a" "slash_free u" "slash_free new_id" "tid = None \<or> (\<exists>t. tid = Some t \<and> slash_free t)"
    and "map_of (store tr) (task_path a u new_id) = None"
  shows "sound tr (fst (create new_id now io ty r a u tid m au tr))"
proof (cases tid)
  case None
  have "sound tr (fst (persist_then io (new_task new_id now ty r a u m au) out tr))" for out :: task_record
    using assms by (intro sound_persist_new) (simp_all add: fresh_new_task)
  then show ?thesis
    by (simp add: None create_def create_on_owner_def validate_owner_def Let_def)
next
  case (Some t)
  let ?t = "new_task t now ty r a u m au"
  have c: "slash_free t" "t \<noteq> []" using assms(4) Some by (auto simp: slash_free_def)
  have f: "task_id ?t = t" "account_id ?t = a" "user_id ?t = u" by (simp_all add: new_task_def)
  have new: "sound tr (fst (persist_then io ?t out tr))" if "load_from_store t a (Some u) tr = Inr None" for out :: task_record
  proof (rule sound_persist_new)
    show "map_of (store tr) (path_of ?t) = None"
      using that assms(1,2) by (auto simp: fresh_new_task load_from_store_def store_get_def slash_free_def bind_res_Inr_iff split: option.splits)
  qed (use assms c in \<open>simp add: fresh_new_task\<close>)
  have "sound tr (publish_task v tr)" if "load_from_store t a (Some u) tr = Inr (Some v)" for v
    using that by (intro sound_publish) (rule load_from_store_stored)
  with new c show ?thesis
    by (auto simp: Some create_def create_on_owner_def f Let_def split: sum.splits option.splits)
qed

lemma sound_merge_loaded:
  "load_all_from_store a u tr = Inr ts \<Longrightarrow> sound tr (merge_loaded_tasks ts tr)"
  by (intro sound_merge_all) (rule load_all_stored)

lemma store_merge_all [simp]: "store (merge_loaded_tasks ts tr) = store tr"
  unfolding merge_loaded_tasks_def by (induction ts arbitrary: tr) auto

lemma sound_create_if_no_running:
  assumes "slash_free a" "slash_free u" "slash_free new_id" and "map_of (store tr) (task_path a u new_id) = None"
  shows "sound tr (fst (create_if_no_running new_id now io ty r a u tr))"
proof (cases "load_all_from_store a (Some u) tr")
  case (Inr ts)
  have "sound (merge_loaded_tasks ts tr)
      (fst (persist_then io (new_task new_id now ty (Some r) a u m au) out (merge_loaded_tasks ts tr)))" for m au and out :: "task_record option"
    using assms by (intro sound_persist_new) (simp_all add: fresh_new_task)
  then have "sound tr (fst (persist_then io (new_task new_id now ty (Some r) a u m au) out (merge_loaded_tasks ts tr)))"
    for m au and out :: "task_record option" using sound_trans [OF sound_merge_loaded [OF Inr]] by blast
  then show ?thesis
    using sound_merge_loaded [OF Inr] by (auto simp: create_if_no_running_def Inr Let_def split: sum.splits)
qed (simp add: create_if_no_running_def split: sum.splits)

lemma sound_get: "sound tr (fst (get_task tid a u tr))"
proof -
  have "sound tr (fst (get_on_owner tid x u tr))" for x
    unfolding get_on_owner_def
    by (auto simp: Let_def split: sum.splits option.splits intro!: sound_merge_all dest: load_from_store_stored)
  then show ?thesis by (auto simp: get_task_def split: option.splits)
qed

lemma sound_merge_owner: "merge_owner_tasks a u tr = Inr tr' \<Longrightarrow> sound tr tr'"
  by (auto simp: merge_owner_tasks_def bind_res_Inr_iff split: option.splits dest: sound_merge_loaded)

lemma sound_list: "sound tr (fst (list_tasks ty st r n a u tr))"
  by (auto simp: list_tasks_def Let_def split: sum.splits dest: sound_merge_owner)

lemma sound_has_running: "sound tr (fst (has_running ty r a u tr))"
  by (auto simp: has_running_def split: sum.splits dest: sound_merge_owner)

lemma sound_get_auth: "sound tr (fst (get_task_auth tid a u tr))"
  by (auto simp: get_task_auth_def Let_def split: sum.splits option.splits intro!: sound_publish dest: load_from_store_stored)

lemma sound_finalize_before_ack: "sound tr (fst (finalize_before_ack now io md tr))"
  by (simp add: finalize_before_ack_def sound_finalize)

lemma sound_prepare_ack: "sound tr (fst (prepare_ack now io q md tr))"
proof -
  obtain idx removed idle where r: "remove_work q md (work tr) = (idx, removed, idle)" by (metis prod_cases3)
  have "sound tr (fst (finalize_before_ack now io md (tr\<lparr>work := idx\<rparr>)))"
    using sound_finalize_before_ack by (rule sound_from_work)
  then show ?thesis
    by (auto simp: prepare_ack_def r Let_def split: prod.splits sum.splits intro: sound_after_work)
qed

lemma sound_discard: "sound tr (fst (discard_task_work now io q md tr))"
proof -
  obtain idx removed idle where r: "remove_work q md (work tr) = (idx, removed, idle)" by (metis prod_cases3)
  have "sound tr (fst (finalize_before_ack now io md (tr\<lparr>work := idx\<rparr>)))"
    using sound_finalize_before_ack by (rule sound_from_work)
  then show ?thesis by (simp add: discard_task_work_def r Let_def)
qed

lemma sound_unregister: "sound tr (fst (unregister_running_task now io tid x tr))"
  unfolding unregister_running_task_def using sound_finalize by (rule sound_from_work)

section \<open>Operations that delete\<close>

definition sound_del :: "tracker \<Rightarrow> tracker \<Rightarrow> bool" where
  "sound_del tr tr' \<longleftrightarrow>
     (tracker_inv tr \<longrightarrow> tracker_inv tr'
        \<and> (\<forall>t. stored t tr \<longrightarrow> stored t tr' \<or> (status t \<in> set TERMINAL_STATUSES \<and> map_of (store tr') (path_of t) = None)))"

definition no_new_files :: "tracker \<Rightarrow> tracker \<Rightarrow> bool" where
  "no_new_files tr tr' \<longleftrightarrow> (\<forall>p. map_of (store tr) p = None \<longrightarrow> map_of (store tr') p = None)"

lemma sound_del_refl [simp, intro]: "sound_del tr tr"
  by (simp add: sound_del_def)

lemma sound_del_trans: "sound_del a b \<Longrightarrow> sound_del b c \<Longrightarrow> no_new_files b c \<Longrightarrow> sound_del a c"
  unfolding sound_del_def no_new_files_def by metis

lemma sound_del_same_store:
  "sound tr tr' \<Longrightarrow> store tr' = store tr \<Longrightarrow> sound_del tr tr'"
  by (auto simp: sound_def sound_del_def stored_def)

lemma no_new_files_drop: "no_new_files tr (drop_task tid a u tr)"
  by (auto simp: no_new_files_def drop_task_def store_delete_def AList.delete_conv')

lemma sound_del_drop:
  assumes "cached_task tid tr = Some t" and "status t \<in> set TERMINAL_STATUSES" and "user_id t \<noteq> []"
  shows "sound_del tr (drop_task tid (account_id t) (user_id t) tr)"
  unfolding sound_del_def
proof
  assume inv: "tracker_inv tr"
  have t: "task_id t = tid" "stored t tr" using inv_cached [OF inv] assms(1) by (auto simp: cached_task_def)
  let ?tr = "drop_task tid (account_id t) (user_id t) tr"
  have st: "map_of (store ?tr) = (map_of (store tr))(path_of t := None)"
    using assms(3) t(1) by (simp add: drop_task_def store_delete_def AList.delete_conv' path_of_def)
  have keep: "stored v ?tr" if "stored v tr" "path_of v \<noteq> path_of t" for v
    using that by (simp add: stored_def st)
  have "stored v ?tr" if v: "map_of (tasks tr) k = Some v" "k \<noteq> tid" for k v
  proof -
    have "task_id v = k" "stored v tr" using inv_cached [OF inv v(1)] by auto
    moreover have "path_of v \<noteq> path_of t"
      using calculation v(2) t by (auto simp: path_of_inject stored_def)
    ultimately show ?thesis using keep by blast
  qed
  moreover have "distinct (map fst (store ?tr))" "distinct (map fst (tasks ?tr))"
    using inv by (auto simp: tracker_inv_def drop_task_def store_delete_def intro: AList.distinct_delete split: option.splits)
  ultimately have "tracker_inv ?tr"
    using inv_file [OF inv] inv_cached [OF inv]
    unfolding tracker_inv_def st by (auto simp: drop_task_def AList.delete_conv' split: if_splits)
  moreover have "stored v ?tr \<or> status v \<in> set TERMINAL_STATUSES \<and> map_of (store ?tr) (path_of v) = None" if "stored v tr" for v
    using that keep stored_unique [OF that t(2)] assms(2) by (cases "path_of v = path_of t") (auto simp: st)
  ultimately show "tracker_inv ?tr \<and> (\<forall>v. stored v tr \<longrightarrow> stored v ?tr \<or>
      status v \<in> set TERMINAL_STATUSES \<and> map_of (store ?tr) (path_of v) = None)" by blast
qed

lemma sound_del_expired: "sound_del tr (delete_expired_task io tid now tr)"
  unfolding delete_expired_task_def
  by (auto split: option.splits intro!: sound_del_drop simp: is_expired_def Let_def TERMINAL_STATUSES_def split: if_splits)

lemma no_new_files_expired: "no_new_files tr (delete_expired_task io tid now tr)"
  using no_new_files_drop by (auto simp: delete_expired_task_def no_new_files_def split: option.splits)

lemma no_new_files_trans: "no_new_files a b \<Longrightarrow> no_new_files b c \<Longrightarrow> no_new_files a c"
  by (auto simp: no_new_files_def)

lemma sound_del_expired_all:
  "sound_del tr (fold (\<lambda>tid tr. delete_expired_task (io tid) tid now tr) ids tr)
   \<and> no_new_files tr (fold (\<lambda>tid tr. delete_expired_task (io tid) tid now tr) ids tr)"
proof (induction ids arbitrary: tr)
  case (Cons i ids)
  let ?tr = "delete_expired_task (io i) i now tr"
  show ?case
    using Cons.IH [of ?tr] sound_del_trans [OF sound_del_expired [of tr "io i" i now]]
      no_new_files_trans [OF no_new_files_expired [of tr "io i" i now]] by simp
qed (simp add: no_new_files_def)

lemma sound_shrink_cache:
  assumes "store tr' = store tr" and "map_of (tasks tr') \<subseteq>\<^sub>m map_of (tasks tr)"
    and "distinct (map fst (tasks tr)) \<Longrightarrow> distinct (map fst (tasks tr'))"
  shows "sound tr tr'"
proof -
  have st: "stored t tr' = stored t tr" for t by (simp add: stored_def assms(1))
  have sub: "map_of (tasks tr) k = Some t" if "map_of (tasks tr') k = Some t" for k t
    using assms(2) that by (metis domI map_le_def)
  show ?thesis
    unfolding sound_def keeps_def st tracker_inv_def assms(1) using assms(3) sub by blast
qed

lemma fold_delete_map: "map_of (fold (\<lambda>(tid, _). AList.delete tid) xs ts) \<subseteq>\<^sub>m map_of ts"
proof (induction xs arbitrary: ts)
  case (Cons x xs)
  have "map_of (AList.delete (fst x) ts) \<subseteq>\<^sub>m map_of ts" by (auto simp: map_le_def AList.delete_conv')
  with Cons [of "AList.delete (fst x) ts"] show ?case
    by (simp add: case_prod_unfold) (rule map_le_trans)
qed simp

lemma fold_delete_distinct:
  "distinct (map fst ts) \<Longrightarrow> distinct (map fst (fold (\<lambda>(tid, _). AList.delete tid) xs ts))"
  by (induction xs arbitrary: ts) (auto intro: AList.distinct_delete)

lemma store_enforce_max [simp]: "store (enforce_max_tasks tr) = store tr"
  by (simp add: enforce_max_tasks_def Let_def)

lemma sound_enforce_max: "sound tr (enforce_max_tasks tr)"
proof (rule sound_shrink_cache)
  show "map_of (tasks (enforce_max_tasks tr)) \<subseteq>\<^sub>m map_of (tasks tr)"
    by (simp add: enforce_max_tasks_def Let_def fold_delete_map)
  show "distinct (map fst (tasks (enforce_max_tasks tr)))" if "distinct (map fst (tasks tr))"
    using that by (simp add: enforce_max_tasks_def Let_def fold_delete_distinct)
qed simp

lemma sound_del_evict: "sound_del tr (evict_expired io now tr)"
  unfolding evict_expired_def Let_def
proof (rule sound_del_trans)
  show "sound_del tr (fold (\<lambda>tid tr. delete_expired_task (io tid) tid now tr)
      (map fst (filter (\<lambda>(_, t). is_expired t now) (tasks tr))) tr)"
    using sound_del_expired_all by blast
  show "sound_del b (enforce_max_tasks b)" "no_new_files b (enforce_max_tasks b)" for b
    by (simp_all add: sound_del_same_store sound_enforce_max no_new_files_def)
qed

lemma sound_del_each: "sound_del tr (fst (delete_each io a u ts n tr)) \<and> no_new_files tr (fst (delete_each io a u ts n tr))"
proof (induction io a u ts n tr rule: delete_each.induct)
  case (2 io a u task ts n tr)
  show ?case
  proof (cases "\<exists>c. cached_task (task_id task) tr = Some c \<and> matches_owner c (Some a) (Some u)
      \<and> \<not> (status c \<in> set ACTIVE_STATUSES \<or> has_work (task_id task) None (work tr)) \<and> io (task_id task)")
    case True
    then obtain c where c: "cached_task (task_id task) tr = Some c" "matches_owner c (Some a) (Some u)"
      "status c \<notin> set ACTIVE_STATUSES" "\<not> has_work (task_id task) None (work tr)" "io (task_id task)" by blast
    let ?tr = "drop_task (task_id task) a u tr"
    let ?tr' = "?tr\<lparr>work := clear_failure (task_id task) (work ?tr)\<rparr>"
    have ow: "account_id c = a" "user_id c = u" using c(2) by (auto simp: matches_owner_def split: if_splits)
    have fin: "status c \<in> set TERMINAL_STATUSES"
      using c(3) by (cases "status c") (auto simp: ACTIVE_STATUSES_def TERMINAL_STATUSES_def)
    have "sound_del tr ?tr"
    proof (cases "u = []")
      case True
      show ?thesis
      proof (cases "tracker_inv tr")
        case inv: True
        then have "stored c tr" using inv_cached c(1) by (auto simp: cached_task_def)
        with ow True show ?thesis by (simp add: stored_def clean_task_def slash_free_def)
      qed (simp add: sound_del_def)
    next
      case False
      then show ?thesis using sound_del_drop [OF c(1) fin] ow by simp
    qed
    moreover have "sound_del ?tr ?tr'" by (rule sound_del_same_store) auto
    moreover have "no_new_files ?tr ?tr'" "no_new_files tr ?tr'"
      using no_new_files_drop [of tr "task_id task" a u] by (auto simp: no_new_files_def)
    ultimately have s: "sound_del tr ?tr'" "no_new_files tr ?tr'" using sound_del_trans by blast+
    have IH: "sound_del ?tr' (fst (delete_each io a u ts (n + 1) ?tr')) \<and> no_new_files ?tr' (fst (delete_each io a u ts (n + 1) ?tr'))"
      using 2(3) [OF c(1) _ _ _ refl] c by simp
    have eq: "fst (delete_each io a u (task # ts) n tr) = fst (delete_each io a u ts (n + 1) ?tr')"
      using c by (simp add: Let_def)
    show ?thesis
      unfolding eq using sound_del_trans [OF s(1)] no_new_files_trans [OF s(2)] IH by blast
  next
    case False
    then show ?thesis
      using 2(1,2) by (auto simp: no_new_files_def split: option.splits)
  qed
qed (simp add: no_new_files_def)

lemma sound_del_user: "sound_del tr (fst (delete_user_tasks io a u tr))"
proof (cases "load_all_from_store a (Some u) tr")
  case (Inr ts)
  let ?tr = "merge_loaded_tasks ts tr"
  have m: "sound_del tr ?tr" by (rule sound_del_same_store [OF sound_merge_loaded [OF Inr]]) simp
  have "sound_del tr (fst (delete_each io a u l n ?tr))" for l n
    using sound_del_each [of ?tr io a u l n] sound_del_trans [OF m] by blast
  with m show ?thesis by (auto simp: delete_user_tasks_def Inr Let_def split: sum.splits)
qed (simp add: delete_user_tasks_def split: sum.splits)

section \<open>Runs of the tracker\<close>

definition clean_request :: "string \<Rightarrow> string option \<Rightarrow> string option \<Rightarrow> bool" where
  "clean_request tid account user \<longleftrightarrow>
     slash_free tid \<and> (case account of None \<Rightarrow> True | Some a \<Rightarrow> slash_free a)
     \<and> (case user of None \<Rightarrow> True | Some u \<Rightarrow> slash_free u)"

text \<open>
  Every operation of the tracker as a step. Identifiers are path segments, and an identifier made by
  \<open>uuid4\<close> is not in use. \<open>complete\<close>, \<open>fail\<close> and \<open>cancel\<close> appear as a whole and as their two halves, between
  which other steps may come. A restart of the process loses the cache and the index and keeps the store.
\<close>

inductive tracker_step :: "tracker \<Rightarrow> tracker \<Rightarrow> bool" where
  step_create: "slash_free a \<Longrightarrow> slash_free u \<Longrightarrow> slash_free new_id \<Longrightarrow>
     tid = None \<or> (\<exists>t. tid = Some t \<and> slash_free t) \<Longrightarrow> map_of (store tr) (task_path a u new_id) = None \<Longrightarrow>
     tracker_step tr (fst (create new_id now io ty r a u tid m au tr))"
| step_create_if: "slash_free a \<Longrightarrow> slash_free u \<Longrightarrow> slash_free new_id \<Longrightarrow>
     map_of (store tr) (task_path a u new_id) = None \<Longrightarrow>
     tracker_step tr (fst (create_if_no_running new_id now io ty rid a u tr))"
| step_start: "clean_request t x y \<Longrightarrow> tracker_step tr (fst (start_task now io t x y stg tr))"
| step_stage: "clean_request t x y \<Longrightarrow> tracker_step tr (fst (update_stage now io t s x y tr))"
| step_record: "clean_request t x y \<Longrightarrow> tracker_step tr (fst (record_outcome now io t x y res err rsrc tr))"
| step_outcome: "clean_request t x y \<Longrightarrow>
     tracker_step tr (fst (record_outcome_on_owner now now' io io' t x y res err rsrc tr))"
| step_finalize: "clean_request t x y \<Longrightarrow> tracker_step tr (fst (finalize_task now io t x y tr))"
| step_request_cancel: "clean_request t x y \<Longrightarrow> tracker_step tr (fst (request_cancel now io t x y tr))"
| step_cancel: "clean_request t x y \<Longrightarrow> tracker_step tr (fst (cancel_task now now' io io' t x y tr))"
| step_get: "clean_request t x y \<Longrightarrow> tracker_step tr (fst (get_task t x y tr))"
| step_list: "tracker_step tr (fst (list_tasks fty fst' frs limit x y tr))"
| step_has_running: "tracker_step tr (fst (has_running ty rid x y tr))"
| step_auth: "slash_free a \<Longrightarrow> slash_free u \<Longrightarrow> slash_free t \<Longrightarrow> tracker_step tr (fst (get_task_auth t a u tr))"
| step_evict: "tracker_step tr (evict_expired iof now tr)"
| step_delete: "tracker_step tr (fst (delete_user_tasks iof a u tr))"
| step_register: "tracker_step tr (fst (register_task_work q mdo tr))"
| step_ack: "tracker_step tr (fst (prepare_ack now io q md tr))"
| step_rollback: "tracker_step tr (tr\<lparr>work := rollback_ack q md (work tr)\<rparr>)"
| step_discard: "tracker_step tr (fst (discard_task_work now io q md tr))"
| step_running: "tracker_step tr (register_running_task t n tr)"
| step_unregister: "tracker_step tr (fst (unregister_running_task now io t n tr))"
| step_failure: "tracker_step tr (tr\<lparr>work := record_work_failure t msg (work tr)\<rparr>)"
| step_restart: "tracker_step tr (tr\<lparr>tasks := [], work := init_work_index\<rparr>)"
| step_rebuild: "tracker_step tr (tr\<lparr>work := fst (rebuild snaps (work tr))\<rparr>)"

definition init_tracker :: tracker where
  "init_tracker = \<lparr>tasks = [], store = [], work = init_work_index\<rparr>"

inductive tracker_reachable :: "tracker \<Rightarrow> bool" where
  tracker_start: "tracker_reachable init_tracker"
| tracker_next: "tracker_reachable tr \<Longrightarrow> tracker_step tr tr' \<Longrightarrow> tracker_reachable tr'"

lemmas sound_operations = sound_create sound_create_if_no_running sound_start sound_update_stage
  sound_record_outcome sound_record_outcome_on_owner sound_finalize sound_request_cancel sound_cancel
  sound_get sound_list sound_has_running sound_get_auth sound_prepare_ack sound_discard sound_unregister

lemma tracker_step_sound: "tracker_step tr tr' \<Longrightarrow> sound tr tr' \<or> sound_del tr tr'"
proof (induction rule: tracker_step.induct)
  case (step_register tr q mdo)
  then show ?case by (simp add: register_task_work_def case_prod_unfold Let_def)
next
  case (step_running tr t n)
  then show ?case by (simp add: register_running_task_def)
next
  case (step_restart tr)
  have "sound tr (tr\<lparr>tasks := []\<rparr>)" by (rule sound_shrink_cache) auto
  from sound_after_work [OF this, of init_work_index] show ?case by simp
qed (auto simp: sound_operations sound_del_evict sound_del_user)

lemma tracker_step_inv: "tracker_step tr tr' \<Longrightarrow> tracker_inv tr \<Longrightarrow> tracker_inv tr'"
  using tracker_step_sound by (auto simp: sound_def sound_del_def)

lemma init_tracker_inv: "tracker_inv init_tracker"
  by (simp add: init_tracker_def tracker_inv_def)

lemma tracker_reachable_inv: "tracker_reachable tr \<Longrightarrow> tracker_inv tr"
  by (induction rule: tracker_reachable.induct) (blast intro: init_tracker_inv tracker_step_inv)+

section \<open>Properties\<close>


definition demo_created :: tracker where
  "demo_created = fst (create ''t1'' 1000 True ''session_commit'' (Some ''s1'') ''acme'' ''alice'' None
     (JDict []) (JDict []) init_tracker)"

definition demo_task :: task_record where
  "demo_task = new_task ''t1'' 1000 ''session_commit'' (Some ''s1'') ''acme'' ''alice'' (JDict []) (JDict [])"

lemma demo_created_reachable: "tracker_reachable demo_created" and demo_created_stored: "stored demo_task demo_created"
  and demo_created_cached: "cached_task ''t1'' demo_created = Some demo_task" and demo_created_work: "work demo_created = init_work_index"
proof -
  have "slash_free ''acme''" "slash_free ''alice''" "slash_free ''t1''" by (simp_all add: slash_free_def)
  then show "tracker_reachable demo_created"
    unfolding demo_created_def
    by (intro tracker_next [OF tracker_start] step_create) (simp_all add: init_tracker_def)
  have eq: "demo_created = write_record demo_task init_tracker"
    by (simp add: demo_created_def create_def create_on_owner_def validate_owner_def Let_def persist_then_eq
        demo_task_def new_task_def)
  have c: "clean_task demo_task" "task_id demo_task = ''t1''"
    by (simp_all add: clean_task_def demo_task_def new_task_def slash_free_def)
  show "stored demo_task demo_created" "cached_task ''t1'' demo_created = Some demo_task"
    "work demo_created = init_work_index"
    unfolding eq by (simp_all add: c stored_def publish_task_def cached_task_def init_tracker_def)
qed




text \<open>C16: when and how a task becomes terminal. On a cached, active task of the caller, with a store that
  accepts the write, finalization does nothing while the task owns queue work or running coroutines;
  afterwards a cancelling task becomes cancelled, a task with a recorded error or a failed work item
  becomes failed, a task with a result becomes completed, and a task without outcome stays as it is.\<close>

theorem finalize_outcome:
  assumes "tracker_reachable tr" and "cached_task tid tr = Some t" and "status t \<in> set ACTIVE_STATUSES"
    and "matches_owner t account user" and "out = finalize_task now True tid account user tr"
    and "failed \<longleftrightarrow> error t \<noteq> None \<or> truthy (failure tid (work tr))"
  shows "snd out = Inr ()
    \<and> (if has_work tid None (work tr) \<or> (status t \<noteq> CANCELLING \<and> \<not> failed \<and> result t = None) then fst out = tr
       else \<exists>u. cached_task tid (fst out) = Some u \<and> stored u (fst out) \<and> auth u = JDict [] \<and> result u = result t
         \<and> status u = (if status t = CANCELLING then CANCELLED else if failed then FAILED else COMPLETED))"
proof -
  have t: "task_id t = tid" "stored t tr"
    using inv_cached [OF tracker_reachable_inv [OF assms(1)]] assms(2) by (auto simp: cached_task_def)
  have ld: "load_for_update tid account user tr = Inr (Some t)"
    using assms(2,4) by (simp add: load_for_update_def)
  have owner: "account_id t \<noteq> []" "user_id t \<noteq> []" using t(2) by (auto simp: stored_def clean_task_def slash_free_def)
  have err: "error (apply_work_error tid (work tr) t) \<noteq> None \<longleftrightarrow> failed"
    using t(1) by (auto simp: apply_work_error_def assms(6) truthy_def split: option.splits)
  have fr: "final_record now tid (work tr) t = None \<longleftrightarrow> status t \<noteq> CANCELLING \<and> \<not> failed \<and> result t = None"
    using err by (auto simp: final_record_def Let_def)
  show ?thesis
  proof (cases "has_work tid None (work tr) \<or> final_record now tid (work tr) t = None")
    case True
    then have "out = (tr, Inr ())" using ld by (auto simp: assms(5) finalize_task_def)
    with True fr show ?thesis by auto
  next
    case False
    then obtain u where u: "final_record now tid (work tr) t = Some u" by blast
    have su: "status u = (if status t = CANCELLING then CANCELLED else if failed then FAILED else COMPLETED)"
      and fu: "task_id u = tid" "account_id u = account_id t" "user_id u = user_id t" "auth u = JDict []" "result u = result t"
      using u err t(1) by (auto simp: final_record_def Let_def split: if_splits)
    have "out = ((write_record u tr)\<lparr>work := clear_failure tid (work (write_record u tr))\<rparr>, Inr ())"
      using False ld assms(3) u owner fu by (simp add: assms(5) finalize_task_def persist_then_eq)
    moreover have "stored u (write_record u tr)"
      using t(2) fu t(1) by (simp add: stored_def clean_task_def publish_task_def AList.update_conv')
    ultimately show ?thesis
      using False fr su fu by (auto simp: cached_task_def publish_task_def stored_def AList.update_conv')
  qed
qed

theorem finalize_outcome_witness:
  "fst (finalize_task 1002 True ''t1'' None None demo_created) = demo_created"
  using finalize_outcome [OF demo_created_reachable demo_created_cached _ _ refl refl, of None None 1002]
  by (simp add: demo_task_def new_task_def ACTIVE_STATUSES_def matches_owner_def failure_def truthy_def
      demo_created_work init_work_index_def)

section \<open>One active task per resource\<close>

lemma path_of_listed:
  "clean_task t \<Longrightarrow> is_child (task_dir (account_id t) (user_id t)) (path_of t) \<and> endswith (path_of t) ''.json''"
  by (simp add: path_of_def task_path_def is_child_def endswith_def clean_task_def slash_free_def startswith_def)

lemma store_list_complete:
  "stored t tr \<Longrightarrow> task_to_payload t \<in> set (store_list (account_id t) (Some (user_id t)) (store tr))"
  using path_of_listed [of t] map_of_SomeD [of "store tr" "path_of t" "task_to_payload t"]
  by (force simp: stored_def store_list_def clean_task_def slash_free_def)

lemma map_res_all: "(\<And>x. x \<in> set xs \<Longrightarrow> f x = Inr (g x)) \<Longrightarrow> map_res f xs = Inr (map g xs)"
  by (induction xs) auto

lemma load_all_complete:
  assumes "tracker_inv tr" and "stored t tr" and "load_all_from_store (account_id t) (Some (user_id t)) tr = Inr ts"
  shows "t \<in> set ts"
proof -
  let ?pls = "store_list (account_id t) (Some (user_id t)) (store tr)"
  have "\<exists>v. record_from_payload pl = Inr v" if pl: "pl \<in> set ?pls" for pl
  proof -
    obtain p where "(p, pl) \<in> set (store tr)"
      using pl by (auto simp: store_list_def split: option.splits if_splits)
    then have "map_of (store tr) p = Some pl" using assms(1) by (simp add: tracker_inv_def map_of_is_SomeI)
    then show ?thesis using inv_file [OF assms(1)] by fastforce
  qed
  then have "map_res record_from_payload ?pls = Inr (map (\<lambda>pl. projr (record_from_payload pl)) ?pls)"
    by (intro map_res_all) force
  then have ts: "ts = map (\<lambda>pl. projr (record_from_payload pl)) ?pls"
    using assms(3) by (simp add: load_all_from_store_def)
  show ?thesis
    unfolding ts set_map by (rule image_eqI [OF _ store_list_complete [OF assms(2)]]) simp
qed

lemma merge_caches:
  "(t \<in> set ts \<or> cached_task (task_id t) tr \<noteq> None) \<Longrightarrow> cached_task (task_id t) (merge_loaded_tasks ts tr) \<noteq> None"
  unfolding merge_loaded_tasks_def
proof (induction ts arbitrary: tr)
  case (Cons s ts)
  have "cached_task (task_id s) (merge_loaded_task s tr) \<noteq> None"
    "cached_task (task_id t) tr \<noteq> None \<Longrightarrow> cached_task (task_id t) (merge_loaded_task s tr) \<noteq> None"
    by (auto simp: merge_loaded_task_def cached_task_def publish_task_def AList.update_conv' split: option.splits)
  with Cons show ?case by auto
qed simp

definition unique_ids :: "tracker \<Rightarrow> bool" where
  "unique_ids tr \<longleftrightarrow> (\<forall>t v. stored t tr \<longrightarrow> stored v tr \<longrightarrow> task_id t = task_id v \<longrightarrow> t = v)"

lemma merged_snapshot_complete:
  assumes "tracker_inv tr" and "unique_ids tr" and "stored t tr"
    and "load_all_from_store (account_id t) (Some (user_id t)) tr = Inr ts"
  shows "t \<in> set (cache_snapshot (merge_loaded_tasks ts tr))"
proof -
  let ?tr = "merge_loaded_tasks ts tr"
  obtain v where v: "map_of (tasks ?tr) (task_id t) = Some v"
    using merge_caches [of t ts tr] load_all_complete [OF assms(1,3,4)] by (auto simp: cached_task_def)
  have "tracker_inv ?tr" using sound_merge_loaded [OF assms(4)] assms(1) by (simp add: sound_def)
  from inv_cached [OF this v] have "task_id v = task_id t" "stored v tr" by (auto simp: stored_def)
  with assms(2,3) have "v = t" by (simp add: unique_ids_def)
  with v show ?thesis by (force simp: cache_snapshot_def dest: map_of_SomeD)
qed



section \<open>Cancellation, acknowledgement and visibility\<close>

text \<open>a cancellation request stops new work. When the cancellation of a cached task was accepted, every later
  attempt to register queue work or a running coroutine for it is rejected and leaves the index as it is,
  for as long as the task stays cached.\<close>

lemma cancel_rejects_work:
  assumes "tracker_reachable tr" and "cached_task tid tr = Some t"
    and "request_cancel now io tid account user tr = (tr', Inr CancelFinish)" and "qm_task_id md = tid"
  shows "register_task_work q (Some md) tr' = (tr', False) \<and> register_running_task tid n tr' = tr'"
proof -
  have t: "task_id t = tid"
    using inv_cached [OF tracker_reachable_inv [OF assms(1)]] assms(2) by (auto simp: cached_task_def)
  have "load_for_update tid account user tr = Inr (if matches_owner t account user then Some t else None)"
    using assms(2) by (simp add: load_for_update_def)
  then have "is_cancellation_requested tid tr'"
    using assms(2,3) t
    by (auto simp: request_cancel_def persist_then_eq is_cancellation_requested_def publish_task_def cached_task_def
        AList.update_conv' split: if_splits)
  then show ?thesis
    using assms(4)
    by (simp add: register_task_work_def register_work_def register_running_task_def register_active_def)
qed

lemma finalize_error_unchanged: "finalize_task now io tid a u tr = (tr', Inl e) \<Longrightarrow> tr' = tr"
  by (auto simp: finalize_task_def persist_then_eq split: if_splits sum.splits option.splits)

lemma finalize_work_items: "work_items (work (fst (finalize_task now io tid a u tr))) = work_items (work tr)"
  by (auto simp: finalize_task_def persist_then_eq publish_task_def clear_failure_def work_items_def
      split: sum.splits option.splits)

text \<open>acknowledging work. When the acknowledgement of a work item is prepared, the item leaves the index exactly when
  the call succeeds; when the finalization that the last item triggers fails, the index holds the
  same work items as before and the store is unchanged, so the durable message can be delivered again.\<close>

lemma prepare_ack_atomic:
  "case prepare_ack now io q md tr of
     (tr', Inr _) \<Rightarrow> work_items (work tr') = work_items (work tr) - {(qm_task_id md, q, qm_work_id md)}
   | (tr', Inl _) \<Rightarrow> work_items (work tr') = work_items (work tr) \<and> store tr' = store tr \<and> tasks tr' = tasks tr"
proof -
  obtain idx removed idle where r: "remove_work q md (work tr) = (idx, removed, idle)" by (metis prod_cases3)
  have idx: "work_items idx = work_items (work tr) - {(qm_task_id md, q, qm_work_id md)}"
    using work_items_remove [of q md "work tr"] r by simp
  obtain tr'' out where f: "finalize_before_ack now io md (tr\<lparr>work := idx\<rparr>) = (tr'', out)" by force
  have w: "work_items (work tr'') = work_items idx"
    using finalize_work_items f unfolding finalize_before_ack_def by (metis fst_conv tracker.select_convs(3) tracker.surjective tracker.update_convs(3))
  have e: "tr'' = tr\<lparr>work := idx\<rparr>" if "out = Inl x" for x
    using finalize_error_unchanged f that unfolding finalize_before_ack_def by blast
  have rm: "removed \<Longrightarrow> (qm_task_id md, q, qm_work_id md) \<in> work_items (work tr)"
    using remove_work_idle [OF r] by simp
  show ?thesis
    using idx w e rm by (auto simp: prepare_ack_def r Let_def f split: sum.splits)
qed

fun no_sensitive :: "json \<Rightarrow> bool" where
  "no_sensitive (JDict kvs) = (\<forall>(key, val) \<in> set kvs. key \<noteq> cps ''user_key'' \<and> no_sensitive val)"
| "no_sensitive (JList xs) = (\<forall>x \<in> set xs. no_sensitive x)"
| "no_sensitive _ = True"

lemma sanitize_no_sensitive: "no_sensitive (sanitize_task_result j)"
  by (induction j rule: sanitize_task_result.induct) (auto simp: SENSITIVE_RESULT_KEYS_def)

text \<open>what a reader of a task sees. A snapshot returned by \<open>get\<close> for an account and a user belongs to that
  account and user, carries no authentication data, and neither its metadata nor its result contains the
  key \<open>user_key\<close> at any depth.\<close>

lemma get_task_visibility:
  assumes "get_task tid (Some a) (Some u) tr = (tr', Inr (Some s))"
  shows "account_id s = a \<and> user_id s = u \<and> auth s = JDict [] \<and> no_sensitive (meta s)
    \<and> (\<forall>r. result s = Some r \<longrightarrow> no_sensitive r)"
proof -
  obtain t where "s = copy_task t" "matches_owner t (Some a) (Some u)"
    using assms by (auto simp: get_task_def get_on_owner_def Let_def split: option.splits sum.splits if_splits)
  then show ?thesis
    by (auto simp: copy_task_def matches_owner_def sanitize_no_sensitive split: if_splits)
qed

end
