(* ===== verification/Py_Values.thy ===== *)
theory Py_Values
  imports Message
begin

text \<open>
  Dynamic values. A request field or a parsed JSON document is a value of type \<open>json\<close>; this theory
  holds the conversions \<open>int(value)\<close> and \<open>float(value)\<close> that the code applies to such values, with the
  exceptions they raise. Decimal digits are the ASCII ones. A finite float is the rational number of its
  text, so the rounding to the nearest double is left out, but not its overflow.
\<close>

datatype pyfloat = Fin rat | PosInf | NegInf | Nan

section \<open>Number texts\<close>

definition is_digit_cp :: "nat \<Rightarrow> bool" where
  "is_digit_cp c \<longleftrightarrow> 48 \<le> c \<and> c \<le> 57"

definition strip_text :: "utext \<Rightarrow> utext" where
  "strip_text t = rstrip_text (lstrip_text t)"

definition lower_cp :: "nat \<Rightarrow> nat" where
  "lower_cp c = (if 65 \<le> c \<and> c \<le> 90 then c + 32 else c)"

text \<open>Digits with single underscores between them: the number and how many digits there were.\<close>

fun digit_part :: "nat \<Rightarrow> nat \<Rightarrow> bool \<Rightarrow> utext \<Rightarrow> (nat \<times> nat) option" where
  "digit_part acc n after_digit [] = (if after_digit then Some (acc, n) else None)"
| "digit_part acc n after_digit (c # cs) =
     (if is_digit_cp c then digit_part (10 * acc + (c - 48)) (Suc n) True cs
      else if c = 95 \<and> after_digit then digit_part acc n False cs
      else None)"

definition split_sign :: "utext \<Rightarrow> bool \<times> utext" where
  "split_sign t =
     (case t of c # cs \<Rightarrow> if c = 45 then (True, cs) else if c = 43 then (False, cs) else (False, t)
      | [] \<Rightarrow> (False, []))"

definition signed_digits :: "utext \<Rightarrow> int option" where
  "signed_digits t =
     (let (neg, ds) = split_sign t
      in map_option (\<lambda>(n, _). if neg then - int n else int n) (digit_part 0 0 False ds))"

definition parse_int :: "utext \<Rightarrow> int option" where
  "parse_int t = signed_digits (strip_text t)"

definition FLOAT_LIMIT :: rat where
  "FLOAT_LIMIT = 2 ^ 1024 - 2 ^ 970"

definition float_of_rat :: "rat \<Rightarrow> pyfloat" where
  "float_of_rat r = (if r \<ge> FLOAT_LIMIT then PosInf else if r \<le> - FLOAT_LIMIT then NegInf else Fin r)"

definition power_ten :: "int \<Rightarrow> rat" where
  "power_ten e = (if 0 \<le> e then 10 ^ nat e else 1 / 10 ^ nat (- e))"

text \<open>An unsigned decimal: integer part, fraction, exponent.\<close>

definition parse_decimal :: "utext \<Rightarrow> rat option" where
  "parse_decimal t =
     (let mantissa = takeWhile (\<lambda>c. lower_cp c \<noteq> 101) t;
          rest = drop (length mantissa) t;
          whole = takeWhile (\<lambda>c. c \<noteq> 46) mantissa;
          point = drop (length whole) mantissa;
          fraction = drop 1 point;
          part = (\<lambda>p. if p = [] then Some (0, 0) else digit_part 0 0 False p);
          expo = (if rest = [] then Some 0 else signed_digits (drop 1 rest))
      in if whole = [] \<and> fraction = [] then None
         else case (part whole, part fraction, expo) of
           (Some (w, _), Some (f, n), Some e) \<Rightarrow>
             Some ((of_nat w + of_nat f / 10 ^ n) * power_ten e)
         | _ \<Rightarrow> None)"

definition parse_float :: "utext \<Rightarrow> pyfloat option" where
  "parse_float t =
     (let (neg, body) = split_sign (strip_text t); low = map lower_cp body
      in if low = cps ''inf'' \<or> low = cps ''infinity'' then Some (if neg then NegInf else PosInf)
         else if low = cps ''nan'' then Some Nan
         else map_option (\<lambda>r. float_of_rat (if neg then - r else r)) (parse_decimal body))"

section \<open>\<open>int\<close> and \<open>float\<close>\<close>

text \<open>\<open>int\<close> of a float truncates towards zero.\<close>

definition truncate_rat :: "rat \<Rightarrow> int" where
  "truncate_rat r = (if 0 \<le> r then \<lfloor>r\<rfloor> else \<lceil>r\<rceil>)"

fun int_of_float :: "pyfloat \<Rightarrow> int res" where
  "int_of_float (Fin r) = Inr (truncate_rat r)"
| "int_of_float PosInf = Inl OverflowError"
| "int_of_float NegInf = Inl OverflowError"
| "int_of_float Nan = Inl ValueError"

fun or_value_error :: "'a option \<Rightarrow> 'a res" where
  "or_value_error None = Inl ValueError"
| "or_value_error (Some x) = Inr x"

fun py_int :: "json \<Rightarrow> int res" where
  "py_int JNull = Inl TypeError"
| "py_int (JBool b) = Inr (if b then 1 else 0)"
| "py_int (JInt i) = Inr i"
| "py_int (JFloat r) = bind_res (or_value_error (parse_float r)) int_of_float"
| "py_int (JStr s) = or_value_error (parse_int s)"
| "py_int (JList _) = Inl TypeError"
| "py_int (JDict _) = Inl TypeError"

text \<open>An integer beyond the range of doubles has no float.\<close>

definition float_of_int :: "int \<Rightarrow> pyfloat res" where
  "float_of_int i = (case float_of_rat (of_int i) of Fin r \<Rightarrow> Inr (Fin r) | _ \<Rightarrow> Inl OverflowError)"

fun py_float :: "json \<Rightarrow> pyfloat res" where
  "py_float JNull = Inl TypeError"
| "py_float (JBool b) = Inr (Fin (if b then 1 else 0))"
| "py_float (JInt i) = float_of_int i"
| "py_float (JFloat r) = or_value_error (parse_float r)"
| "py_float (JStr s) = or_value_error (parse_float s)"
| "py_float (JList _) = Inl TypeError"
| "py_float (JDict _) = Inl TypeError"

text \<open>Truth of a value.\<close>

fun truthy_json :: "json \<Rightarrow> bool" where
  "truthy_json JNull = False"
| "truthy_json (JBool b) = b"
| "truthy_json (JInt i) = (i \<noteq> 0)"
| "truthy_json (JFloat r) = (parse_float r \<noteq> Some (Fin 0))"
| "truthy_json (JStr s) = (s \<noteq> [])"
| "truthy_json (JList xs) = (xs \<noteq> [])"
| "truthy_json (JDict d) = (d \<noteq> [])"

text \<open>The clause \<open>except (TypeError, ValueError)\<close>: a fallback for these two, any other exception goes on.\<close>

fun or_else :: "'a res \<Rightarrow> 'a \<Rightarrow> 'a res" where
  "or_else (Inr x) d = Inr x"
| "or_else (Inl e) d = (if e = TypeError \<or> is_value_error e then Inr d else Inl e)"

lemma or_else_Inr_iff:
  "or_else m d = Inr x \<longleftrightarrow> m = Inr x \<or> (x = d \<and> (\<exists>e. m = Inl e \<and> (e = TypeError \<or> is_value_error e)))"
  by (cases m) auto

lemma int_of_float_total:
  "int_of_float f = Inl e \<Longrightarrow> e = OverflowError \<or> e = ValueError"
  by (cases f) auto

text \<open>The only exception of \<open>int(value)\<close> that such a clause lets through is the overflow of an infinite float.\<close>

lemma py_int_error:
  "py_int v = Inl e \<Longrightarrow> e = TypeError \<or> e = ValueError \<or> (e = OverflowError \<and> (\<exists>r. v = JFloat r))"
proof (cases v)
  case (JFloat r)
  assume "py_int v = Inl e"
  with JFloat show ?thesis
    by (cases "parse_float r") (auto dest: int_of_float_total)
qed (auto, metis or_value_error.elims sum.inject(1) sum.simps(4))

lemma or_else_int_error: "or_else (py_int v) d = Inl e \<Longrightarrow> e = OverflowError \<and> (\<exists>r. v = JFloat r)"
  using py_int_error [of v] by (cases "py_int v") (auto split: if_splits)

lemma cps_inject [simp]: "cps s = cps t \<longleftrightarrow> s = t"
proof -
  have "inj (of_char :: char \<Rightarrow> nat)" by (rule inj_on_inverseI [where g = char_of]) simp
  then show ?thesis by (simp add: cps_def inj_map_eq_map)
qed

lemma cps_append [simp]: "cps (s @ t) = cps s @ cps t"
  by (simp add: cps_def)

lemma cps_eq_Nil [simp]: "cps s = [] \<longleftrightarrow> s = []"
  by (simp add: cps_def)

end
