(* ===== verification/Json_Text.thy ===== *)
theory Json_Text
  imports Py_Values
begin

text \<open>
  Reading JSON text, the fragment of Python's \<open>json.loads\<close> that the modelled modules use: the scanner of values, strings with
  their escapes, numbers, arrays and objects, and the constants that Python adds. A float keeps its literal. The
  scanner takes a fuel argument; \<open>loads\<close> gives it one unit per character and one more, and the round trip with \<open>dumps\<close> shows
  that this is enough. Python's recursion limit is not modelled.
\<close>

definition is_ws :: "nat \<Rightarrow> bool" where
  "is_ws c \<longleftrightarrow> c = 32 \<or> c = 9 \<or> c = 10 \<or> c = 13"

abbreviation skip_ws :: "utext \<Rightarrow> utext" where
  "skip_ws t \<equiv> dropWhile is_ws t"

definition has_prefix :: "utext \<Rightarrow> utext \<Rightarrow> bool" where
  "has_prefix p t \<longleftrightarrow> take (length p) t = p"

section \<open>Strings\<close>

definition hex_value :: "nat \<Rightarrow> nat option" where
  "hex_value c =
     (if 48 \<le> c \<and> c \<le> 57 then Some (c - 48)
      else if 97 \<le> c \<and> c \<le> 102 then Some (c - 87)
      else if 65 \<le> c \<and> c \<le> 70 then Some (c - 55) else None)"

fun hex4 :: "utext \<Rightarrow> (nat \<times> utext) option" where
  "hex4 (a # b # c # d # rest) =
     (case (hex_value a, hex_value b, hex_value c, hex_value d) of
        (Some a, Some b, Some c, Some d) \<Rightarrow> Some (4096 * a + 256 * b + 16 * c + d, rest)
      | _ \<Rightarrow> None)"
| "hex4 _ = None"

definition simple_escape :: "nat \<Rightarrow> nat option" where
  "simple_escape c =
     map_of [(34, 34), (92, 92), (47, 47), (98, 8), (102, 12), (110, 10), (114, 13), (116, 9)] c"

text \<open>The part of a \<open>\u\<close> escape: a high surrogate joins a following low one.\<close>

definition unicode_escape :: "utext \<Rightarrow> (nat \<times> utext) option" where
  "unicode_escape t =
     (case hex4 t of
        None \<Rightarrow> None
      | Some (u, rest) \<Rightarrow>
          if 0xD800 \<le> u \<and> u \<le> 0xDBFF \<and> has_prefix [92, 117] rest then
            (case hex4 (drop 2 rest) of
               None \<Rightarrow> Some (u, rest)
             | Some (v, rest') \<Rightarrow>
                 if 0xDC00 \<le> v \<and> v \<le> 0xDFFF then Some (0x10000 + (u - 0xD800) * 1024 + (v - 0xDC00), rest')
                 else Some (u, rest))
          else Some (u, rest))"

lemma hex4_shorter: "hex4 t = Some (u, r) \<Longrightarrow> length r < length t"
  by (cases t rule: hex4.cases) (auto split: option.splits prod.splits)

lemma unicode_escape_shorter: "unicode_escape t = Some (u, r) \<Longrightarrow> length r < length t"
  by (auto simp: unicode_escape_def split: option.splits if_splits dest!: hex4_shorter)

function scan_string :: "utext \<Rightarrow> (utext \<times> utext) option" where
  "scan_string [] = None"
| "scan_string (c # cs) =
     (if c = 34 then Some ([], cs)
      else if c < 32 then None
      else if c \<noteq> 92 then map_option (\<lambda>(s, rest). (c # s, rest)) (scan_string cs)
      else
        (case cs of
           [] \<Rightarrow> None
         | e # ds \<Rightarrow>
             if e = 117 then
               (case unicode_escape ds of
                  None \<Rightarrow> None
                | Some (u, rest) \<Rightarrow> map_option (\<lambda>(s, r). (u # s, r)) (scan_string rest))
             else
               (case simple_escape e of
                  None \<Rightarrow> None
                | Some x \<Rightarrow> map_option (\<lambda>(s, r). (x # s, r)) (scan_string ds))))"
  by pat_completeness auto
termination
  by (relation "measure length") (auto dest: unicode_escape_shorter)

section \<open>Numbers\<close>

fun number_of_digits :: "nat \<Rightarrow> utext \<Rightarrow> nat" where
  "number_of_digits acc [] = acc"
| "number_of_digits acc (c # cs) = number_of_digits (10 * acc + (c - 48)) cs"

definition scan_frac :: "utext \<Rightarrow> utext" where
  "scan_frac t =
     (case t of
        [] \<Rightarrow> []
      | c # cs \<Rightarrow> if c = 46 \<and> takeWhile is_digit_cp cs \<noteq> [] then c # takeWhile is_digit_cp cs else [])"

definition scan_exp :: "utext \<Rightarrow> utext" where
  "scan_exp t =
     (case t of
        [] \<Rightarrow> []
      | c # cs \<Rightarrow>
          if c = 101 \<or> c = 69 then
            (let sign = (if cs \<noteq> [] \<and> (hd cs = 43 \<or> hd cs = 45) then [hd cs] else []);
                 ds = takeWhile is_digit_cp (drop (length sign) cs)
             in if ds \<noteq> [] then c # sign @ ds else [])
          else [])"

definition digit_run :: "utext \<Rightarrow> utext" where
  "digit_run r = (if r \<noteq> [] \<and> hd r = 48 then [48] else takeWhile is_digit_cp r)"

text \<open>\<open>(-?(?:0|[1-9]\d*))(\.\d+)?([eE][-+]?\d+)?\<close>: an integer without the optional parts, a float with one.\<close>

definition scan_unsigned :: "bool \<Rightarrow> utext \<Rightarrow> (json \<times> utext) option" where
  "scan_unsigned neg t =
     (let ds = digit_run t;
          r = drop (length ds) t;
          fr = scan_frac r;
          r = drop (length fr) r;
          ex = scan_exp r;
          r = drop (length ex) r
      in if ds = [] then None
         else if fr = [] \<and> ex = []
         then Some (JInt (if neg then - int (number_of_digits 0 ds) else int (number_of_digits 0 ds)), r)
         else Some (JFloat ((if neg then [45] else []) @ ds @ fr @ ex), r))"

fun scan_number :: "utext \<Rightarrow> (json \<times> utext) option" where
  "scan_number [] = None"
| "scan_number (c # cs) = (if c = 45 then scan_unsigned True cs else scan_unsigned False (c # cs))"

section \<open>Values\<close>

definition json_constants :: "(utext \<times> json) list" where
  "json_constants =
     [(cps ''null'', JNull), (cps ''true'', JBool True), (cps ''false'', JBool False), (cps ''NaN'', JFloat (cps ''NaN'')),
      (cps ''Infinity'', JFloat (cps ''Infinity'')), (cps ''-Infinity'', JFloat (cps ''-Infinity''))]"

text \<open>A key that occurs again keeps its place and takes the later value.\<close>

fun scan_value :: "nat \<Rightarrow> utext \<Rightarrow> (json \<times> utext) option"
  and scan_items :: "nat \<Rightarrow> utext \<Rightarrow> (json list \<times> utext) option"
  and scan_members :: "nat \<Rightarrow> (utext \<times> json) list \<Rightarrow> utext \<Rightarrow> ((utext \<times> json) list \<times> utext) option" where
  "scan_value 0 t = None"
| "scan_value (Suc fuel) t =
     (case t of
        [] \<Rightarrow> None
      | c # cs \<Rightarrow>
          if c = 34 then map_option (\<lambda>(s, r). (JStr s, r)) (scan_string cs)
          else if c = 91 then
            (let r = skip_ws cs
             in if has_prefix [93] r then Some (JList [], tl r)
                else map_option (\<lambda>(xs, r). (JList xs, r)) (scan_items fuel r))
          else if c = 123 then
            (let r = skip_ws cs
             in if has_prefix [125] r then Some (JDict [], tl r)
                else map_option (\<lambda>(kvs, r). (JDict kvs, r)) (scan_members fuel [] r))
          else
            (case filter (\<lambda>(w, v). has_prefix w t) json_constants of
               (w, v) # _ \<Rightarrow> Some (v, drop (length w) t)
             | [] \<Rightarrow> scan_number t))"
| "scan_items 0 t = None"
| "scan_items (Suc fuel) t =
     (case scan_value fuel t of
        None \<Rightarrow> None
      | Some (v, r) \<Rightarrow>
          (case skip_ws r of
             [] \<Rightarrow> None
           | d # ds \<Rightarrow>
               if d = 93 then Some ([v], ds)
               else if d = 44 then map_option (\<lambda>(vs, r). (v # vs, r)) (scan_items fuel (skip_ws ds))
               else None))"
| "scan_members 0 acc t = None"
| "scan_members (Suc fuel) acc t =
     (case t of
        [] \<Rightarrow> None
      | q # qs \<Rightarrow>
          if q \<noteq> 34 then None
          else
            (case scan_string qs of
               None \<Rightarrow> None
             | Some (k, r) \<Rightarrow>
                 (case skip_ws r of
                    [] \<Rightarrow> None
                  | d # ds \<Rightarrow>
                      if d \<noteq> 58 then None
                      else
                        (case scan_value fuel (skip_ws ds) of
                           None \<Rightarrow> None
                         | Some (v, r) \<Rightarrow>
                             (case skip_ws r of
                                [] \<Rightarrow> None
                              | d # ds \<Rightarrow>
                                  if d = 125 then Some (AList.update k v acc, ds)
                                  else if d = 44 then scan_members fuel (AList.update k v acc) (skip_ws ds)
                                  else None)))))"

definition loads :: "utext \<Rightarrow> json res" where
  "loads t =
     (if has_prefix [0xFEFF] t then Inl ValueError
      else case scan_value (Suc (length t)) (skip_ws t) of
          None \<Rightarrow> Inl ValueError
        | Some (v, r) \<Rightarrow> if skip_ws r = [] then Inr v else Inl ValueError)"

section \<open>Reading back what \<open>dumps\<close> writes\<close>

declare scan_string.simps [simp del]

definition stops :: "utext \<Rightarrow> bool" where
  "stops rest \<longleftrightarrow> rest = [] \<or> hd rest \<in> {44, 93, 125}"

text \<open>A value that Python can hold: floats are literals with a fraction or an exponent, or one of the three
  constants, and the keys of a dict are distinct.\<close>

fun wf_json :: "json \<Rightarrow> bool" where
  "wf_json (JFloat r) \<longleftrightarrow>
     r \<in> {cps ''NaN'', cps ''Infinity'', cps ''-Infinity''} \<or> scan_number r = Some (JFloat r, [])"
| "wf_json (JList xs) \<longleftrightarrow> (\<forall>x \<in> set xs. wf_json x)"
| "wf_json (JDict kvs) \<longleftrightarrow> distinct (map fst kvs) \<and> (\<forall>(k, v) \<in> set kvs. wf_json v)"
| "wf_json _ \<longleftrightarrow> True"

subsection \<open>Strings\<close>

lemma hex_value_digit: "d < 16 \<Longrightarrow> hex_value (hex_digit d) = Some d"
  by (auto simp: hex_value_def hex_digit_def)

lemma scan_escape_cp: "scan_string (escape_cp c @ t) = map_option (\<lambda>(s, r). (c # s, r)) (scan_string t)"
proof -
  have low: "hex4 (48 # 48 # hex_digit (c div 16) # hex_digit (c mod 16) # t) = Some (c, t)" if "c < 32"
    using that hex_value_digit [of "c div 16"] hex_value_digit [of "c mod 16"]
    by (simp add: hex_value_def [of 48])
  have u: "unicode_escape (48 # 48 # hex_digit (c div 16) # hex_digit (c mod 16) # t) = Some (c, t)" if "c < 32"
    using low [OF that] that by (simp add: unicode_escape_def)
  show ?thesis
    by (auto simp: escape_cp_def scan_string.simps simple_escape_def u)
qed

lemma scan_string_text: "scan_string (concat (map escape_cp s) @ 34 # rest) = Some (s, rest)"
  by (induction s) (simp_all add: scan_escape_cp scan_string.simps)

subsection \<open>Numbers\<close>

lemma digits_nonempty [simp]: "digits n \<noteq> []"
  by (subst digits.simps) simp

lemma digits_are_digits: "c \<in> set (digits n) \<Longrightarrow> is_digit_cp c"
proof (induction n rule: digits.induct)
  case (1 n)
  from 1(2) show ?case by (subst (asm) digits.simps) (use 1(1) in \<open>auto simp: is_digit_cp_def split: if_splits\<close>)
qed

lemma number_of_digits_append:
  "number_of_digits acc (s @ [c]) = 10 * number_of_digits acc s + (c - 48)"
  by (induction acc s rule: number_of_digits.induct) auto

lemma number_of_digits_digits [simp]: "number_of_digits 0 (digits n) = n"
proof (induction n rule: digits.induct)
  case (1 n)
  show ?case
  proof (cases "n < 10")
    case True
    then show ?thesis by (subst digits.simps) simp
  next
    case False
    with 1 show ?thesis by (subst digits.simps) (simp add: number_of_digits_append)
  qed
qed

lemma digits_hd_zero: "hd (digits n) = 48 \<longleftrightarrow> n = 0"
proof (induction n rule: digits.induct)
  case (1 n)
  show ?case
  proof (cases "n < 10")
    case True
    then show ?thesis by (subst digits.simps) simp
  next
    case False
    with 1 have "hd (digits (n div 10)) \<noteq> 48" by simp
    with False show ?thesis by (subst digits.simps) simp
  qed
qed

lemma digits_zero: "digits 0 = [48]"
  by (subst digits.simps) simp

lemma stops_not_digit: "stops rest \<Longrightarrow> takeWhile is_digit_cp rest = []"
  by (cases rest) (auto simp: stops_def is_digit_cp_def)

lemma stops_scan [simp]: "stops rest \<Longrightarrow> scan_frac rest = []" "stops rest \<Longrightarrow> scan_exp rest = []"
  by (cases rest; auto simp: stops_def scan_frac_def scan_exp_def)+

lemma takeWhile_digits: "stops rest \<Longrightarrow> takeWhile is_digit_cp (digits n @ rest) = digits n"
  using stops_not_digit by (simp add: takeWhile_append2 digits_are_digits)

lemma digit_run_digits: "stops rest \<Longrightarrow> digit_run (digits n @ rest) = digits n"
  by (cases "n = 0") (simp_all add: digit_run_def digits_zero digits_hd_zero hd_append takeWhile_digits)

lemma scan_int_text:
  assumes "stops rest"
  shows "scan_number (int_text i @ rest) = Some (JInt i, rest)"
proof -
  have u: "scan_unsigned neg (digits n @ rest) = Some (JInt (if neg then - int n else int n), rest)" for neg n
    by (simp add: scan_unsigned_def digit_run_digits assms)
  have "\<exists>d ds. digits n = d # ds \<and> d \<noteq> 45" for n :: nat
  proof (cases "digits n")
    case (Cons d ds)
    then have "is_digit_cp d" using digits_are_digits [of d n] by simp
    with Cons show ?thesis by (auto simp: is_digit_cp_def)
  qed simp
  then have "scan_number (digits n @ rest) = scan_unsigned False (digits n @ rest)" for n
    by (metis append_Cons scan_number.simps(2))
  then show ?thesis using u by (simp add: int_text_def)
qed

text \<open>A float literal is read the same with a delimiter after it.\<close>

lemma takeWhile_digits_append:
  assumes "stops rest"
  shows "takeWhile is_digit_cp (t @ rest) = takeWhile is_digit_cp t"
  by (induction t) (simp_all add: stops_not_digit [OF assms])

lemma digit_run_append: "stops rest \<Longrightarrow> digit_run (t @ rest) = digit_run t"
proof (cases t)
  case Nil
  assume s: "stops rest"
  then have "rest = [] \<or> hd rest \<noteq> 48" by (auto simp: stops_def)
  with s Nil show ?thesis by (auto simp: digit_run_def stops_not_digit)
next
  case (Cons c cs)
  assume "stops rest"
  then show ?thesis using takeWhile_digits_append [of rest t] Cons by (simp add: digit_run_def)
qed

lemma scan_frac_append: "stops rest \<Longrightarrow> scan_frac (t @ rest) = scan_frac t"
  by (cases t) (simp_all add: takeWhile_digits_append scan_frac_def [of "_ # _"], simp add: scan_frac_def)

lemma scan_exp_append: "stops rest \<Longrightarrow> scan_exp (t @ rest) = scan_exp t"
proof (cases t)
  case (Cons c cs)
  assume s: "stops rest"
  show ?thesis
  proof (cases cs)
    case Nil
    with Cons s show ?thesis by (cases rest) (auto simp: scan_exp_def stops_def Let_def is_digit_cp_def)
  next
    case (Cons d ds)
    with \<open>t = c # cs\<close> s show ?thesis
      using takeWhile_digits_append [OF s, of ds] takeWhile_digits_append [OF s, of cs]
      by (auto simp: scan_exp_def Let_def)
  qed
qed (simp add: scan_exp_def [of "[]"])

lemma length_digit_run: "length (digit_run t) \<le> length t"
  using length_takeWhile_le [of is_digit_cp t] unfolding digit_run_def by (cases t) auto

lemma length_scan_frac: "length (scan_frac t) \<le> length t"
  by (cases t) (simp_all add: scan_frac_def length_takeWhile_le)

lemma length_scan_exp: "length (scan_exp t) \<le> length t"
proof (cases t)
  case (Cons c cs)
  then show ?thesis
    using length_takeWhile_le [of is_digit_cp cs] length_takeWhile_le [of is_digit_cp "tl cs"]
    by (cases cs) (auto simp: scan_exp_def Let_def)
qed (simp add: scan_exp_def)

lemma scan_unsigned_append:
  assumes "stops rest" and "scan_unsigned neg t = Some (v, [])"
  shows "scan_unsigned neg (t @ rest) = Some (v, rest)"
proof -
  define ds where "ds = digit_run t"
  define fr where "fr = scan_frac (drop (length ds) t)"
  define ex where "ex = scan_exp (drop (length fr) (drop (length ds) t))"
  have le: "length ds \<le> length t" "length fr \<le> length (drop (length ds) t)"
    by (simp_all only: ds_def fr_def length_digit_run length_scan_frac)
  have end_t: "drop (length ex) (drop (length fr) (drop (length ds) t)) = []"
    using assms(2) by (auto simp: scan_unsigned_def Let_def ds_def fr_def ex_def split: if_splits)
  have d: "digit_run (t @ rest) = ds" using digit_run_append [OF assms(1)] ds_def by simp
  have f: "scan_frac (drop (length ds) (t @ rest)) = fr"
    using scan_frac_append [OF assms(1)] le(1) by (simp add: fr_def)
  have e: "scan_exp (drop (length fr) (drop (length ds) (t @ rest))) = ex"
    using scan_exp_append [OF assms(1)] le by (simp add: ex_def)
  have "length ex \<le> length (drop (length fr) (drop (length ds) t))"
    by (simp only: ex_def length_scan_exp)
  then have r: "drop (length ex) (drop (length fr) (drop (length ds) (t @ rest))) = rest"
    using le end_t by simp
  let ?res = "\<lambda>tail. if ds = [] then None
         else if fr = [] \<and> ex = []
         then Some (JInt (if neg then - int (number_of_digits 0 ds) else int (number_of_digits 0 ds)), tail)
         else Some (JFloat ((if neg then [45] else []) @ ds @ fr @ ex), tail :: utext)"
  have "scan_unsigned neg t = ?res (drop (length ex) (drop (length fr) (drop (length ds) t)))"
    by (simp only: scan_unsigned_def Let_def ds_def fr_def ex_def)
  moreover have "scan_unsigned neg (t @ rest) = ?res rest"
    by (simp only: scan_unsigned_def Let_def d f e r)
  ultimately show ?thesis using assms(2) by (auto split: if_splits)
qed

lemma scan_number_append:
  "stops rest \<Longrightarrow> scan_number t = Some (v, []) \<Longrightarrow> scan_number (t @ rest) = Some (v, rest)"
  by (cases t) (auto simp: scan_unsigned_append split: if_splits dest: scan_unsigned_append)

subsection \<open>Values\<close>

lemma scan_constant:
  "stops rest \<Longrightarrow> (w, v) \<in> set json_constants \<Longrightarrow> scan_value (Suc f) (w @ rest) = Some (v, rest)"
  by (auto simp: json_constants_def cps_def has_prefix_def)

lemma no_constant:
  assumes "is_digit_cp c \<or> (c = 45 \<and> (\<exists>d ds. cs = d # ds \<and> is_digit_cp d))"
  shows "scan_value (Suc f) (c # cs) = scan_number (c # cs)"
proof -
  have "\<not> has_prefix w (c # cs)" if "(w, v) \<in> set json_constants" for w v
    using that assms by (auto simp: json_constants_def cps_def has_prefix_def is_digit_cp_def)
  then have "filter (\<lambda>(w, v). has_prefix w (c # cs)) json_constants = []" by (auto simp: filter_empty_conv)
  moreover have "c \<noteq> 34" "c \<noteq> 91" "c \<noteq> 123" using assms by (auto simp: is_digit_cp_def)
  ultimately show ?thesis by simp
qed

lemma digits_Cons: "\<exists>d ds. digits n = d # ds \<and> is_digit_cp d"
  using digits_are_digits [of _ n] by (cases "digits n") auto

lemma int_text_start:
  "\<exists>c cs. int_text i @ rest = c # cs \<and> (is_digit_cp c \<or> (c = 45 \<and> (\<exists>d ds. cs = d # ds \<and> is_digit_cp d)))"
proof -
  obtain d ds where "digits (nat (if i < 0 then - i else i)) = d # ds" "is_digit_cp d" using digits_Cons by blast
  then show ?thesis by (auto simp: int_text_def)
qed

lemma scan_unsigned_start: "scan_unsigned neg t = Some x \<Longrightarrow> \<exists>d ds. t = d # ds \<and> is_digit_cp d"
proof -
  assume "scan_unsigned neg t = Some x"
  then have "digit_run t \<noteq> []" by (auto simp: scan_unsigned_def Let_def split: if_splits)
  then show ?thesis by (cases t) (auto simp: digit_run_def is_digit_cp_def split: if_splits)
qed

lemma float_text_start:
  assumes "scan_number r = Some (v, s)"
  shows "\<exists>c cs. r @ rest = c # cs \<and> (is_digit_cp c \<or> (c = 45 \<and> (\<exists>d ds. cs = d # ds \<and> is_digit_cp d)))"
proof (cases r)
  case (Cons c cs)
  show ?thesis
  proof (cases "c = 45")
    case True
    with assms Cons have "scan_unsigned True cs = Some (v, s)" by simp
    from scan_unsigned_start [OF this] Cons True show ?thesis by auto
  next
    case False
    with assms Cons have "scan_unsigned False (c # cs) = Some (v, s)" by simp
    from scan_unsigned_start [OF this] Cons show ?thesis by auto
  qed
qed (use assms in simp)

text \<open>What a value starts with: not white space, and no closing bracket.\<close>

lemma dumps_start:
  assumes "wf_json v"
  shows "\<exists>c cs. dumps v = c # cs \<and> \<not> is_ws c \<and> c \<noteq> 93 \<and> c \<noteq> 125"
proof (cases v)
  case (JInt i)
  obtain c cs where "int_text i @ [] = c # cs" "is_digit_cp c \<or> c = 45" using int_text_start [of i "[]"] by blast
  with JInt show ?thesis by (auto simp: is_ws_def is_digit_cp_def)
next
  case (JFloat r)
  show ?thesis
  proof (cases "r \<in> {cps ''NaN'', cps ''Infinity'', cps ''-Infinity''}")
    case True
    with JFloat show ?thesis by (auto simp: cps_def is_ws_def)
  next
    case False
    with JFloat assms have "scan_number r = Some (JFloat r, [])" by simp
    from float_text_start [OF this, of "[]"] JFloat show ?thesis by (auto simp: is_ws_def is_digit_cp_def)
  qed
qed (auto simp: cps_def str_text_def is_ws_def)

lemma commas_Cons: "xs \<noteq> [] \<Longrightarrow> commas (x # xs) = x @ [44, 32] @ commas xs"
  by (cases xs) auto

lemma scan_items_roundtrip:
  assumes "\<And>x f rest. x \<in> set xs \<Longrightarrow> stops rest \<Longrightarrow> length (dumps x) < f \<Longrightarrow> scan_value f (dumps x @ rest) = Some (x, rest)"
    and "\<And>x. x \<in> set xs \<Longrightarrow> wf_json x"
    and "xs \<noteq> []" and "length (commas (map dumps xs)) + 1 < fuel"
  shows "scan_items fuel (commas (map dumps xs) @ 93 # rest) = Some (xs, rest)"
  using assms
proof (induction xs arbitrary: fuel)
  case (Cons x xs)
  then obtain f where fuel: "fuel = Suc f" by (cases fuel) auto
  show ?case
  proof (cases "xs = []")
    case True
    then show ?thesis
      using Cons.prems(1) [of x "93 # rest" f] Cons.prems(4) fuel by (simp add: stops_def is_ws_def)
  next
    case False
    then have c: "commas (map dumps (x # xs)) = dumps x @ [44, 32] @ commas (map dumps xs)"
      by (simp add: commas_Cons)
    obtain y ys where xs: "xs = y # ys" using False by (cases xs) auto
    obtain d ds where "dumps y = d # ds" "\<not> is_ws d" using dumps_start [of y] Cons.prems(2) xs by auto
    then have ws: "skip_ws (32 # commas (map dumps xs) @ 93 # rest) = commas (map dumps xs) @ 93 # rest"
      by (cases ys) (simp_all add: xs is_ws_def)
    have v: "scan_value f (dumps x @ 44 # 32 # commas (map dumps xs) @ 93 # rest)
        = Some (x, 44 # 32 # commas (map dumps xs) @ 93 # rest)"
      using Cons.prems(1) [of x _ f] Cons.prems(4) fuel c by (simp add: stops_def)
    have "scan_items f (commas (map dumps xs) @ 93 # rest) = Some (xs, rest)"
      using Cons.IH [of f] Cons.prems False fuel c by simp
    with v ws show ?thesis unfolding fuel c by (simp add: is_ws_def [of 44])
  qed
qed simp

definition member_text :: "utext \<times> json \<Rightarrow> utext" where
  "member_text kv = (case kv of (k, v) \<Rightarrow> str_text k @ [58, 32] @ dumps v)"

lemma scan_members_roundtrip:
  assumes "\<And>k v f rest. (k, v) \<in> set kvs \<Longrightarrow> stops rest \<Longrightarrow> length (dumps v) < f \<Longrightarrow> scan_value f (dumps v @ rest) = Some (v, rest)"
    and "\<forall>(k, v) \<in> set kvs. wf_json v"
    and "kvs \<noteq> []" and "distinct (map fst (acc @ kvs))" and "length (commas (map member_text kvs)) + 1 < fuel"
  shows "scan_members fuel acc (commas (map member_text kvs) @ 125 # rest) = Some (acc @ kvs, rest)"
  using assms
proof (induction kvs arbitrary: fuel acc)
  case (Cons kv kvs)
  obtain k v where kv: "kv = (k, v)" by force
  obtain f where fuel: "fuel = Suc f" using Cons.prems(5) by (cases fuel) auto
  have "k \<notin> fst ` set acc" using Cons.prems(4) kv by auto
  then have upd: "AList.update k v acc = acc @ [(k, v)]"
    by (induction acc) auto
  obtain d ds where dv: "dumps v = d # ds" "\<not> is_ws d" using dumps_start [of v] Cons.prems(2) kv by auto
  have key: "scan_string (concat (map escape_cp k) @ 34 # t) = Some (k, t)" for t by (rule scan_string_text)
  have len: "length (dumps v) < f" if "length (member_text kv) + 1 < fuel"
    using that fuel by (simp add: member_text_def kv str_text_def)
  show ?case
  proof (cases "kvs = []")
    case True
    have "scan_value f (dumps v @ 125 # rest) = Some (v, 125 # rest)"
      using Cons.prems(1,5) kv len True by (simp add: stops_def)
    then show ?thesis
      using True fuel dv upd key by (simp add: kv member_text_def str_text_def is_ws_def)
  next
    case False
    then have c: "commas (map member_text (kv # kvs)) = member_text kv @ [44, 32] @ commas (map member_text kvs)"
      by (simp add: commas_Cons)
    obtain k' v' ys where xs: "kvs = (k', v') # ys" using False by (cases kvs) auto
    have ws: "skip_ws (32 # commas (map member_text kvs) @ 125 # rest) = commas (map member_text kvs) @ 125 # rest"
      by (cases ys) (simp_all add: xs is_ws_def member_text_def str_text_def)
    have "scan_value f (dumps v @ 44 # 32 # commas (map member_text kvs) @ 125 # rest)
        = Some (v, 44 # 32 # commas (map member_text kvs) @ 125 # rest)"
      using Cons.prems(1) [of k v "44 # 32 # commas (map member_text kvs) @ 125 # rest" f] Cons.prems(5) kv len c
      by (simp add: stops_def)
    moreover have "scan_members f (acc @ [(k, v)]) (commas (map member_text kvs) @ 125 # rest) = Some ((acc @ [(k, v)]) @ kvs, rest)"
      using Cons.prems False fuel c kv by (intro Cons.IH) auto
    ultimately show ?thesis
      using ws fuel dv upd key unfolding c by (simp add: kv member_text_def str_text_def is_ws_def)
  qed
qed simp

lemma scan_value_roundtrip:
  "wf_json v \<Longrightarrow> stops rest \<Longrightarrow> length (dumps v) < fuel \<Longrightarrow> scan_value fuel (dumps v @ rest) = Some (v, rest)"
proof (induction v arbitrary: rest fuel)
  case JNull
  then obtain f where "fuel = Suc f" by (cases fuel) auto
  with JNull show ?case using scan_constant [of rest "cps ''null''" JNull f] by (simp add: json_constants_def)
next
  case (JBool b)
  then obtain f where "fuel = Suc f" by (cases fuel) auto
  with JBool show ?case
    using scan_constant [of rest "cps ''true''" "JBool True" f] scan_constant [of rest "cps ''false''" "JBool False" f]
    by (cases b) (simp_all add: json_constants_def)
next
  case (JInt i)
  then obtain f where f: "fuel = Suc f" by (cases fuel) auto
  obtain c cs where e: "int_text i @ rest = c # cs"
    and h: "is_digit_cp c \<or> (c = 45 \<and> (\<exists>d ds. cs = d # ds \<and> is_digit_cp d))"
    using int_text_start [of i rest] by blast
  have "scan_number (c # cs) = Some (JInt i, rest)" using scan_int_text [OF JInt(2), of i] unfolding e .
  then show ?case unfolding f dumps.simps e no_constant [OF h] .
next
  case (JFloat r)
  then obtain f where f: "fuel = Suc f" by (cases fuel) auto
  show ?case
  proof (cases "r \<in> {cps ''NaN'', cps ''Infinity'', cps ''-Infinity''}")
    case True
    with JFloat f show ?thesis
      using scan_constant [of rest r "JFloat r" f] by (auto simp: json_constants_def)
  next
    case False
    with JFloat have n: "scan_number r = Some (JFloat r, [])" by simp
    obtain c cs where e: "r @ rest = c # cs"
      and h: "is_digit_cp c \<or> (c = 45 \<and> (\<exists>d ds. cs = d # ds \<and> is_digit_cp d))"
      using float_text_start [OF n, of rest] by blast
    have "scan_number (c # cs) = Some (JFloat r, rest)" using scan_number_append [OF JFloat(2) n] unfolding e .
    then show ?thesis unfolding f dumps.simps e no_constant [OF h] .
  qed
next
  case (JStr s)
  then obtain f where "fuel = Suc f" by (cases fuel) auto
  then show ?case by (simp add: str_text_def scan_string_text)
next
  case (JList xs)
  then obtain f where f: "fuel = Suc f" by (cases fuel) auto
  show ?case
  proof (cases xs)
    case Nil
    with f show ?thesis by (simp add: has_prefix_def is_ws_def)
  next
    case (Cons y ys)
    obtain d ds where d: "dumps y = d # ds" "\<not> is_ws d" "d \<noteq> 93" using dumps_start [of y] JList.prems(1) Cons by auto
    have h: "\<exists>t. commas (map dumps xs) @ 93 # rest = d # t" using d(1) Cons by (cases ys) auto
    have "scan_items f (commas (map dumps xs) @ 93 # rest) = Some (xs, rest)"
      using JList Cons f by (intro scan_items_roundtrip) auto
    with h d(2,3) f show ?thesis by (auto simp: has_prefix_def)
  qed
next
  case (JDict kvs)
  then obtain f where f: "fuel = Suc f" by (cases fuel) auto
  have m: "dumps (JDict kvs) = 123 # commas (map member_text kvs) @ [125]"
    unfolding dumps.simps member_text_def ..
  show ?case
  proof (cases kvs)
    case Nil
    with f show ?thesis by (simp add: has_prefix_def is_ws_def)
  next
    case (Cons y ys)
    have h: "\<exists>t. commas (map member_text kvs) @ 125 # rest = 34 # t"
      using Cons by (cases ys; cases y) (auto simp: member_text_def str_text_def)
    have len: "length (commas (map member_text kvs)) + 1 < f" using JDict.prems(3) f unfolding m by simp
    have "scan_members f [] (commas (map member_text kvs) @ 125 # rest) = Some ([] @ kvs, rest)"
    proof (rule scan_members_roundtrip)
      show "scan_value g (dumps v @ rest') = Some (v, rest')"
        if "(k, v) \<in> set kvs" "stops rest'" "length (dumps v) < g" for k v g rest'
        using JDict.IH [of "(k, v)" v rest' g] JDict.prems(1) that by auto
    qed (use JDict.prems(1) Cons len in auto)
    with h f show ?thesis unfolding m by (auto simp: has_prefix_def is_ws_def)
  qed
qed

lemma loads_dumps_wf:
  assumes "wf_json v"
  shows "loads (dumps v) = Inr v"
proof -
  obtain c cs where c: "dumps v = c # cs" "\<not> is_ws c" using dumps_start [OF assms] by blast
  have "\<not> has_prefix [0xFEFF] (dumps v)"
  proof
    assume p: "has_prefix [0xFEFF] (dumps v)"
    show False
    proof (cases v)
      case (JInt i)
      with p int_text_start [of i "[]"] show False by (auto simp: has_prefix_def is_digit_cp_def)
    next
      case (JFloat r)
      with p assms float_text_start [of r _ _ "[]"] show False
        by (auto simp: has_prefix_def is_digit_cp_def cps_def)
    qed (use p in \<open>auto simp: has_prefix_def cps_def str_text_def split: if_splits\<close>)
  qed
  moreover have "scan_value (Suc (length (dumps v))) (dumps v @ []) = Some (v, [])"
    by (rule scan_value_roundtrip [OF assms]) (simp_all add: stops_def)
  ultimately show ?thesis using c by (simp add: loads_def del: scan_value.simps)
qed

section \<open>What is read is a well-formed value\<close>

lemma takeWhile_idem [simp]: "takeWhile P (takeWhile P xs) = takeWhile P xs"
  by (simp add: takeWhile_eq_all_conv)

lemma digits_stop:
  assumes "c = [] \<or> \<not> is_digit_cp (hd c)"
  shows "takeWhile is_digit_cp (takeWhile is_digit_cp t @ c) = takeWhile is_digit_cp t"
proof -
  have "takeWhile is_digit_cp c = []" using assms by (cases c) auto
  then show ?thesis using set_takeWhileD [of _ is_digit_cp t] by (subst takeWhile_append2) auto
qed

lemma digit_run_again:
  assumes "s = [] \<or> \<not> is_digit_cp (hd s)" and "digit_run t \<noteq> []"
  shows "digit_run (digit_run t @ s) = digit_run t"
proof (cases "t \<noteq> [] \<and> hd t = 48")
  case False
  then have d: "digit_run t = takeWhile is_digit_cp t" by (auto simp: digit_run_def)
  with assms(2) have "hd (takeWhile is_digit_cp t) = hd t" by (cases t) (auto split: if_splits)
  moreover have "t \<noteq> []" using assms(2) d by auto
  ultimately show ?thesis using False assms digits_stop [OF assms(1), of t] d by (simp add: digit_run_def)
qed (simp add: digit_run_def)

lemma scan_frac_again:
  assumes "s = [] \<or> hd s = 101 \<or> hd s = 69"
  shows "scan_frac (scan_frac t @ s) = scan_frac t"
proof (cases "scan_frac t = []")
  case True
  then show ?thesis using assms by (cases s) (auto simp: scan_frac_def)
next
  case False
  then obtain cs where "t = 46 # cs" "takeWhile is_digit_cp cs \<noteq> []" by (auto simp: scan_frac_def split: list.splits if_splits)
  moreover from this have "takeWhile is_digit_cp (takeWhile is_digit_cp cs @ s) = takeWhile is_digit_cp cs"
    using assms by (intro digits_stop) (auto simp: is_digit_cp_def)
  ultimately show ?thesis by (simp add: scan_frac_def)
qed

lemma scan_exp_again: "scan_exp (scan_exp t) = scan_exp t"
proof (cases "scan_exp t = []")
  case False
  then obtain c cs where t: "t = c # cs" "c = 101 \<or> c = 69" by (auto simp: scan_exp_def split: list.splits if_splits)
  obtain sign ds where sg: "sign = [] \<or> sign = [43] \<or> sign = [45]" and d: "takeWhile is_digit_cp ds = ds" "ds \<noteq> []"
    and e: "scan_exp t = c # sign @ ds"
  proof (rule that [of "if cs \<noteq> [] \<and> (hd cs = 43 \<or> hd cs = 45) then [hd cs] else []"
      "takeWhile is_digit_cp (drop (length (if cs \<noteq> [] \<and> (hd cs = 43 \<or> hd cs = 45) then [hd cs] else [])) cs)"])
  qed (use False t in \<open>auto simp: scan_exp_def Let_def split: if_splits\<close>)
  have "is_digit_cp (hd ds)" using d set_takeWhileD [of "hd ds" is_digit_cp ds] hd_in_set [OF d(2)] by simp
  then have "hd ds \<noteq> 43 \<and> hd ds \<noteq> 45" by (auto simp: is_digit_cp_def)
  then show ?thesis unfolding e using t(2) sg by (auto simp: scan_exp_def Let_def d simp del: takeWhile_eq_all_conv)
qed (simp add: scan_exp_def)

lemma scan_exp_head: "scan_exp t = [] \<or> hd (scan_exp t) = 101 \<or> hd (scan_exp t) = 69"
  by (cases t) (auto simp: scan_exp_def Let_def)

lemma scan_frac_head: "scan_frac t = [] \<or> hd (scan_frac t) = 46"
  by (cases t) (auto simp: scan_frac_def)

lemma scan_unsigned_again:
  assumes "scan_unsigned neg t = Some (JFloat x, r)"
  obtains y where "x = (if neg then [45] else []) @ y" and "y \<noteq> []" and "is_digit_cp (hd y)"
    and "scan_unsigned neg y = Some (JFloat x, [])"
proof -
  obtain ds u v fr ex where ds: "ds = digit_run t" "ds \<noteq> []" and fr: "fr = scan_frac u" and ex: "ex = scan_exp v"
    and ne: "\<not> (fr = [] \<and> ex = [])" and x: "x = (if neg then [45] else []) @ ds @ fr @ ex"
  proof (rule that)
    show "x = (if neg then [45] else []) @ digit_run t @ scan_frac (drop (length (digit_run t)) t)
        @ scan_exp (drop (length (scan_frac (drop (length (digit_run t)) t))) (drop (length (digit_run t)) t))"
      using assms by (auto simp: scan_unsigned_def Let_def split: if_splits)
  qed (use assms in \<open>auto simp: scan_unsigned_def Let_def split: if_splits\<close>)
  have h: "fr @ ex = [] \<or> \<not> is_digit_cp (hd (fr @ ex))"
    using scan_frac_head [of u] scan_exp_head [of v] unfolding fr [symmetric] ex [symmetric]
    by (auto simp: is_digit_cp_def hd_append)
  have d: "digit_run (ds @ fr @ ex) = ds" using digit_run_again [OF h, of t] ds by simp
  have f: "scan_frac (fr @ ex) = fr" using scan_frac_again [OF scan_exp_head, of u v] fr ex by simp
  have e: "scan_exp ex = ex" by (simp add: ex scan_exp_again)
  have "scan_unsigned neg (ds @ fr @ ex) = Some (JFloat x, [])"
    unfolding scan_unsigned_def Let_def d using ds ne by (simp add: f e x)
  moreover have "is_digit_cp (hd (ds @ fr @ ex))"
    using ds(2) set_takeWhileD [of "hd ds" is_digit_cp t] hd_in_set [OF ds(2)]
    by (auto simp: ds(1) digit_run_def is_digit_cp_def split: if_splits)
  ultimately show thesis using that [of "ds @ fr @ ex"] x ds(2) by simp
qed

lemma scan_number_again:
  assumes "scan_number t = Some (v, r)"
  shows "wf_json v"
proof (cases v)
  case (JFloat x)
  obtain neg u where "scan_unsigned neg u = Some (JFloat x, r)"
    using assms JFloat by (cases t) (auto split: if_splits)
  from scan_unsigned_again [OF this] obtain y where y: "x = (if neg then [45] else []) @ y" "y \<noteq> []"
    "is_digit_cp (hd y)" "scan_unsigned neg y = Some (JFloat x, [])" by blast
  have "scan_number x = Some (JFloat x, [])"
    using y by (cases y; cases neg) (auto simp: is_digit_cp_def)
  then show ?thesis by (simp add: JFloat)
next
  case (JList xs)
  with assms show ?thesis by (cases t) (auto simp: scan_unsigned_def Let_def split: if_splits)
next
  case (JDict xs)
  with assms show ?thesis by (cases t) (auto simp: scan_unsigned_def Let_def split: if_splits)
qed simp_all

lemma json_constants_wf: "(w, v) \<in> set json_constants \<Longrightarrow> wf_json v"
  by (auto simp: json_constants_def)

lemma wf_update_member:
  "wf_json (JDict acc) \<Longrightarrow> wf_json v \<Longrightarrow> wf_json (JDict (AList.update k v acc))"
  using update_Some_unfold distinct_update by (induction acc) (auto simp: dom_update split: if_splits)

lemma scan_wf:
  "scan_value fuel t = Some (v, r) \<Longrightarrow> wf_json v"
  "scan_items fuel t = Some (xs, r) \<Longrightarrow> wf_json (JList xs)"
  "scan_members fuel acc t = Some (kvs, r) \<Longrightarrow> wf_json (JDict acc) \<Longrightarrow> wf_json (JDict kvs)"
proof (induction fuel t and fuel t and fuel acc t arbitrary: v r and xs r and kvs r
    rule: scan_value_scan_items_scan_members.induct)
  case (2 fuel t)
  from "2.prems" obtain c cs where t: "t = c # cs" by (cases t) auto
  consider "c = 34" | "c = 91" | "c = 123" | "c \<notin> {34, 91, 123}" by blast
  then show ?case
  proof cases
    case 4
    show ?thesis
    proof (cases "filter (\<lambda>(w, v). has_prefix w t) json_constants")
      case Nil
      then have "scan_number t = Some (v, r)" using "2.prems" 4 t by simp
      then show ?thesis by (rule scan_number_again)
    next
      case (Cons p ps)
      obtain w u where p: "p = (w, u)" by force
      have "(w, u) \<in> set json_constants" using Cons p by (metis filter_is_subset list.set_intros(1) subsetD)
      moreover have "v = u" using "2.prems" 4 t Cons p by simp
      ultimately show ?thesis using json_constants_wf by blast
    qed
  qed (use "2" t in \<open>auto simp: Let_def split: if_splits\<close>)
next
  case (4 fuel t)
  from "4.prems" obtain x r1 d ds where x: "scan_value fuel t = Some (x, r1)" and s: "skip_ws r1 = d # ds"
    and c: "d = 93 \<and> xs = [x] \<or> d \<noteq> 93 \<and> d = 44 \<and> (\<exists>ys. scan_items fuel (skip_ws ds) = Some (ys, r) \<and> xs = x # ys)"
    by (auto split: option.splits list.splits if_splits)
  have "wf_json x" by (rule "4.IH"(1) [OF x])
  with c "4.IH"(2) [OF x refl s] show ?case by auto
next
  case (6 fuel acc t)
  from "6.prems"(1) obtain q qs k r1 d ds x r2 e es where a: "t = q # qs" "q = 34" "scan_string qs = Some (k, r1)"
    "skip_ws r1 = d # ds" "d = 58" "scan_value fuel (skip_ws ds) = Some (x, r2)" "skip_ws r2 = e # es"
    and c: "e = 125 \<and> kvs = AList.update k x acc \<or> e \<noteq> 125 \<and> e = 44 \<and> scan_members fuel (AList.update k x acc) (skip_ws es) = Some (kvs, r)"
    by (auto split: option.splits list.splits if_splits)
  have "wf_json x" using "6.IH"(1) [OF a(1) _ a(3) refl a(4)] a by simp
  then have u: "wf_json (JDict (AList.update k x acc))" by (rule wf_update_member [OF "6.prems"(2)])
  from c show ?case
  proof
    assume "e = 125 \<and> kvs = AList.update k x acc"
    with u show ?thesis by blast
  next
    assume m: "e \<noteq> 125 \<and> e = 44 \<and> scan_members fuel (AList.update k x acc) (skip_ws es) = Some (kvs, r)"
    then show ?thesis using "6.IH"(2) [OF a(1) _ a(3) refl a(4) _ a(6) refl a(7)] a u by blast
  qed
qed simp_all

lemma loads_wf: "loads t = Inr v \<Longrightarrow> wf_json v"
  by (auto simp: loads_def simp del: scan_value.simps split: if_splits option.splits dest: scan_wf(1))

end
