(* ===== verification/Retrieval_Targets.thy ===== *)
theory Retrieval_Targets
  imports Namespace
begin

text \<open>
  The directories a search may look at, \<open>openviking/core/retrieval_targets.py\<close>: the defaults of a request
  context and the resolution of explicit target URIs under the actor-peer view. A single target string is the
  list of that string.
\<close>

datatype context_type = CT_MEMORY | CT_RESOURCE | CT_SKILL

record resolved_retrieval_targets =
  target_directories :: "string list"
  first_explicit_directory :: string

fun add_new :: "'a list \<Rightarrow> 'a list \<Rightarrow> 'a list" where
  "add_new acc [] = acc"
| "add_new acc (x # xs) = add_new (if x \<in> set acc then acc else acc @ [x]) xs"

definition dedupe_list :: "string list \<Rightarrow> string list" where
  "dedupe_list items = add_new [] items"

definition default_skill_targets :: "request_context \<Rightarrow> string list" where
  "default_skill_targets ctx = [canonical_user_root ctx @ ''/skills'']"

definition default_agent_skill_targets :: "string list" where
  "default_agent_skill_targets = [''viking://agent/skills'']"

abbreviation actor_peer_root :: "request_context \<Rightarrow> string" where
  "actor_peer_root ctx \<equiv> canonical_user_root ctx @ ''/peers/'' @ the (rc_actor_peer_id ctx)"

definition actor_peer_targets :: "request_context \<Rightarrow> string list" where
  "actor_peer_targets ctx =
     (if \<not> truthy_str (rc_actor_peer_id ctx) then []
      else [actor_peer_root ctx @ ''/memories'', actor_peer_root ctx @ ''/resources''])"

definition default_user_root_targets :: "request_context \<Rightarrow> string list" where
  "default_user_root_targets ctx =
     (let user_root = canonical_user_root ctx
      in if \<not> truthy_str (rc_actor_peer_id ctx) then [user_root]
         else dedupe_list ([user_root @ ''/memories'', user_root @ ''/resources'']
                @ default_skill_targets ctx @ actor_peer_targets ctx))"

definition default_target_directories :: "request_context option \<Rightarrow> context_type option \<Rightarrow> string list" where
  "default_target_directories ctx_opt context_type =
     (case ctx_opt of
        None \<Rightarrow> []
      | Some ctx \<Rightarrow>
          if rc_role ctx = ROOT then []
          else
            let user_root = canonical_user_root ctx; peer = truthy_str (rc_actor_peer_id ctx)
            in case context_type of
              Some CT_MEMORY \<Rightarrow>
                (if peer then dedupe_list [user_root @ ''/memories'', actor_peer_root ctx @ ''/memories'']
                 else [user_root])
            | Some CT_RESOURCE \<Rightarrow>
                (if peer then dedupe_list [''viking://resources'', user_root @ ''/resources'',
                                           actor_peer_root ctx @ ''/resources'']
                 else [''viking://resources'', user_root])
            | Some CT_SKILL \<Rightarrow> dedupe_list (default_skill_targets ctx @ default_agent_skill_targets)
            | None \<Rightarrow>
                (if peer then dedupe_list (''viking://resources'' # default_user_root_targets ctx)
                 else [user_root, ''viking://resources'']))"

definition dedupe_target_uris :: "string list \<Rightarrow> string list" where
  "dedupe_target_uris target_uri =
     add_new [] (filter (\<lambda>item. item \<noteq> [] \<and> item \<noteq> ''/'' \<and> item \<noteq> ''viking://'') target_uri)"

definition is_agent_scope_uri :: "string \<Rightarrow> bool" where
  "is_agent_scope_uri target_uri =
     (let parts = split_on (CHR ''/'') (strip_by is_slash (drop (length ''viking://'') target_uri))
      in parts ! 0 = ''agent'' \<and> 2 \<le> length parts
         \<and> parts ! 1 \<in> {''skills'', ''endpoints'', ''tools'', ''payments''})"

definition is_current_user_root :: "string \<Rightarrow> request_context \<Rightarrow> bool" where
  "is_current_user_root target_uri ctx =
     (rstrip_by is_slash target_uri = rstrip_by is_slash (canonical_user_root ctx))"

definition is_default_user_content_root :: "string \<Rightarrow> request_context \<Rightarrow> string \<Rightarrow> bool" where
  "is_default_user_content_root target_uri ctx segment =
     (rstrip_by is_slash target_uri = rstrip_by is_slash (canonical_user_root ctx) @ ''/'' @ segment)"

definition normalize_target_peer_id :: "string \<Rightarrow> string option res" where
  "normalize_target_peer_id peer_id =
     (case normalize_peer_id (Some peer_id) of
        Inl e \<Rightarrow> if is_value_error e then Inl InvalidArgumentError else Inl e
      | Inr p \<Rightarrow> Inr p)"

text \<open>The text of an optional identifier in a format string: \<open>None\<close> prints as that word.\<close>

definition format_opt :: "string option \<Rightarrow> string" where
  "format_opt p = (case p of None \<Rightarrow> ''None'' | Some s \<Rightarrow> s)"

definition resolve_peer_target :: "string \<Rightarrow> request_context \<Rightarrow> string list option res" where
  "resolve_peer_target target_uri ctx =
     bind_res (uri_parts target_uri) (\<lambda>parts.
     bind_res (uri_parts (canonical_user_root ctx)) (\<lambda>user_root_parts.
       if take (length user_root_parts) parts \<noteq> user_root_parts then Inr None
       else
         let suffix = drop (length user_root_parts) parts
         in if suffix = [] \<or> suffix ! 0 \<noteq> ''peers'' then Inr None
            else if length suffix = 1 then
              Inr (Some (if truthy_str (rc_actor_peer_id ctx) then actor_peer_targets ctx else [target_uri]))
            else
              bind_res (normalize_target_peer_id (suffix ! 1)) (\<lambda>target_peer_id.
              bind_res (is_hidden_by_actor_peer_view target_uri ctx) (\<lambda>hidden.
                if hidden then Inl PermissionDeniedError
                else
                  let peer_root = canonical_user_root ctx @ ''/peers/'' @ format_opt target_peer_id
                  in if length suffix = 2 then
                       Inr (Some [peer_root @ ''/memories'', peer_root @ ''/resources''])
                     else if suffix ! 2 \<notin> {''memories'', ''resources''} then Inl InvalidArgumentError
                     else Inr (Some [target_uri])))))"

definition target_directories_for_uri :: "string \<Rightarrow> request_context \<Rightarrow> string list res" where
  "target_directories_for_uri target_uri ctx =
     (if is_current_user_root target_uri ctx then Inr (default_user_root_targets ctx)
      else if is_agent_scope_uri target_uri then Inr [target_uri]
      else bind_res (resolve_peer_target target_uri ctx) (\<lambda>peer_target.
        case peer_target of
          Some ts \<Rightarrow> Inr ts
        | None \<Rightarrow>
            if list_ex (is_default_user_content_root target_uri ctx) [''memories'', ''resources'', ''skills'']
            then Inr [target_uri] else Inr [target_uri]))"

fun collect_targets :: "request_context \<Rightarrow> string list \<Rightarrow> string list \<Rightarrow> string list res" where
  "collect_targets ctx acc [] = Inr acc"
| "collect_targets ctx acc (t # ts) =
     bind_res (target_directories_for_uri t ctx) (\<lambda>dirs. collect_targets ctx (add_new acc dirs) ts)"

definition resolve_retrieval_targets ::
  "string list \<Rightarrow> request_context \<Rightarrow> resolved_retrieval_targets res" where
  "resolve_retrieval_targets target_uri ctx =
     (let target_uris = dedupe_target_uris target_uri
      in if target_uris = [] then
           Inr \<lparr>target_directories = default_target_directories (Some ctx) None, first_explicit_directory = []\<rparr>
         else
           bind_res (collect_targets ctx [] target_uris) (\<lambda>dirs.
             Inr \<lparr>target_directories = dirs,
                  first_explicit_directory = (if dirs = [] then [] else hd dirs)\<rparr>))"

section \<open>Lemmas\<close>

lemma set_add_new [simp]: "set (add_new acc xs) = set acc \<union> set xs"
  by (induction acc xs rule: add_new.induct) auto

lemma distinct_add_new: "distinct acc \<Longrightarrow> distinct (add_new acc xs)"
  by (induction acc xs rule: add_new.induct) auto

lemma set_dedupe_list [simp]: "set (dedupe_list xs) = set xs"
  by (simp add: dedupe_list_def)

section \<open>Targets and the actor-peer view\<close>

abbreviation hidden_target :: "request_context \<Rightarrow> string \<Rightarrow> bool" where
  "hidden_target ctx t \<equiv> is_hidden_by_actor_peer_view t ctx = Inr True"

lemma hidden_target_parts:
  assumes "hidden_target ctx t"
  obtains q rest where "uri_parts t = Inr ([''user'', ui_user_id (rc_user ctx), ''peers'', q] @ rest)"
    and "Some q \<noteq> rc_actor_peer_id ctx"
proof -
  from assms obtain sfx where sfx: "actor_peer_view_user_suffix t ctx = Inr (Some sfx)" "2 \<le> length sfx"
    "sfx ! 0 = ''peers''" "Some (sfx ! 1) \<noteq> rc_actor_peer_id ctx"
    by (auto simp: is_hidden_by_actor_peer_view_def map_sum_def split: sum.splits option.splits)
  then obtain parts where p: "uri_parts t = Inr parts" "take 2 parts = [''user'', ui_user_id (rc_user ctx)]" "sfx = drop 2 parts"
    by (auto simp: actor_peer_view_user_suffix_def Let_def bind_res_Inr_iff numeral_2_eq_2 split: if_splits sum.splits)
  obtain a b rest where s: "sfx = a # b # rest" using sfx(2) by (cases sfx; cases "tl sfx") auto
  have "parts = take 2 parts @ sfx" using p(3) by simp
  then have "parts = [''user'', ui_user_id (rc_user ctx), ''peers'', b] @ rest" using p(2) s sfx(3) by simp
  then show ?thesis using that p(1) s sfx(4) by simp
qed

text \<open>A directory of the caller itself is visible unless it lies under another peer.\<close>

lemma own_target_visible:
  assumes "validate_user_id (ui_user_id (rc_user ctx)) = None"
    and "ps \<noteq> []" and "\<forall>p \<in> set ps. clean_segment p"
    and "ps ! 0 \<noteq> ''peers'' \<or> Some (ps ! 1) = rc_actor_peer_id ctx"
  shows "\<not> hidden_target ctx (canonical_user_root ctx @ ''/'' @ join_with ''/'' ps)"
proof
  assume h: "hidden_target ctx (canonical_user_root ctx @ ''/'' @ join_with ''/'' ps)"
  have "uri_parts (canonical_user_root ctx @ ''/'' @ join_with ''/'' ps) = Inr ([''user'', ui_user_id (rc_user ctx)] @ ps)"
    unfolding user_root_append [OF assms(2)]
    by (rule uri_parts_user_join) (use assms in \<open>auto intro: valid_user_clean\<close>)
  with h assms(4) show False by (auto elim!: hidden_target_parts)
qed

lemma peer_clean:
  assumes "normalize_peer_id (Some p) = Inr (Some q)"
  shows "clean_segment q" and "q = py_strip p" and "truthy_str (Some q)"
proof -
  have q: "q = py_strip p" "q \<noteq> []" "validate_identifier_part q ''peer_id'' = None"
    using assms by (auto simp: normalize_peer_id_def normalize_identifier_part_def Let_def
        split: option.splits if_splits sum.splits)
  then show "clean_segment q" "q = py_strip p" "truthy_str (Some q)"
    using validate_part_clean [OF q(3)] by (auto simp: clean_segment_def truthy_str_def)
qed

lemma default_targets_visible:
  assumes "validate_user_id (ui_user_id (rc_user ctx)) = None"
    and "rc_actor_peer_id ctx = Some p" and "clean_segment p"
    and "t \<in> set (default_user_root_targets ctx) \<or> t \<in> set (actor_peer_targets ctx)"
  shows "\<not> hidden_target ctx t"
proof -
  define dir where "dir ps = canonical_user_root ctx @ ''/'' @ join_with ''/'' ps" for ps
  have dirs: "canonical_user_root ctx @ ''/memories'' = dir [''memories'']"
    "canonical_user_root ctx @ ''/resources'' = dir [''resources'']"
    "canonical_user_root ctx @ ''/skills'' = dir [''skills'']"
    "actor_peer_root ctx @ ''/memories'' = dir [''peers'', p, ''memories'']"
    "actor_peer_root ctx @ ''/resources'' = dir [''peers'', p, ''resources'']"
    using assms(2) by (simp_all add: dir_def)
  have tr: "truthy_str (rc_actor_peer_id ctx)" using assms(2,3) by (auto simp: truthy_str_def clean_segment_def)
  have sets: "set (actor_peer_targets ctx) = {dir [''peers'', p, ''memories''], dir [''peers'', p, ''resources'']}"
    "set (default_user_root_targets ctx) =
       {dir [''memories''], dir [''resources''], dir [''skills'']} \<union> set (actor_peer_targets ctx)"
    using tr unfolding default_user_root_targets_def actor_peer_targets_def default_skill_targets_def Let_def
    by (simp_all only: dirs set_dedupe_list set_append list.set if_False not_True_eq_False) auto
  have vis: "\<not> hidden_target ctx (dir ps)"
    if "ps \<in> {[''memories''], [''resources''], [''skills''], [''peers'', p, ''memories''], [''peers'', p, ''resources'']}" for ps
    unfolding dir_def using that assms(2,3)
    by (intro own_target_visible [OF assms(1)]) (auto simp: clean_segment_def)
  from assms(4) show ?thesis unfolding sets using vis by blast
qed

text \<open>An agent URI never lies in a user's directory.\<close>

lemma strip_by_decomp: "\<exists>l r. s = l @ strip_by P s @ r \<and> (\<forall>c \<in> set l. P c)"
proof -
  obtain r where "dropWhile P s = rstrip_by P (dropWhile P s) @ r" using rstrip_by_decomp by blast
  then have "s = takeWhile P s @ strip_by P s @ r"
    unfolding strip_by_def lstrip_by_def by (metis takeWhile_dropWhile_id)
  then show ?thesis by (meson set_takeWhileD)
qed

lemma path_segments_lslashes: "\<forall>c \<in> set l. is_slash c \<Longrightarrow> path_segments (l @ s) = path_segments s"
  by (induction l) (auto simp: path_segments_def)

lemma agent_scope_not_hidden:
  assumes "is_agent_scope_uri t"
  shows "\<not> hidden_target ctx t"
proof
  assume "hidden_target ctx t"
  then obtain q rest where p: "uri_parts t = Inr ([''user'', ui_user_id (rc_user ctx), ''peers'', q] @ rest)"
    by (elim hidden_target_parts)
  then have "startswith t ''viking://''" using uri_parts_error by fastforce
  then obtain path where t: "t = ''viking://'' @ path" by (auto simp: startswith_iff)
  let ?s = "strip_by is_slash path"
  have "split_on (CHR ''/'') ?s ! 0 = ''agent''" "2 \<le> length (split_on (CHR ''/'') ?s)"
    using assms by (auto simp: is_agent_scope_uri_def Let_def t)
  then obtain x xs where sp: "split_on (CHR ''/'') ?s = ''agent'' # x # xs"
    by (cases "split_on (CHR ''/'') ?s"; cases "tl (split_on (CHR ''/'') ?s)") auto
  have "?s = ''agent'' @ CHR ''/'' # join_with ''/'' (x # xs)"
    using join_with_split_on [of "CHR ''/''" ?s] sp by simp
  then obtain l y where l: "path = l @ (''agent/'' @ y)" "\<forall>c \<in> set l. is_slash c"
    using strip_by_decomp [of path is_slash] by auto
  have "CHR ''?'' \<notin> set (l @ ''agent/'')" using l(2) by auto
  then have "hd (split_on (CHR ''?'') path) = l @ ''agent/'' @ hd (split_on (CHR ''?'') y)"
    using hd_split_prefix [of "CHR ''?''" "l @ ''agent/''" y] l(1) by simp
  then have "uri_parts t = Inr (path_segments (''agent'' @ CHR ''/'' # hd (split_on (CHR ''?'') y)))"
    using path_segments_lslashes [OF l(2)] by (simp add: t uri_parts_path_simp)
  moreover have "CHR ''/'' \<notin> set ''agent''" by simp
  ultimately have "uri_parts t = Inr (''agent'' # path_segments (hd (split_on (CHR ''?'') y)))"
    by (simp only: path_segments_def split_on_append_sep) simp
  with p show False by simp
qed

lemma user_root_uri_parts:
  "validate_user_id (ui_user_id (rc_user ctx)) = None \<Longrightarrow>
     uri_parts (canonical_user_root ctx) = Inr [''user'', ui_user_id (rc_user ctx)]"
  unfolding user_root_join by (rule uri_parts_join) (auto simp: clean_segment_def dest: valid_user_clean)

definition blank_peer_target :: "string \<Rightarrow> bool" where
  "blank_peer_target t =
     (case uri_parts t of Inl _ \<Rightarrow> False
      | Inr parts \<Rightarrow> length parts = 4 \<and> parts ! 2 = ''peers'' \<and> py_strip (parts ! 3) = [])"

lemma peer_target_cases:
  assumes "validate_user_id (ui_user_id (rc_user ctx)) = None"
    and "resolve_peer_target t ctx = Inr (Some ts)"
  obtains (all) "truthy_str (rc_actor_peer_id ctx)" and "ts = actor_peer_targets ctx"
    | (self) "\<not> truthy_str (rc_actor_peer_id ctx) \<or> is_hidden_by_actor_peer_view t ctx = Inr False" and "ts = [t]"
    | (root) q pid where "uri_parts t = Inr ([''user'', ui_user_id (rc_user ctx), ''peers''] @ [q])"
        and "normalize_target_peer_id q = Inr pid" and "is_hidden_by_actor_peer_view t ctx = Inr False"
        and "ts = [canonical_user_root ctx @ ''/peers/'' @ format_opt pid @ ''/memories'',
                   canonical_user_root ctx @ ''/peers/'' @ format_opt pid @ ''/resources'']"
proof -
  let ?u = "[''user'', ui_user_id (rc_user ctx)]"
  obtain parts where parts: "uri_parts t = Inr parts"
    using assms(2) by (auto simp: resolve_peer_target_def bind_res_Inr_iff)
  have two: "length ?u = 2" by simp
  note r0 = assms(2) [unfolded resolve_peer_target_def parts user_root_uri_parts [OF assms(1)] bind_res.simps Let_def two]
  have nA: "\<not> take 2 parts \<noteq> ?u"
  proof
    assume "take 2 parts \<noteq> ?u"
    from r0 [unfolded if_P [OF this]] show False by simp
  qed
  obtain suffix where suffix: "drop 2 parts = suffix" by simp
  note r1 = r0 [unfolded if_not_P [OF nA] suffix]
  have nB: "\<not> (suffix = [] \<or> suffix ! 0 \<noteq> ''peers'')"
  proof
    assume "suffix = [] \<or> suffix ! 0 \<noteq> ''peers''"
    from r1 [unfolded if_P [OF this]] show False by simp
  qed
  note r = r1 [unfolded if_not_P [OF nB]]
  have pp: "parts = ?u @ drop 2 parts" using nA by (metis append_take_drop_id)
  have s: "suffix \<noteq> []" "suffix ! 0 = ''peers''" using nB by auto
  show thesis
  proof (cases "length suffix = 1")
    case True
    with r all self show ?thesis by (auto split: if_splits)
  next
    case False
    with r obtain pid where q: "normalize_target_peer_id (suffix ! 1) = Inr pid"
      and h: "is_hidden_by_actor_peer_view t ctx = Inr False"
      and ts: "ts = [t] \<or> (length suffix = 2
         \<and> ts = [canonical_user_root ctx @ ''/peers/'' @ format_opt pid @ ''/memories'',
                 canonical_user_root ctx @ ''/peers/'' @ format_opt pid @ ''/resources''])"
      by (auto simp: bind_res_Inr_iff split: if_splits)
    from ts show ?thesis
    proof
      assume "ts = [t]"
      with h self show ?thesis by blast
    next
      assume l: "length suffix = 2
         \<and> ts = [canonical_user_root ctx @ ''/peers/'' @ format_opt pid @ ''/memories'',
                 canonical_user_root ctx @ ''/peers/'' @ format_opt pid @ ''/resources'']"
      then obtain x y where "suffix = [x, y]" by (auto simp: length_Suc_conv numeral_2_eq_2)
      with s have sf: "suffix = [''peers'', suffix ! 1]" by simp
      then have "parts = [''user'', ui_user_id (rc_user ctx), ''peers''] @ [suffix ! 1]"
        using pp suffix by (metis append_Cons append_Nil)
      with root q h l parts show ?thesis by blast
    qed
  qed
qed

lemma peer_target_visible:
  assumes v: "validate_user_id (ui_user_id (rc_user ctx)) = None"
    and p: "rc_actor_peer_id ctx = Some p" "normalize_peer_id (Some p) = Inr (Some p)"
    and r: "resolve_peer_target t ctx = Inr (Some ts)" and nb: "\<not> blank_peer_target t" and d: "d \<in> set ts"
  shows "\<not> hidden_target ctx d"
  using v r
proof (cases rule: peer_target_cases)
  case all
  with d show ?thesis using default_targets_visible [OF v p(1) peer_clean(1) [OF p(2)]] by blast
next
  case self
  with d p(1) peer_clean(3) [OF p(2)] show ?thesis by auto
next
  case (root q pid)
  have "py_strip q \<noteq> []" using nb root(1) by (auto simp: blank_peer_target_def)
  with root(2) obtain q' where q': "pid = Some q'" "normalize_peer_id (Some q) = Inr (Some q')"
    by (auto simp: normalize_target_peer_id_def normalize_peer_id_def normalize_identifier_part_def Let_def
        split: sum.splits option.splits if_splits)
  have "require_peer_id_segment q = Inr ()" using q'(2) by (simp add: require_peer_id_segment_def)
  then have "resolve_uri t \<noteq> Inl NamespaceShapeError"
    using root(1) v by (cases "mk_viking_uri t")
      (auto simp: resolve_uri_def Let_def resolve_user_uri_def validate_peer_id_segments_def
        mk_viking_uri_def split: if_splits)
  then have "q = p"
    using root(1,3) p(1) peer_clean(3) [OF p(2)]
    by (auto simp: is_hidden_by_actor_peer_view_def actor_peer_view_user_suffix_def Let_def
        split: sum.splits if_splits)
  with q' p(2) have "pid = Some p" by simp
  then have "set ts = set (actor_peer_targets ctx)"
    using root(4) p(1) peer_clean(3) [OF p(2)] by (auto simp: actor_peer_targets_def format_opt_def)
  with d show ?thesis using default_targets_visible [OF v p(1) peer_clean(1) [OF p(2)]] by blast
qed

lemma peer_target_None_visible:
  assumes v: "validate_user_id (ui_user_id (rc_user ctx)) = None" and "resolve_peer_target t ctx = Inr None"
  shows "\<not> hidden_target ctx t"
proof
  assume "hidden_target ctx t"
  then obtain q rest where "uri_parts t = Inr ([''user'', ui_user_id (rc_user ctx), ''peers'', q] @ rest)"
    by (elim hidden_target_parts)
  with assms show False
    by (auto simp: resolve_peer_target_def user_root_uri_parts bind_res_Inr_iff Let_def split: if_splits)
qed

lemma directories_visible:
  assumes v: "validate_user_id (ui_user_id (rc_user ctx)) = None"
    and p: "rc_actor_peer_id ctx = Some p" "normalize_peer_id (Some p) = Inr (Some p)"
    and r: "target_directories_for_uri t ctx = Inr ts" and nb: "\<not> blank_peer_target t" and d: "d \<in> set ts"
  shows "\<not> hidden_target ctx d"
proof -
  consider "ts = default_user_root_targets ctx" | "ts = [t]" "is_agent_scope_uri t"
    | "resolve_peer_target t ctx = Inr (Some ts)" | "ts = [t]" "resolve_peer_target t ctx = Inr None"
  proof (cases "is_current_user_root t ctx \<or> is_agent_scope_uri t")
    case True
    with r that(1,2) show thesis
      unfolding target_directories_for_uri_def by (cases "is_current_user_root t ctx") simp_all
  next
    case False
    with r have "bind_res (resolve_peer_target t ctx) (\<lambda>x. case x of Some y \<Rightarrow> Inr y | None \<Rightarrow> Inr [t]) = Inr ts"
      unfolding target_directories_for_uri_def by (simp only: de_Morgan_disj if_False if_cancel)
    then obtain x where "resolve_peer_target t ctx = Inr x" "(case x of Some y \<Rightarrow> Inr y | None \<Rightarrow> Inr [t]) = (Inr ts :: exn + string list)"
      by (auto simp: bind_res_Inr_iff)
    with that(3,4) show thesis by (cases x) simp_all
  qed
  then show ?thesis
  proof cases
    case 1
    with d show ?thesis using default_targets_visible [OF v p(1) peer_clean(1) [OF p(2)]] by blast
  next
    case 2
    with d agent_scope_not_hidden show ?thesis by auto
  next
    case 3
    then show ?thesis using peer_target_visible [OF v p _ nb d] by blast
  next
    case 4
    with d peer_target_None_visible [OF v] show ?thesis by auto
  qed
qed

lemma collect_targets_mem:
  "collect_targets ctx acc us = Inr r \<Longrightarrow> d \<in> set r \<Longrightarrow>
     d \<in> set acc \<or> (\<exists>t \<in> set us. \<exists>ts. target_directories_for_uri t ctx = Inr ts \<and> d \<in> set ts)"
proof (induction us arbitrary: acc)
  case (Cons t us)
  then obtain ts where ts: "target_directories_for_uri t ctx = Inr ts" "collect_targets ctx (add_new acc ts) us = Inr r"
    by (auto simp: bind_res_Inr_iff)
  from Cons.IH [OF ts(2) Cons.prems(2)] show ?case using ts(1) by auto
qed simp

lemma resource_root_visible: "\<not> hidden_target ctx ''viking://resources''"
proof
  assume "hidden_target ctx ''viking://resources''"
  moreover have "uri_parts ''viking://resources'' = Inr [''resources'']" by code_simp
  ultimately show False by (auto elim!: hidden_target_parts)
qed

text \<open>C14: a search under an actor peer stays out of other peers. For a caller with a valid user identifier
  that acts as peer \<open>p\<close>, resolving any list of targets either fails or gives directories none of which the
  actor-peer view hides, provided no target names a peer with a blank identifier.\<close>

theorem retrieval_targets_respect_peer_view:
  assumes "validate_user_id (ui_user_id (rc_user ctx)) = None"
    and "rc_actor_peer_id ctx = Some p" and "normalize_peer_id (Some p) = Inr (Some p)"
    and "list_all (\<lambda>t. \<not> blank_peer_target t) targets"
    and "resolve_retrieval_targets targets ctx = Inr r"
    and "d \<in> set (target_directories r)"
  shows "is_hidden_by_actor_peer_view d ctx \<noteq> Inr True"
proof (cases "dedupe_target_uris targets = []")
  case True
  have "truthy_str (rc_actor_peer_id ctx)" using assms(2) peer_clean(3) [OF assms(3)] by simp
  with True assms(5,6) have "d = ''viking://resources'' \<or> d \<in> set (default_user_root_targets ctx)"
    by (auto simp: resolve_retrieval_targets_def default_target_directories_def Let_def split: if_splits)
  then show ?thesis
    using resource_root_visible default_targets_visible [OF assms(1,2) peer_clean(1) [OF assms(3)]] by blast
next
  case False
  with assms(5) have "collect_targets ctx [] (dedupe_target_uris targets) = Inr (target_directories r)"
    by (auto simp: resolve_retrieval_targets_def Let_def bind_res_Inr_iff)
  from collect_targets_mem [OF this assms(6)] obtain t ts where t: "t \<in> set (dedupe_target_uris targets)"
    "target_directories_for_uri t ctx = Inr ts" "d \<in> set ts" by auto
  moreover have "t \<in> set targets" using t(1) by (auto simp: dedupe_target_uris_def)
  ultimately show ?thesis
    using directories_visible [OF assms(1-3)] assms(4) by (auto simp: list_all_iff)
qed

definition peer_ctx :: request_context where
  "peer_ctx = \<lparr>rc_user = \<lparr>ui_account_id = ''acme'', ui_user_id = ''alice''\<rparr>, rc_role = USER,
     rc_actor_peer_id = Some ''bob'', rc_from_oauth = False, rc_api_key = None\<rparr>"

theorem retrieval_targets_respect_peer_view_witness:
  "is_hidden_by_actor_peer_view ''viking://user/alice/peers/bob/memories'' peer_ctx \<noteq> Inr True"
proof -
  have h: "validate_user_id (ui_user_id (rc_user peer_ctx)) = None" "rc_actor_peer_id peer_ctx = Some ''bob''"
    "normalize_peer_id (Some ''bob'') = Inr (Some ''bob'')" by code_simp+
  have b: "list_all (\<lambda>t. \<not> blank_peer_target t) [''viking://user/alice/peers'']" by code_simp
  have r: "resolve_retrieval_targets [''viking://user/alice/peers''] peer_ctx =
     Inr \<lparr>target_directories = [''viking://user/alice/peers/bob/memories'', ''viking://user/alice/peers/bob/resources''],
          first_explicit_directory = ''viking://user/alice/peers/bob/memories''\<rparr>" by code_simp
  show ?thesis by (rule retrieval_targets_respect_peer_view [OF h b r]) simp
qed

text \<open>a blank peer identifier leaves the view. The identifier of the target normalizes to none, which the
  access check takes for a malformed URI and the target resolution prints as the word None, so a caller
  acting as one peer is given the directories of the peer of that name.\<close>

lemma blank_peer_escapes_view:
  "(case resolve_retrieval_targets [''viking://user/alice/peers/ ''] peer_ctx of
      Inl _ \<Rightarrow> False
    | Inr r \<Rightarrow> target_directories r = [''viking://user/alice/peers/None/memories'', ''viking://user/alice/peers/None/resources'']
        \<and> is_hidden_by_actor_peer_view (hd (target_directories r)) peer_ctx = Inr True)"
  by code_simp

end
