(* ===== verification/Context_Params.thy ===== *)
theory Context_Params
  imports Py_Values
begin

text \<open>
  The request contract of context assembly,
  \<open>openviking/retrieve/context_assembler/params.py\<close>: categories, detail tiers, and the normalisation of quotas, penalties,
  exclusions and detail pins from dynamic request values.
\<close>

section \<open>Categories and tiers\<close>

definition MEMORY_CATEGORIES :: "string list" where
  "MEMORY_CATEGORIES = [''events'', ''entities'', ''preferences'', ''experiences'']"

definition OTHER_MEMORY_CATEGORY :: string where
  "OTHER_MEMORY_CATEGORY = ''memories''"

definition CATEGORY_KEYS :: "string list" where
  "CATEGORY_KEYS = MEMORY_CATEGORIES @ [''resources'', ''skills'']"

definition REPORTED_CATEGORY_KEYS :: "string list" where
  "REPORTED_CATEGORY_KEYS = CATEGORY_KEYS @ [OTHER_MEMORY_CATEGORY]"

datatype tier = TUri | TAbstract | TOverview | TFull

fun tier_name :: "tier \<Rightarrow> string" where
  "tier_name TUri = ''uri''"
| "tier_name TAbstract = ''abstract''"
| "tier_name TOverview = ''overview''"
| "tier_name TFull = ''full''"

definition TIER_ORDER :: "tier list" where
  "TIER_ORDER = [TUri, TAbstract, TOverview, TFull]"

fun TIER_RANK :: "tier \<Rightarrow> nat" where
  "TIER_RANK TUri = 0"
| "TIER_RANK TAbstract = 1"
| "TIER_RANK TOverview = 2"
| "TIER_RANK TFull = 3"

lemma TIER_RANK_inject [simp]: "TIER_RANK s = TIER_RANK t \<longleftrightarrow> s = t"
  by (cases s; cases t) auto

text \<open>Tiers are ordered by their rank.\<close>

instantiation tier :: linorder
begin

definition less_eq_tier :: "tier \<Rightarrow> tier \<Rightarrow> bool" where
  "s \<le> t \<longleftrightarrow> TIER_RANK s \<le> TIER_RANK t"

definition less_tier :: "tier \<Rightarrow> tier \<Rightarrow> bool" where
  "s < t \<longleftrightarrow> TIER_RANK s < TIER_RANK t"

instance
  by standard (auto simp: less_eq_tier_def less_tier_def)

end

lemma tier_name_inject [simp]: "tier_name s = tier_name t \<longleftrightarrow> s = t"
  by (cases s; cases t) auto

definition PINNABLE_TIERS :: "tier list" where
  "PINNABLE_TIERS = [TAbstract, TOverview, TFull]"

definition DEFAULT_MAX_TOKENS :: int where
  "DEFAULT_MAX_TOKENS = 1600"

definition DEFAULT_LIMIT :: int where
  "DEFAULT_LIMIT = 10"

definition MAX_EXCLUDE_URIS :: nat where
  "MAX_EXCLUDE_URIS = 200"

definition MAX_PLANNED_QUERIES :: nat where
  "MAX_PLANNED_QUERIES = 3"

definition OTHER_PEER_OVERFETCH :: int where
  "OTHER_PEER_OVERFETCH = 4"

definition ORIGIN_ORDER :: "string list" where
  "ORIGIN_ORDER = [''actor_peer'', ''self'', ''other_peer'']"

definition DEFAULT_TIER_BY_CATEGORY :: "(string \<times> tier) list" where
  "DEFAULT_TIER_BY_CATEGORY =
     [(''events'', TOverview), (''entities'', TAbstract), (''preferences'', TAbstract),
      (''experiences'', TAbstract), (''resources'', TAbstract), (''skills'', TAbstract),
      (OTHER_MEMORY_CATEGORY, TAbstract)]"

definition DEFAULT_TIER :: tier where
  "DEFAULT_TIER = TAbstract"

definition FULL_BODY_ABSTRACT_CATEGORIES :: "string list" where
  "FULL_BODY_ABSTRACT_CATEGORIES = MEMORY_CATEGORIES @ [OTHER_MEMORY_CATEGORY]"

definition DEPTH_CEILING_BY_CATEGORY :: "(string \<times> tier) list" where
  "DEPTH_CEILING_BY_CATEGORY = [(''events'', TFull)]"

definition PURPOSE_PRESETS :: "(string \<times> (string \<times> int) list) list" where
  "PURPOSE_PRESETS =
     [(''coding'', [(''events'', 1), (''entities'', 2), (''preferences'', 1), (''experiences'', 1),
                    (''resources'', 3), (''skills'', 2)]),
      (''chat'', [(''events'', 3), (''entities'', 3), (''preferences'', 1), (''experiences'', 1),
                  (''resources'', 1), (''skills'', 1)])]"

definition DEFAULT_QUOTAS :: "(string \<times> int) list" where
  "DEFAULT_QUOTAS = [(''events'', 10), (''entities'', 10), (''preferences'', 3), (''experiences'', 0)]"

definition DEFAULT_OTHER_PEER_PENALTIES :: "(string \<times> rat) list" where
  "DEFAULT_OTHER_PEER_PENALTIES =
     [(''events'', 1/10), (''entities'', 1/10), (''preferences'', 1/50), (''experiences'', 1/50),
      (''resources'', 1/50), (''skills'', 1/50), (OTHER_MEMORY_CATEGORY, 1/10)]"

section \<open>Quotas and penalties\<close>

text \<open>
  \<open>quotas\<close> is the mapping of the request, if any. A value that \<open>int\<close> rejects counts as 0; the overflow of an
  infinite float is not one of the exceptions the code catches.
\<close>

fun resolve_quotas :: "(string \<times> json) list \<Rightarrow> (string \<times> int) list \<Rightarrow> (string \<times> int) list res" where
  "resolve_quotas [] resolved = Inr resolved"
| "resolve_quotas ((key, v) # rest) resolved =
     (if key \<notin> set CATEGORY_KEYS then resolve_quotas rest resolved
      else bind_res (or_else (bind_res (py_int v) (\<lambda>i. Inr (max 0 i))) 0)
        (\<lambda>q. resolve_quotas rest (AList.update key q resolved)))"

definition normalize_quotas ::
  "(string \<times> json) list option \<Rightarrow> string option \<Rightarrow> (string \<times> int) list option res" where
  "normalize_quotas quotas purpose =
     (case quotas of
        None \<Rightarrow> Inr (case purpose of None \<Rightarrow> None | Some p \<Rightarrow> if p = [] then None else map_of PURPOSE_PRESETS p)
      | Some q \<Rightarrow> bind_res (resolve_quotas q []) (\<lambda>r. Inr (Some r)))"

text \<open>\<open>min(1.0, max(0.0, penalty))\<close>: \<open>max\<close> keeps its first argument against a NaN.\<close>

fun clamp_float :: "pyfloat \<Rightarrow> rat" where
  "clamp_float (Fin r) = min 1 (max 0 r)"
| "clamp_float PosInf = 1"
| "clamp_float NegInf = 0"
| "clamp_float Nan = 0"

definition clamp_penalty :: "json \<Rightarrow> rat \<Rightarrow> rat res" where
  "clamp_penalty v fallback =
     bind_res (or_else (py_float v) (Fin fallback)) (\<lambda>p. Inr (clamp_float p))"

fun merge_penalties :: "(string \<times> json) list \<Rightarrow> (string \<times> rat) list \<Rightarrow> (string \<times> rat) list res" where
  "merge_penalties [] merged = Inr merged"
| "merge_penalties ((key, v) # rest) merged =
     (if key \<notin> fst ` set DEFAULT_OTHER_PEER_PENALTIES then merge_penalties rest merged
      else bind_res (clamp_penalty v (the (map_of merged key)))
        (\<lambda>p. merge_penalties rest (AList.update key p merged)))"

text \<open>The penalty field of a request: absent, a mapping, or a single value.\<close>

datatype penalty_request = PenaltyNone | PenaltyMap "(string \<times> json) list" | PenaltyValue json

definition normalize_penalties :: "penalty_request \<Rightarrow> (string \<times> rat) list res" where
  "normalize_penalties value =
     (case value of
        PenaltyNone \<Rightarrow> Inr DEFAULT_OTHER_PEER_PENALTIES
      | PenaltyMap kvs \<Rightarrow> merge_penalties kvs DEFAULT_OTHER_PEER_PENALTIES
      | PenaltyValue v \<Rightarrow>
          bind_res (clamp_penalty v 0) (\<lambda>p. Inr (map (\<lambda>k. (k, p)) REPORTED_CATEGORY_KEYS)))"

definition normalize_exclude_uris :: "utext list option \<Rightarrow> utext set" where
  "normalize_exclude_uris values =
     set (filter (\<lambda>u. u \<noteq> []) (map strip_text (take MAX_EXCLUDE_URIS (case values of None \<Rightarrow> [] | Some vs \<Rightarrow> vs))))"

section \<open>Detail pins\<close>

record detail_pins =
  scalar :: "tier option"
  by_category :: "(string \<times> tier) list"

definition for_category :: "detail_pins \<Rightarrow> string \<Rightarrow> tier option" where
  "for_category pins category =
     (case map_of (by_category pins) category of None \<Rightarrow> scalar pins | Some t \<Rightarrow> Some t)"

datatype detail_stats = StatsMap "(string \<times> tier) list" | StatsScalar "tier option"

definition as_stats :: "detail_pins \<Rightarrow> detail_stats" where
  "as_stats pins = (if by_category pins \<noteq> [] then StatsMap (by_category pins) else StatsScalar (scalar pins))"

datatype detail_request = DetailResolved detail_pins | DetailMap "(string \<times> json) list" | DetailValue json

text \<open>The tier of \<open>PINNABLE_TIERS\<close> that a value equals, if any.\<close>

definition pinnable :: "json \<Rightarrow> tier option" where
  "pinnable v = find (\<lambda>t. v = JStr (cps (tier_name t))) PINNABLE_TIERS"

definition normalize_detail :: "detail_request \<Rightarrow> detail_pins" where
  "normalize_detail value =
     (case value of
        DetailResolved pins \<Rightarrow> pins
      | DetailMap kvs \<Rightarrow>
          \<lparr>scalar = None,
           by_category = List.map_filter (\<lambda>(key, t). if key \<in> set REPORTED_CATEGORY_KEYS
                           then map_option (Pair key) (pinnable t) else None) kvs\<rparr>
      | DetailValue v \<Rightarrow> \<lparr>scalar = pinnable v, by_category = []\<rparr>)"

section \<open>The request of one assembly run\<close>

record assemble_params =
  query :: utext
  image_url :: "utext option"
  limit :: int
  score_threshold :: "rat option"
  search_filter :: "json option"
  session_id :: "string option"
  query_expansion :: string
  max_tokens :: int
  quotas :: "(string \<times> json) list option"
  purpose :: "string option"
  detail :: detail_request
  dedup_turns :: int
  exclude_uris :: "utext list option"
  peer_scope :: string
  other_peer_penalty :: penalty_request
  rewrite :: json
  rewrite_max_bullets :: int
  render :: bool

section \<open>Lemmas\<close>

lemma TIER_RANK_lt4: "TIER_RANK t < 4"
  by (cases t) auto

lemma TIER_ORDER_nth [simp]: "TIER_ORDER ! TIER_RANK t = t"
  by (cases t) (auto simp: TIER_ORDER_def)

lemma pinnable_iff: "pinnable v = Some t \<longleftrightarrow> t \<noteq> TUri \<and> v = JStr (cps (tier_name t))"
  by (cases t) (auto simp: pinnable_def PINNABLE_TIERS_def)

lemma clamp_float_bounds: "0 \<le> clamp_float f \<and> clamp_float f \<le> 1"
  by (cases f) auto

lemma resolve_quotas_spec:
  "resolve_quotas kvs acc = Inr q \<Longrightarrow> fst ` set acc \<subseteq> set CATEGORY_KEYS \<Longrightarrow> (\<forall>(k, n) \<in> set acc. 0 \<le> n)
     \<Longrightarrow> distinct (map fst acc)
     \<Longrightarrow> fst ` set q \<subseteq> set CATEGORY_KEYS \<and> (\<forall>(k, n) \<in> set q. 0 \<le> n) \<and> distinct (map fst q)"
proof (induction kvs acc rule: resolve_quotas.induct)
  case (2 key v rest acc)
  show ?case
  proof (cases "key \<in> set CATEGORY_KEYS")
    case True
    with 2(3) obtain n where n: "or_else (bind_res (py_int v) (\<lambda>i. Inr (max 0 i))) 0 = Inr n"
      and r: "resolve_quotas rest (AList.update key n acc) = Inr q"
      by (auto simp: bind_res_Inr_iff)
    have "0 \<le> n" using n by (auto simp: or_else_Inr_iff bind_res_Inr_iff)
    then have "\<forall>(k, m) \<in> set (AList.update key n acc). 0 \<le> m"
      using 2(5) by (fastforce dest: set_update_values)
    then show ?thesis
      using 2(2) [of n] n True r 2(4,6) by (simp add: dom_update distinct_update)
  qed (use 2 in auto)
qed auto

lemma normalize_quotas_keys:
  assumes "normalize_quotas qs p = Inr (Some q)"
  shows "fst ` set q \<subseteq> set CATEGORY_KEYS \<and> (\<forall>(k, n) \<in> set q. 0 \<le> n) \<and> distinct (map fst q)"
proof (cases qs)
  case None
  with assms have "\<exists>p. map_of PURPOSE_PRESETS p = Some q"
    by (auto simp: normalize_quotas_def split: option.splits if_splits)
  then show ?thesis
    by (auto simp: PURPOSE_PRESETS_def CATEGORY_KEYS_def MEMORY_CATEGORIES_def split: if_splits)
next
  case (Some kvs)
  with assms show ?thesis
    by (intro resolve_quotas_spec [of kvs "[]"]) (auto simp: normalize_quotas_def bind_res_Inr_iff)
qed

end
