(* ===== verification/Context_Render.thy ===== *)
theory Context_Render
  imports Context_Params
begin

text \<open>
  Rendering of assembled entries, \<open>openviking/retrieve/context_assembler/models.py\<close> and
  \<open>render.py\<close>: one \<open>memory\<close> element per entry, with escaped attributes and with the tags of the envelope
  defused inside bodies. The text of a score is computed from the rational score: rounded to hundredths,
  ties to even.
\<close>

record assembled_entry =
  ae_uri :: string
  ae_category :: string
  ae_score :: rat
  ae_detail :: tier
  ae_text :: utext
  ae_origin :: string
  ae_tokens :: int

section \<open>Attributes and scores\<close>

definition replace_cp :: "nat \<Rightarrow> utext \<Rightarrow> utext \<Rightarrow> utext" where
  "replace_cp c r t = concat (map (\<lambda>x. if x = c then r else [x]) t)"

definition attr_text :: "utext \<Rightarrow> utext" where
  "attr_text v = replace_cp 60 (cps ''&lt;'') (replace_cp 34 (cps ''&quot;'') (replace_cp 38 (cps ''&amp;'') v))"

definition round_half_even :: "rat \<Rightarrow> int" where
  "round_half_even x =
     (let f = \<lfloor>x\<rfloor>; d = x - of_int f
      in if d < 1/2 then f else if d > 1/2 then f + 1 else if even f then f else f + 1)"

definition score_text :: "rat \<Rightarrow> utext" where
  "score_text s =
     (let n = nat (round_half_even (\<bar>s\<bar> * 100))
      in (if s < 0 then [45] else []) @ digits (n div 100) @ [46] @ digits (n mod 100 div 10) @ digits (n mod 10))"

section \<open>Bodies\<close>

text \<open>
  A match of \<open>_ENVELOPE_TAG\<close> at the start of a text: whether the tag is a closing one, and the text
  after the tag name. The character after the name is looked at, not consumed.
\<close>

definition tag_rest :: "utext \<Rightarrow> (bool \<times> utext) option" where
  "tag_rest t =
     (case t of
        [] \<Rightarrow> None
      | c # cs \<Rightarrow>
          if c \<noteq> 60 then None
          else
            let slash = (cs \<noteq> [] \<and> hd cs = 47);
                r = (if slash then tl cs else cs)
            in if map lower_cp (take 6 r) = cps ''memory'' \<and> drop 6 r \<noteq> []
                  \<and> (is_space_cp (r ! 6) \<or> r ! 6 = 47 \<or> r ! 6 = 62)
               then Some (slash, drop 6 r) else None)"

lemma tag_rest_shorter: "tag_rest t = Some (s, r) \<Longrightarrow> length r < length t"
  by (auto simp: tag_rest_def Let_def split: list.splits if_splits)

function body_text :: "utext \<Rightarrow> utext" where
  "body_text t =
     (case tag_rest t of
        Some (slash, rest) \<Rightarrow> [60, 92] @ (if slash then [47] else []) @ cps ''memory'' @ body_text rest
      | None \<Rightarrow> (case t of [] \<Rightarrow> [] | c # cs \<Rightarrow> c # body_text cs))"
  by pat_completeness auto
termination
  by (relation "measure length") (auto dest: tag_rest_shorter)

declare body_text.simps [simp del]

section \<open>Rendering\<close>

definition entry_head :: "assembled_entry \<Rightarrow> utext" where
  "entry_head e =
     cps ''<memory uri='' @ [34] @ attr_text (cps (ae_uri e)) @ [34] @ cps '' type='' @ [34] @ attr_text (cps (ae_category e))
     @ [34] @ cps '' score='' @ [34] @ score_text (ae_score e) @ [34] @ cps '' detail='' @ [34]
     @ cps (tier_name (ae_detail e)) @ [34]"

definition render_entry :: "assembled_entry \<Rightarrow> utext" where
  "render_entry e =
     (if ae_text e = [] then entry_head e @ cps '' />''
      else entry_head e @ [62, 10] @ body_text (ae_text e) @ [10] @ cps ''</memory>'')"

fun join_lines :: "utext list \<Rightarrow> utext" where
  "join_lines [] = []"
| "join_lines [t] = t"
| "join_lines (t # u # ts) = t @ [10] @ join_lines (u # ts)"

definition render_context :: "assembled_entry list \<Rightarrow> utext" where
  "render_context entries = join_lines (map render_entry entries)"

definition fragment_tokens :: "assembled_entry \<Rightarrow> int" where
  "fragment_tokens e = estimate_text_tokens (render_entry e)"

section \<open>The tags of a rendered text\<close>

text \<open>All tags a reader of the envelope finds from left to right; \<open>True\<close> is a closing one.\<close>

function tags :: "utext \<Rightarrow> bool list" where
  "tags t =
     (case tag_rest t of
        Some (slash, rest) \<Rightarrow> slash # tags rest
      | None \<Rightarrow> (case t of [] \<Rightarrow> [] | _ # cs \<Rightarrow> tags cs))"
  by pat_completeness auto
termination
  by (relation "measure length") (auto dest: tag_rest_shorter)

declare tags.simps [simp del]

text \<open>A text that ends in a tag name without the character the pattern looks for.\<close>

fun ends_in_tag :: "utext \<Rightarrow> bool" where
  "ends_in_tag [] = False"
| "ends_in_tag (c # cs) =
     (map lower_cp (c # cs) = cps ''<memory'' \<or> map lower_cp (c # cs) = cps ''</memory'' \<or> ends_in_tag cs)"

lemma tag_rest_not_lt [simp]: "c \<noteq> 60 \<Longrightarrow> tag_rest (c # cs) = None"
  by (simp add: tag_rest_def)

lemma tag_rest_Nil [simp]: "tag_rest [] = None"
  by (simp add: tag_rest_def)

lemma tags_Nil [simp]: "tags [] = []"
  by (simp add: tags.simps)

lemma tags_skip [simp]: "60 \<notin> set a \<Longrightarrow> tags (a @ b) = tags b"
  by (induction a) (auto simp: tags.simps)

lemma tags_skip1 [simp]: "c \<noteq> 60 \<Longrightarrow> tags (c # b) = tags b"
  by (simp add: tags.simps)

lemma body_text_Nil [simp]: "body_text [] = []"
  by (simp add: body_text.simps)

lemma body_text_skip: "tag_rest (c # cs) = None \<Longrightarrow> body_text (c # cs) = c # body_text cs"
  by (subst body_text.simps) simp

lemma body_text_Nil_iff [simp]: "body_text t = [] \<longleftrightarrow> t = []"
  by (cases t; subst body_text.simps) (auto split: option.splits)

lemma hd_body_text: "t \<noteq> [] \<Longrightarrow> hd (body_text t) = hd t"
proof (cases t)
  case (Cons c cs)
  then show ?thesis
    by (subst body_text.simps) (auto split: option.splits simp: tag_rest_def split: if_splits)
qed simp

text \<open>A stretch of a body without \<open><\<close> comes unchanged from the text.\<close>

lemma body_text_prefix:
  "body_text t = w @ v \<Longrightarrow> 60 \<notin> set w \<Longrightarrow> \<exists>u. t = w @ u \<and> v = body_text u"
proof (induction w arbitrary: t)
  case (Cons x w)
  then obtain c cs where t: "t = c # cs" by (cases t) auto
  have "hd (body_text t) = x" using Cons.prems(1) by simp
  then have c: "c = x" using hd_body_text [of t] t by simp
  with Cons.prems t have "body_text t = c # body_text cs" by (simp add: body_text_skip)
  with Cons t c show ?case by auto
qed simp

definition looked_at :: "nat \<Rightarrow> bool" where
  "looked_at c \<longleftrightarrow> is_space_cp c \<or> c = 47 \<or> c = 62"

text \<open>The shape of a match: the name, and a character that is looked at.\<close>

lemma tag_rest_iff:
  "tag_rest (c # cs) = Some (slash, r) \<longleftrightarrow>
     c = 60 \<and> (\<exists>w. cs = (if slash then [47] else []) @ w @ r \<and> map lower_cp w = cps ''memory''
        \<and> r \<noteq> [] \<and> looked_at (hd r))"
  (is "?L = ?R")
proof
  assume L: ?L
  then have c: "c = 60" by (metis option.distinct(1) tag_rest_not_lt)
  let ?cs = "if cs \<noteq> [] \<and> hd cs = 47 then tl cs else cs"
  from L have "slash \<longleftrightarrow> cs \<noteq> [] \<and> hd cs = 47" "map lower_cp (take 6 ?cs) = cps ''memory''" "r = drop 6 ?cs" "r \<noteq> []"
    "looked_at (?cs ! 6)"
    by (auto simp: tag_rest_def Let_def looked_at_def split: if_splits)
  moreover from this have "?cs ! 6 = hd r" by (simp add: hd_drop_conv_nth)
  moreover have "cs = (if slash then [47] else []) @ take 6 ?cs @ drop 6 ?cs"
    using calculation(1) by (cases cs) auto
  ultimately show ?R using c by metis
next
  assume ?R
  then obtain w where w: "c = 60" "cs = (if slash then [47] else []) @ w @ r" "map lower_cp w = cps ''memory''"
    "r \<noteq> []" "looked_at (hd r)" by blast
  from w(3) have "length w = 6" by (auto dest: map_eq_imp_length_eq simp: cps_def)
  moreover from w(3) have "w \<noteq> []" "lower_cp (hd w) = 109"
    by (auto simp: cps_def hd_map [symmetric])
  moreover from this have "hd w \<noteq> 47" by (auto simp: lower_cp_def)
  ultimately show ?L
    using w by (auto simp: tag_rest_def Let_def looked_at_def nth_append hd_conv_nth)
qed

lemma tag_name_no_lt:
  assumes w: "map lower_cp w = cps ''memory''"
  shows "60 \<notin> set w \<and> 10 \<notin> set w"
proof -
  have "lower_cp ` set w = set (cps ''memory'')" unfolding w [symmetric] by simp
  moreover have "lower_cp 60 \<notin> set (cps ''memory'')" "lower_cp 10 \<notin> set (cps ''memory'')"
    by (simp_all add: lower_cp_def cps_def)
  ultimately show ?thesis by blast
qed

text \<open>Defusing adds no tag: where the text has none, the body has none, even before a line break.\<close>

lemma tag_rest_body_None:
  assumes "tag_rest (c # cs) = None" and "\<not> ends_in_tag (c # cs)"
  shows "tag_rest (c # body_text cs @ 10 # s) = None"
proof (rule ccontr)
  assume "\<not> ?thesis"
  then obtain slash r where "tag_rest (c # body_text cs @ 10 # s) = Some (slash, r)" by auto
  then obtain w where c: "c = 60" and eq: "body_text cs @ 10 # s = (if slash then [47] else []) @ w @ r"
    and w: "map lower_cp w = cps ''memory''" and r: "r \<noteq> []" "looked_at (hd r)"
    by (auto simp: tag_rest_iff)
  let ?p = "(if slash then [47] else []) @ w"
  have no: "60 \<notin> set ?p" "10 \<notin> set ?p" using tag_name_no_lt [OF w] by (auto split: if_splits)
  from eq have "body_text cs @ 10 # s = ?p @ r" by simp
  then obtain us where "(body_text cs = ?p @ us \<and> us @ 10 # s = r) \<or> (body_text cs @ us = ?p \<and> 10 # s = us @ r)"
    by (meson append_eq_append_conv2)
  moreover have "us = []" if a: "body_text cs @ us = ?p" and b: "10 # s = us @ r"
  proof (rule ccontr)
    assume "us \<noteq> []"
    then have "10 \<in> set us" using b by (cases us) auto
    moreover have "set us \<subseteq> set ?p" unfolding a [symmetric] by simp
    ultimately show False using no(2) by blast
  qed
  ultimately obtain us where us: "body_text cs = ?p @ us" "us @ 10 # s = r" by fastforce
  then obtain u where u: "cs = ?p @ u" "us = body_text u" using body_text_prefix no(1) by blast
  show False
  proof (cases "u = []")
    case True
    with u w c assms(2) show False by (auto simp: lower_cp_def cps_def split: if_splits)
  next
    case False
    then have "hd r = hd u" using us u hd_body_text [of u] body_text_Nil_iff [of u] by (cases us) auto
    then have "tag_rest (c # cs) = Some (slash, u)" using False u w c r by (auto simp: tag_rest_iff)
    with assms(1) show False by simp
  qed
qed

lemma tag_rest_suffix: "tag_rest t = Some (slash, r) \<Longrightarrow> \<exists>p. t = p @ r"
proof (cases t)
  case (Cons c cs)
  assume "tag_rest t = Some (slash, r)"
  with Cons obtain w where "t = (c # (if slash then [47] else []) @ w) @ r" by (auto simp: tag_rest_iff)
  then show ?thesis by blast
qed simp

lemma ends_in_tag_suffix: "ends_in_tag r \<Longrightarrow> ends_in_tag (p @ r)"
  by (induction p) auto

lemma tags_body_text:
  "\<not> ends_in_tag t \<Longrightarrow> tags (body_text t @ 10 # s) = tags s"
proof (induction t rule: body_text.induct)
  case (1 t)
  show ?case
  proof (cases "tag_rest t")
    case None
    show ?thesis
    proof (cases t)
      case (Cons c cs)
      with None 1(1) [OF None, of c cs] 1(3) show ?thesis
        using tag_rest_body_None [of c cs s]
        by (simp add: body_text_skip tags.simps [of "c # body_text cs @ 10 # s"])
    qed simp
  next
    case (Some x)
    obtain slash r where x: "x = (slash, r)" by force
    have b: "body_text t = [60, 92] @ (if slash then [47] else []) @ cps ''memory'' @ body_text r"
      using Some x by (subst body_text.simps) simp
    have "tag_rest (60 # 92 # z) = None" for z
      by (auto simp: tag_rest_def Let_def lower_cp_def cps_def)
    then have "tags (60 # 92 # z) = tags z" for z by (subst tags.simps) simp
    moreover have "60 \<notin> set (cps ''memory'')" by (simp add: cps_def)
    moreover have "\<not> ends_in_tag r" using 1(3) Some x tag_rest_suffix ends_in_tag_suffix by blast
    ultimately show ?thesis using 1(2) [OF Some x [symmetric]] by (simp add: b)
  qed
qed

section \<open>Integrity of the envelope\<close>

lemma replace_cp_free: "c \<notin> set r \<Longrightarrow> c \<notin> set (replace_cp c r t)"
  by (auto simp: replace_cp_def split: if_splits)

lemma digits_range: "c \<in> set (digits n) \<Longrightarrow> 48 \<le> c \<and> c \<le> 57"
proof (induction n rule: digits.induct)
  case (1 n)
  from 1(2) show ?case by (subst (asm) digits.simps) (use 1(1) in \<open>auto split: if_splits\<close>)
qed

lemma tags_entry_head: "tags (entry_head e @ s) = False # tags s"
proof -
  let ?r = "cps ''uri='' @ [34] @ attr_text (cps (ae_uri e)) @ [34] @ cps '' type='' @ [34] @ attr_text (cps (ae_category e))
     @ [34] @ cps '' score='' @ [34] @ score_text (ae_score e) @ [34] @ cps '' detail='' @ [34]
     @ cps (tier_name (ae_detail e)) @ [34]"
  have h: "entry_head e @ s = 60 # cps ''memory'' @ 32 # ?r @ s"
    by (simp add: entry_head_def cps_def)
  have "map lower_cp (cps ''memory'') = cps ''memory''" by (simp add: cps_def lower_cp_def)
  then have "tag_rest (entry_head e @ s) = Some (False, 32 # ?r @ s)"
    unfolding h by (auto simp: tag_rest_iff looked_at_def is_space_cp_def)
  moreover have "60 \<notin> set (attr_text t)" for t
    unfolding attr_text_def by (rule replace_cp_free) (simp add: cps_def)
  moreover have "60 \<notin> set (score_text x)" for x
    by (auto simp: score_text_def Let_def dest!: digits_range)
  moreover have "60 \<notin> set (cps (tier_name t))" for t by (cases t) (auto simp: cps_def)
  ultimately have "60 \<notin> set (32 # ?r)" by (simp add: cps_def)
  then have "tags (32 # ?r @ s) = tags s" by (metis append_Cons tags_skip)
  then show ?thesis using \<open>tag_rest _ = _\<close> by (simp add: tags.simps [of "entry_head e @ s"])
qed

lemma tags_close: "tags (cps ''</memory>'' @ s) = True # tags s"
proof -
  have "map lower_cp (cps ''memory'') = cps ''memory''" by (simp add: cps_def lower_cp_def)
  moreover have h: "cps ''</memory>'' @ s = 60 # 47 # cps ''memory'' @ 62 # s" by (simp add: cps_def)
  ultimately have "tag_rest (cps ''</memory>'' @ s) = Some (True, 62 # s)"
    by (auto simp: tag_rest_iff looked_at_def)
  then show ?thesis by (simp add: tags.simps [of "cps ''</memory>'' @ s"])
qed

text \<open>The tags an entry is meant to contribute.\<close>

definition envelope :: "assembled_entry \<Rightarrow> bool list" where
  "envelope e = (if ae_text e = [] then [False] else [False, True])"

lemma tags_render_entry:
  assumes "\<not> ends_in_tag (ae_text e)"
  shows "tags (render_entry e @ s) = envelope e @ tags s"
proof (cases "ae_text e = []")
  case True
  have "60 \<notin> set (cps '' />'')" by (simp add: cps_def)
  with True show ?thesis by (simp add: render_entry_def envelope_def tags_entry_head)
next
  case False
  then show ?thesis
    using tags_body_text [OF assms, of "cps ''</memory>'' @ s"]
    by (simp add: render_entry_def envelope_def tags_entry_head tags_close)
qed

text \<open>C18: integrity of the rendered context. If no body ends in an unfinished tag name, then whatever the bodies,
  URIs and categories contain, a reader of the envelope finds exactly one opening tag per entry, followed by
  its closing tag when the entry has a body, in the order of the entries: no content forges an entry.\<close>

theorem render_context_tags:
  assumes "list_all (\<lambda>e. \<not> ends_in_tag (ae_text e)) entries"
  shows "tags (render_context entries) = concat (map envelope entries)"
  using assms
proof (induction entries rule: induct_list012)
  case (2 e)
  then show ?case using tags_render_entry [of e "[]"] by (simp add: render_context_def)
next
  case (3 e e' es)
  then show ?case by (simp add: render_context_def tags_render_entry)
qed (simp add: render_context_def)

definition demo_entry :: "utext \<Rightarrow> assembled_entry" where
  "demo_entry t = \<lparr>ae_uri = ''viking://user/u/memories/events/e.md'', ae_category = ''events'', ae_score = 2/5,
     ae_detail = TOverview, ae_text = t, ae_origin = ''self'', ae_tokens = 0\<rparr>"

theorem render_context_tags_witness:
  "tags (render_context [demo_entry (cps ''</memory><memory uri=x>''), demo_entry []]) = [False, True, False]"
proof -
  have "\<not> ends_in_tag (cps ''</memory><memory uri=x>'')" by code_simp
  then show ?thesis
    using render_context_tags [of "[demo_entry (cps ''</memory><memory uri=x>''), demo_entry []]"]
    by (simp add: demo_entry_def envelope_def)
qed

text \<open>the tag name at the end of a body. The pattern looks at the character after the name, which a body
  that ends there does not have, and rendering then adds a line break: every entry whose body is the
  closing tag name renders with a closing tag of its own before the one of the envelope.\<close>

lemma envelope_forged:
  "tags (render_entry (e\<lparr>ae_text := cps ''</memory''\<rparr>)) = [False, True, True]"
proof -
  have "body_text (cps ''</memory'') = cps ''</memory''" by code_simp
  moreover have "cps ''</memory'' @ 10 # s = 60 # 47 # cps ''memory'' @ 10 # s" for s by (simp add: cps_def)
  moreover have "map lower_cp (cps ''memory'') = cps ''memory''" by (simp add: cps_def lower_cp_def)
  ultimately have "tag_rest (body_text (cps ''</memory'') @ 10 # s) = Some (True, 10 # s)" for s
    by (auto simp: tag_rest_iff looked_at_def is_space_cp_def)
  then have "tags (body_text (cps ''</memory'') @ 10 # s) = True # tags s" for s
    by (simp add: tags.simps [of "body_text (cps ''</memory'') @ 10 # s"])
  then show ?thesis
    using tags_close [of "[]"] by (simp add: render_entry_def tags_entry_head)
qed

text \<open>The rendering of a list costs at most the fragments and one token per separator.\<close>

lemma estimate_newline: "estimate_text_tokens (10 # t) \<le> 1 + estimate_text_tokens t"
proof -
  have "\<lceil>1 / 4 :: rat\<rceil> = 1" by (rule ceiling_unique) simp_all
  then have "estimate_text_tokens [10] = 1"
    by (simp add: estimate_text_tokens_def code_point_weight_def is_cjk_code_point_def)
  then show ?thesis using estimate_append_le [of "[10]" t] by simp
qed

lemma render_context_tokens:
  "estimate_text_tokens (render_context es) \<le> sum_list (map fragment_tokens es) + int (length es - 1)"
proof (induction es rule: induct_list012)
  case (3 e e' es)
  have "estimate_text_tokens (render_context (e # e' # es))
      \<le> fragment_tokens e + estimate_text_tokens (10 # render_context (e' # es))"
    unfolding render_context_def fragment_tokens_def by (simp add: estimate_append_le)
  also have "\<dots> \<le> fragment_tokens e + (1 + estimate_text_tokens (render_context (e' # es)))"
    using estimate_newline by simp
  finally show ?case using 3 by simp
qed (simp_all add: render_context_def fragment_tokens_def)

end
