(* ===== verification/Context_Gather.thy ===== *)
theory Context_Gather
  imports Context_Params Retrieval_Targets "HOL-Library.Product_Lexorder"
begin

text \<open>
  Candidate gathering for context assembly, \<open>openviking/retrieve/context_assembler/gather.py\<close>. The search service is
  the argument \<open>find\<close>; its scores are finite, so rationals model them. A hit is the record the service returns.
  The searches of one call run concurrently and independently, so their results are computed in the order of
  the argument list of \<open>asyncio.gather\<close>; of the retrieval errors only the number is kept.
\<close>

record search_hit =
  hit_uri :: string
  hit_score :: rat
  hit_abstract :: utext
  hit_overview :: utext
  hit_level :: int
  hit_category :: string

record find_result =
  fr_memories :: "search_hit list"
  fr_resources :: "search_hit list"
  fr_skills :: "search_hit list"

record candidate =
  c_uri :: string
  c_base_uri :: string
  c_category :: string
  c_score :: rat
  c_ranked_score :: rat
  c_level :: int
  c_abstract :: utext
  c_origin :: string
  c_is_directory :: bool
  c_read_ctx :: request_context

definition LEVEL_SUFFIXES :: "string list" where
  "LEVEL_SUFFIXES = [''.abstract.md'', ''.overview.md'']"

section \<open>Reading a hit\<close>

definition abstract_of :: "search_hit \<Rightarrow> utext" where
  "abstract_of item = (if hit_abstract item \<noteq> [] then hit_abstract item else hit_overview item)"

definition level_of :: "search_hit \<Rightarrow> int" where
  "level_of item = (if hit_level item = 0 then 2 else hit_level item)"

definition extract_hits :: "find_result option \<Rightarrow> string \<Rightarrow> search_hit list" where
  "extract_hits result bucket =
     (case result of
        None \<Rightarrow> []
      | Some r \<Rightarrow> if bucket = ''resources'' then fr_resources r
                  else if bucket = ''skills'' then fr_skills r else fr_memories r)"

definition memory_target_roots :: "request_context \<Rightarrow> string list" where
  "memory_target_roots ctx =
     (canonical_user_root ctx @ ''/memories'')
     # (if truthy_str (rc_actor_peer_id ctx) then [actor_peer_root ctx @ ''/memories''] else [])"

definition category_targets :: "string \<Rightarrow> request_context \<Rightarrow> string list" where
  "category_targets category ctx =
     (let user_root = canonical_user_root ctx
      in if category = ''resources'' then
           (let targets = default_target_directories (Some ctx) (Some CT_RESOURCE)
            in if targets \<noteq> [] then targets
               else [user_root @ ''/resources'', ''viking://resources'']
                    @ (if truthy_str (rc_actor_peer_id ctx) then [actor_peer_root ctx @ ''/resources''] else []))
         else if category = ''skills'' then
           (let targets = default_target_directories (Some ctx) (Some CT_SKILL)
            in if targets \<noteq> [] then targets else (user_root @ ''/skills'') # AGENT_SHARED_ROOTS)
         else map (\<lambda>root. rstrip_by is_slash root @ ''/'' @ category) (memory_target_roots ctx))"

definition is_under :: "string \<Rightarrow> string \<Rightarrow> bool" where
  "is_under uri base =
     (let uri = rstrip_by is_slash uri; base = rstrip_by is_slash base
      in uri = base \<or> startswith uri (base @ ''/''))"

definition origin_for_uri :: "string \<Rightarrow> string option \<Rightarrow> string \<Rightarrow> string" where
  "origin_for_uri uri actor_peer_id user_root =
     (let peers_root = rstrip_by is_slash user_root @ ''/peers''
      in if is_under uri peers_root then
           (let suffix = strip_by is_slash (drop (length peers_root) uri);
                peer_id = (if suffix \<noteq> [] then hd (split_on (CHR ''/'') suffix) else [])
            in if truthy_str actor_peer_id \<and> Some peer_id = actor_peer_id then ''actor_peer'' else ''other_peer'')
         else ''self'')"

fun strip_suffixes :: "string list \<Rightarrow> string \<Rightarrow> string \<times> bool" where
  "strip_suffixes [] trimmed = (trimmed, False)"
| "strip_suffixes (s # ss) trimmed =
     (if endswith trimmed (''/'' @ s) then (take (length trimmed - (length s + 1)) trimmed, True)
      else strip_suffixes ss trimmed)"

definition strip_level_suffix :: "string \<Rightarrow> string \<times> bool" where
  "strip_level_suffix uri = strip_suffixes LEVEL_SUFFIXES (rstrip_by is_slash uri)"

definition category_for :: "search_hit \<Rightarrow> string option \<Rightarrow> string" where
  "category_for item bucket =
     (if truthy_str bucket then the bucket
      else
        let uri = hit_uri item
        in case find_str ''/memories/'' uri of
          Some i \<Rightarrow>
            (let segment = hd (split_on (CHR ''/'') (drop (i + length ''/memories/'') uri))
             in if segment \<in> set MEMORY_CATEGORIES then segment else OTHER_MEMORY_CATEGORY)
        | None \<Rightarrow>
            if hit_category item \<in> set REPORTED_CATEGORY_KEYS then hit_category item
            else if find_str ''/skills/'' uri \<noteq> None then ''skills''
            else if find_str ''/resources/'' uri \<noteq> None \<or> startswith uri ''viking://resources'' then ''resources''
            else OTHER_MEMORY_CATEGORY)"

section \<open>Deduplication and ranking\<close>

fun keep_best :: "(string \<times> nat) list \<Rightarrow> search_hit list \<Rightarrow> search_hit list \<Rightarrow> search_hit list" where
  "keep_best positions out [] = out"
| "keep_best positions out (item # items) =
     (if hit_uri item = [] then keep_best positions out items
      else case map_of positions (hit_uri item) of
          None \<Rightarrow> keep_best (positions @ [(hit_uri item, length out)]) (out @ [item]) items
        | Some i \<Rightarrow> keep_best positions
            (if hit_score item > hit_score (out ! i) then out[i := item] else out) items)"

definition dedupe_keep_best :: "search_hit list \<Rightarrow> search_hit list" where
  "dedupe_keep_best items = keep_best [] [] items"

definition origin_rank :: "string \<Rightarrow> nat" where
  "origin_rank origin =
     (case map_of (zip ORIGIN_ORDER [0 ..< length ORIGIN_ORDER]) origin of
        Some i \<Rightarrow> i | None \<Rightarrow> length ORIGIN_ORDER)"

text \<open>
  Python sorts by \<open>(ranked_score, -rank)\<close> with \<open>reverse=True\<close>, which keeps the order of equal keys: the stable
  sort by the negated key.
\<close>

definition rank_key :: "candidate \<Rightarrow> rat \<times> nat" where
  "rank_key c = (- c_ranked_score c, origin_rank (c_origin c))"

definition sort_candidates :: "candidate list \<Rightarrow> candidate list" where
  "sort_candidates cs = sort_key rank_key cs"

text \<open>The dict keeps a key at its first position, so it is also the list \<open>order\<close>.\<close>

fun best_candidates :: "(string \<times> candidate) list \<Rightarrow> candidate list \<Rightarrow> (string \<times> candidate) list" where
  "best_candidates best [] = best"
| "best_candidates best (c # cs) =
     (case map_of best (c_base_uri c) of
        None \<Rightarrow> best_candidates (best @ [(c_base_uri c, c)]) cs
      | Some existing \<Rightarrow>
          best_candidates (if c_score c > c_score existing then AList.update (c_base_uri c) c best else best) cs)"

definition dedupe_candidates :: "candidate list \<Rightarrow> candidate list" where
  "dedupe_candidates candidates = map snd (best_candidates [] candidates)"

section \<open>Building candidates\<close>

record gather_env =
  g_ctx :: request_context
  g_penalties :: "(string \<times> rat) list"
  g_excluded :: "utext set"
  g_peer_scope :: string
  g_queries :: "utext list"
  g_filter :: "json option"

abbreviation open_ctx :: "gather_env \<Rightarrow> request_context" where
  "open_ctx env \<equiv> (g_ctx env)\<lparr>rc_actor_peer_id := None\<rparr>"

text \<open>One hit: nothing, an exclusion to count, or a candidate.\<close>

datatype built = Skipped | Excluded | Built candidate

definition build_one :: "gather_env \<Rightarrow> search_hit \<Rightarrow> string option \<Rightarrow> built" where
  "build_one env item bucket =
     (let uri = hit_uri item
      in if uri = [] then Skipped
         else
           let (base_uri, is_directory) = strip_level_suffix uri
           in if endswith base_uri ''/profile.md'' then Skipped
              else if cps uri \<in> g_excluded env \<or> cps base_uri \<in> g_excluded env then Excluded
              else
                let category = category_for item bucket;
                    origin = origin_for_uri base_uri (rc_actor_peer_id (g_ctx env)) (canonical_user_root (g_ctx env));
                    score = hit_score item;
                    penalty = (if origin = ''other_peer''
                               then (case map_of (g_penalties env) category of Some p \<Rightarrow> p | None \<Rightarrow> 0) else 0)
                in Built \<lparr>c_uri = uri, c_base_uri = base_uri, c_category = category, c_score = score,
                     c_ranked_score = score - penalty, c_level = level_of item, c_abstract = abstract_of item,
                     c_origin = origin, c_is_directory = is_directory,
                     c_read_ctx = (if origin = ''other_peer'' then open_ctx env else g_ctx env)\<rparr>)"

fun built_candidate :: "built \<Rightarrow> candidate option" where
  "built_candidate (Built c) = Some c"
| "built_candidate _ = None"

definition build_all :: "gather_env \<Rightarrow> (search_hit \<times> string option) list \<Rightarrow> candidate list \<times> nat" where
  "build_all env items =
     (let bs = map (\<lambda>(item, bucket). build_one env item bucket) items
      in (List.map_filter built_candidate bs, length (filter (\<lambda>b. b = Excluded) bs)))"

text \<open>The candidates of the hits, ranked and cut to the wanted number, and how many hits were excluded.\<close>

definition build_ranked :: "gather_env \<Rightarrow> int \<Rightarrow> (search_hit \<times> string option) list \<Rightarrow> candidate list \<times> nat" where
  "build_ranked env want items =
     (take (nat (max 0 want)) (sort_candidates (fst (build_all env items))), snd (build_all env items))"

section \<open>Searches\<close>

record find_request =
  fq_query :: utext
  fq_ctx :: request_context
  fq_target :: string
  fq_limit :: int
  fq_filter :: "json option"

type_synonym finder = "find_request \<Rightarrow> find_result option res"

text \<open>\<open>merge_context_type_filter\<close> of \<open>openviking/utils/search_filters.py\<close> for one context type. Filters are
  dicts; an \<open>and\<close> filter gives its conditions, any other filter is one condition.\<close>

fun context_type_value :: "context_type \<Rightarrow> string" where
  "context_type_value CT_MEMORY = ''memory''"
| "context_type_value CT_RESOURCE = ''resource''"
| "context_type_value CT_SKILL = ''skill''"

definition filter_conds :: "json \<Rightarrow> json list" where
  "filter_conds f =
     (case f of
        JDict d \<Rightarrow>
          (case (map_of d (cps ''op''), map_of d (cps ''conds'')) of
             (Some (JStr op), Some (JList cs)) \<Rightarrow> if op = cps ''and'' then cs else [f]
           | _ \<Rightarrow> [f])
      | _ \<Rightarrow> [f])"

definition and_filters :: "json option \<Rightarrow> json option \<Rightarrow> json option" where
  "and_filters left right =
     (case (left, right) of
        (None, _) \<Rightarrow> right
      | (Some l, None) \<Rightarrow> if \<not> truthy_json l then right else left
      | (Some l, Some r) \<Rightarrow>
          if \<not> truthy_json l then right else if \<not> truthy_json r then left
          else Some (JDict [(cps ''op'', JStr (cps ''and'')), (cps ''conds'', JList (filter_conds l @ filter_conds r))]))"

definition merge_context_type_filter :: "json option \<Rightarrow> context_type \<Rightarrow> json option" where
  "merge_context_type_filter existing ct =
     and_filters existing
       (Some (JDict [(cps ''op'', JStr (cps ''must'')), (cps ''field'', JStr (cps ''context_type'')),
                     (cps ''conds'', JList [JStr (cps (context_type_value ct))])]))"

text \<open>\<open>_safe_find\<close>: a rejected request propagates, any other failure is counted and gives no result.\<close>

definition safe_find :: "finder \<Rightarrow> find_request \<Rightarrow> (find_result option \<times> nat) res" where
  "safe_find find_fn req =
     (case find_fn req of
        Inr result \<Rightarrow> Inr (result, 0)
      | Inl e \<Rightarrow> if e = InvalidArgumentError then Inl e else Inr (None, 1))"

fun run_searches :: "finder \<Rightarrow> find_request list \<Rightarrow> (find_result option list \<times> nat) res" where
  "run_searches find_fn [] = Inr ([], 0)"
| "run_searches find_fn (req # reqs) =
     bind_res (safe_find find_fn req) (\<lambda>(result, n).
     bind_res (run_searches find_fn reqs) (\<lambda>(results, m). Inr (result # results, n + m)))"

definition overfetch :: "gather_env \<Rightarrow> int \<Rightarrow> int" where
  "overfetch env want = want + min (int (card (g_excluded env))) (want * 2)"

definition planned_queries :: "utext list \<Rightarrow> utext list" where
  "planned_queries queries = (let qs = filter (\<lambda>q. q \<noteq> []) queries in if qs = [] then [[]] else qs)"

definition is_other_peer_hit :: "gather_env \<Rightarrow> search_hit \<Rightarrow> bool" where
  "is_other_peer_hit env item \<longleftrightarrow>
     origin_for_uri (hit_uri item) (rc_actor_peer_id (g_ctx env)) (canonical_user_root (g_ctx env)) = ''other_peer''"

definition peer_searches :: "gather_env \<Rightarrow> int \<Rightarrow> json option \<Rightarrow> find_request list" where
  "peer_searches env want flt =
     map (\<lambda>q. \<lparr>fq_query = q, fq_ctx = open_ctx env, fq_target = canonical_user_root (g_ctx env) @ ''/peers'',
               fq_limit = overfetch env (max (want * OTHER_PEER_OVERFETCH) want), fq_filter = flt\<rparr>) (g_queries env)"

text \<open>The result of one bucket, or of the flat search: candidates, hits searched, exclusions, errors.\<close>

type_synonym gathered = "candidate list \<times> nat \<times> nat \<times> nat"

definition bucket_context_type :: "string \<Rightarrow> context_type" where
  "bucket_context_type bucket =
     (if bucket = ''resources'' then CT_RESOURCE else if bucket = ''skills'' then CT_SKILL else CT_MEMORY)"

definition bucket_found :: "gather_env \<Rightarrow> string \<Rightarrow> nat \<Rightarrow> find_result option list \<Rightarrow> search_hit list" where
  "bucket_found env bucket peer_offset results =
     concat (map (\<lambda>r. extract_hits r bucket) (take peer_offset results))
     @ concat (map (\<lambda>r. filter (\<lambda>item. find_str (''/memories/'' @ bucket @ ''/'') (hit_uri item) \<noteq> None
                                     \<and> is_other_peer_hit env item) (extract_hits r bucket))
                (drop peer_offset results))"

definition gather_bucket :: "finder \<Rightarrow> gather_env \<Rightarrow> string \<Rightarrow> int \<Rightarrow> gathered res" where
  "gather_bucket find_fn env bucket quota =
     (let bucket_filter = merge_context_type_filter (g_filter env) (bucket_context_type bucket);
          own = concat (map (\<lambda>q. map (\<lambda>t. \<lparr>fq_query = q, fq_ctx = g_ctx env, fq_target = t,
                    fq_limit = overfetch env quota, fq_filter = bucket_filter\<rparr>)
                  (category_targets bucket (g_ctx env))) (g_queries env));
          peers = (if g_peer_scope env = ''all'' \<and> bucket \<in> set MEMORY_CATEGORIES
                   then peer_searches env quota bucket_filter else [])
      in bind_res (run_searches find_fn (own @ peers)) (\<lambda>(results, errors).
           let found = dedupe_keep_best (bucket_found env bucket (length own) results);
               ranked = build_ranked env quota (map (\<lambda>item. (item, Some bucket)) found)
           in Inr (fst ranked, length found, snd ranked, errors)))"

text \<open>The flat search: hits paired with the bucket they were returned under; \<open>setdefault\<close> keeps the first.\<close>

definition flat_hits :: "gather_env \<Rightarrow> nat \<Rightarrow> find_result option list \<Rightarrow> (search_hit \<times> string option) list" where
  "flat_hits env peer_offset results =
     concat (map (\<lambda>r. map (\<lambda>i. (i, None)) (extract_hits r ''memories'')
                    @ map (\<lambda>i. (i, Some ''resources'')) (extract_hits r ''resources'')
                    @ map (\<lambda>i. (i, Some ''skills'')) (extract_hits r ''skills'')) (take peer_offset results))
     @ concat (map (\<lambda>r. map (\<lambda>i. (i, None)) (filter (is_other_peer_hit env) (extract_hits r ''memories'')))
                (drop peer_offset results))"

definition first_bucket :: "(search_hit \<times> string option) list \<Rightarrow> search_hit \<Rightarrow> string option" where
  "first_bucket hits item =
     (case map_of (map (\<lambda>(i, b). (hit_uri i, b)) hits) (hit_uri item) of Some b \<Rightarrow> b | None \<Rightarrow> None)"

definition gather_flat :: "finder \<Rightarrow> gather_env \<Rightarrow> int \<Rightarrow> gathered res" where
  "gather_flat find_fn env want =
     (let own = map (\<lambda>q. \<lparr>fq_query = q, fq_ctx = g_ctx env, fq_target = [],
                  fq_limit = overfetch env want, fq_filter = g_filter env\<rparr>) (g_queries env);
          peers = (if g_peer_scope env = ''all'' then peer_searches env want (g_filter env) else [])
      in bind_res (run_searches find_fn (own @ peers)) (\<lambda>(results, errors).
           let hits = flat_hits env (length own) results;
               found = dedupe_keep_best (map fst hits);
               ranked = build_ranked env want (map (\<lambda>item. (item, first_bucket hits item)) found)
           in Inr (fst ranked, length found, snd ranked, errors)))"

fun gather_buckets :: "finder \<Rightarrow> gather_env \<Rightarrow> (string \<times> int) list \<Rightarrow> (string \<times> gathered) list res" where
  "gather_buckets find_fn env [] = Inr []"
| "gather_buckets find_fn env ((b, q) # rest) =
     bind_res (gather_bucket find_fn env b q) (\<lambda>g.
     bind_res (gather_buckets find_fn env rest) (\<lambda>gs. Inr ((b, g) # gs)))"

record gather_stats =
  gs_searched :: "(string \<times> nat) list"
  gs_candidates :: nat
  gs_excluded :: nat
  gs_origins :: "(string \<times> nat) list"
  gs_errors :: nat

fun count_origins :: "(string \<times> nat) list \<Rightarrow> candidate list \<Rightarrow> (string \<times> nat) list" where
  "count_origins origins [] = origins"
| "count_origins origins (c # cs) =
     count_origins (AList.update (c_origin c)
       (Suc (case map_of origins (c_origin c) of Some n \<Rightarrow> n | None \<Rightarrow> 0)) origins) cs"

definition mk_gather_env ::
  "request_context \<Rightarrow> utext list \<Rightarrow> json option \<Rightarrow> string \<Rightarrow> (string \<times> rat) list \<Rightarrow> utext set \<Rightarrow> gather_env" where
  "mk_gather_env ctx queries flt scope penalties excluded =
     \<lparr>g_ctx = ctx, g_penalties = penalties, g_excluded = excluded,
      g_peer_scope = (if scope = ''actor'' then ''actor'' else ''all''),
      g_queries = planned_queries queries, g_filter = flt\<rparr>"

definition gather_candidates ::
  "finder \<Rightarrow> gather_env \<Rightarrow> (string \<times> int) list option \<Rightarrow> int \<Rightarrow> (candidate list \<times> gather_stats) res" where
  "gather_candidates find_fn env quotas_opt want =
     bind_res
       (case quotas_opt of
          None \<Rightarrow> bind_res (gather_flat find_fn env want) (\<lambda>(cs, n, x, e). Inr (cs, [(''all'', n)], x, e))
        | Some qs \<Rightarrow>
            bind_res (gather_buckets find_fn env (filter (\<lambda>(b, q). q > 0) qs)) (\<lambda>gs.
              Inr (sort_candidates (dedupe_candidates (concat (map (\<lambda>(b, cs, n, x, e). cs) gs))),
                   map (\<lambda>(b, cs, n, x, e). (b, n)) gs, sum_list (map (\<lambda>(b, cs, n, x, e). x) gs),
                   sum_list (map (\<lambda>(b, cs, n, x, e). e) gs))))
       (\<lambda>(candidates, searched, x, e).
          Inr (candidates,
            \<lparr>gs_searched = searched, gs_candidates = length candidates, gs_excluded = x,
             gs_origins = count_origins (map (\<lambda>n. (n, 0)) ORIGIN_ORDER) candidates, gs_errors = min 5 e\<rparr>))"

section \<open>Deduplication keeps the best hit of each URI\<close>

definition best_hit :: "string \<Rightarrow> search_hit list \<Rightarrow> search_hit" where
  "best_hit u items =
     (let hs = filter (\<lambda>i. hit_uri i = u) items
      in hd (filter (\<lambda>i. hit_score i = Max (hit_score ` set hs)) hs))"

definition hit_uris :: "search_hit list \<Rightarrow> string list" where
  "hit_uris items = add_new [] (filter (\<lambda>u. u \<noteq> []) (map hit_uri items))"

lemma add_new_append: "add_new acc (xs @ ys) = add_new (add_new acc xs) ys"
  by (induction acc xs rule: add_new.induct) auto

lemma hit_uris_snoc:
  "hit_uris (pre @ [i]) =
     (if hit_uri i = [] \<or> hit_uri i \<in> set (hit_uris pre) then hit_uris pre else hit_uris pre @ [hit_uri i])"
  by (auto simp: hit_uris_def add_new_append)

lemma distinct_hit_uris: "distinct (hit_uris items)"
  by (simp add: hit_uris_def distinct_add_new)

lemma set_hit_uris: "set (hit_uris items) = hit_uri ` set items - {[]}"
  by (auto simp: hit_uris_def)

lemma best_hit_other: "hit_uri i \<noteq> u \<Longrightarrow> best_hit u (pre @ [i]) = best_hit u pre"
  by (simp add: best_hit_def)

lemma best_hit_new: "u \<notin> hit_uri ` set pre \<Longrightarrow> hit_uri i = u \<Longrightarrow> best_hit u (pre @ [i]) = i"
proof -
  assume "u \<notin> hit_uri ` set pre" "hit_uri i = u"
  then have "filter (\<lambda>i. hit_uri i = u) (pre @ [i]) = [i]" by (auto simp: filter_empty_conv image_iff)
  then show ?thesis by (simp add: best_hit_def)
qed

lemma best_hit_spec:
  assumes "u \<in> hit_uri ` set pre"
  shows "best_hit u pre \<in> set pre \<and> hit_uri (best_hit u pre) = u
    \<and> hit_score (best_hit u pre) = Max (hit_score ` set (filter (\<lambda>i. hit_uri i = u) pre))"
proof -
  let ?hs = "filter (\<lambda>i. hit_uri i = u) pre" and ?M = "Max (hit_score ` set (filter (\<lambda>i. hit_uri i = u) pre))"
  have "set ?hs \<noteq> {}" using assms by auto
  then have "?M \<in> hit_score ` set ?hs" by (intro Max_in) auto
  then have "filter (\<lambda>i. hit_score i = ?M) ?hs \<noteq> []" by (auto simp: filter_empty_conv)
  then have "hd (filter (\<lambda>i. hit_score i = ?M) ?hs) \<in> set (filter (\<lambda>i. hit_score i = ?M) ?hs)" by (rule hd_in_set)
  then show ?thesis by (simp add: best_hit_def)
qed

lemma best_hit_again:
  assumes "u \<in> hit_uri ` set pre" and "hit_uri i = u"
  shows "best_hit u (pre @ [i]) = (if hit_score i > hit_score (best_hit u pre) then i else best_hit u pre)"
proof -
  let ?hs = "filter (\<lambda>i. hit_uri i = u) pre" and ?M = "Max (hit_score ` set (filter (\<lambda>i. hit_uri i = u) pre))"
  have ne: "set ?hs \<noteq> {}" using assms by auto
  note b = best_hit_spec [OF assms(1)]
  have "Max (hit_score ` set (filter (\<lambda>i. hit_uri i = u) (pre @ [i]))) = max (hit_score i) ?M"
    using assms(2) ne by simp
  then have eq: "best_hit u (pre @ [i]) = hd (filter (\<lambda>j. hit_score j = max (hit_score i) ?M) (?hs @ [i]))"
    using assms(2) by (simp only: best_hit_def Let_def filter_append) simp
  show ?thesis
  proof (cases "hit_score i > ?M")
    case True
    then have "filter (\<lambda>j. hit_score j = hit_score i) ?hs = []"
      using ne by (auto simp: filter_empty_conv)
    with True b show ?thesis unfolding eq by (simp add: max_def)
  next
    case False
    then have "max (hit_score i) ?M = ?M" by simp
    moreover have "filter (\<lambda>j. hit_score j = ?M) ?hs \<noteq> []"
      using best_hit_spec [OF assms(1)] by (auto simp: filter_empty_conv)
    ultimately show ?thesis using False b unfolding eq by (simp add: hd_append best_hit_def Let_def)
  qed
qed

definition state_of :: "search_hit list \<Rightarrow> (string \<times> nat) list \<times> search_hit list" where
  "state_of pre = (zip (hit_uris pre) [0 ..< length (hit_uris pre)], map (\<lambda>u. best_hit u pre) (hit_uris pre))"

lemma keep_best_step:
  "state_of pre = (positions, out) \<Longrightarrow> state_of (pre @ [item]) = (positions', out')
     \<Longrightarrow> keep_best positions out (item # items) = keep_best positions' out' items"
proof -
  assume 1: "state_of pre = (positions, out)" and 2: "state_of (pre @ [item]) = (positions', out')"
  define us where "us = hit_uris pre"
  let ?u = "hit_uri item"
  have p: "positions = zip us [0 ..< length us]" and out: "out = map (\<lambda>u. best_hit u pre) us"
    using 1 by (auto simp: state_of_def us_def)
  have d: "distinct us" unfolding us_def by (rule distinct_hit_uris)
  have mem: "u \<in> set us \<longleftrightarrow> u \<in> hit_uri ` set pre \<and> u \<noteq> []" for u
    unfolding us_def set_hit_uris by auto
  show ?thesis
  proof (cases "?u = [] \<or> ?u \<in> set us")
    case same: True
    then have us': "hit_uris (pre @ [item]) = us" by (simp add: hit_uris_snoc us_def)
    have p': "positions' = positions" and o': "out' = map (\<lambda>u. best_hit u (pre @ [item])) us"
      using 2 unfolding state_of_def us' p by auto
    show ?thesis
    proof (cases "?u = []")
      case True
      then have "\<forall>u \<in> set us. ?u \<noteq> u" using mem by auto
      then have "out' = out" unfolding o' out by (auto intro!: best_hit_other)
      with p' True show ?thesis by simp
    next
      case False
      with same obtain i where i: "i < length us" "us ! i = ?u" by (auto simp: in_set_conv_nth)
      have m: "map_of positions ?u = Some i"
        using map_of_zip_nth [of us "[0 ..< length us]" i] d i by (simp add: p)
      have "?u \<in> hit_uri ` set pre" using same False mem by blast
      note again = best_hit_again [OF this refl]
      have oi: "out ! i = best_hit ?u pre" using i by (simp add: out)
      have other: "best_hit (us ! j) (pre @ [item]) = best_hit (us ! j) pre" if "j < length us" "j \<noteq> i" for j
      proof (rule best_hit_other)
        show "?u \<noteq> us ! j" using that i d by (metis nth_eq_iff_index_eq)
      qed
      have "out' = (if hit_score item > hit_score (out ! i) then out[i := item] else out)"
        unfolding oi o' out using i again other
        by (intro nth_equalityI) (auto simp: nth_list_update)
      with p' m False show ?thesis by simp
    qed
  next
    case False
    then have us': "hit_uris (pre @ [item]) = us @ [?u]" by (simp add: hit_uris_snoc us_def)
    have new: "?u \<notin> hit_uri ` set pre" using False mem by blast
    have "positions' = positions @ [(?u, length out)]"
      using 2 unfolding state_of_def us' p out by (auto simp: zip_append)
    moreover have "out' = out @ [item]"
    proof -
      have "out' = map (\<lambda>u. best_hit u (pre @ [item])) us @ [best_hit ?u (pre @ [item])]"
        using 2 unfolding state_of_def us' by auto
      moreover have "map (\<lambda>u. best_hit u (pre @ [item])) us = out"
        unfolding out using False by (auto intro!: best_hit_other)
      ultimately show ?thesis using best_hit_new [OF new refl] by simp
    qed
    moreover have "map_of positions ?u = None"
      using False by (auto simp: p map_of_eq_None_iff dest: set_zip_leftD)
    ultimately show ?thesis using False by simp
  qed
qed

lemma keep_best_spec:
  "state_of pre = (positions, out) \<Longrightarrow> keep_best positions out items = snd (state_of (pre @ items))"
proof (induction items arbitrary: pre positions out)
  case (Cons item items)
  obtain p' o' where n: "state_of (pre @ [item]) = (p', o')" by force
  from keep_best_step [OF Cons.prems n] Cons.IH [OF n] show ?case by simp
qed simp

text \<open>C30: \<open>dedupe_keep_best\<close> is its specification. The one-pass loop over positions gives, for every
  distinct non-empty URI in the order of its first occurrence, the first hit among those of the highest score for that URI.\<close>

theorem dedupe_keep_best_reference:
  "dedupe_keep_best items = map (\<lambda>u. best_hit u items) (hit_uris items)"
proof -
  have "state_of [] = ([], [])" by (simp add: state_of_def hit_uris_def)
  from keep_best_spec [OF this, of items] show ?thesis by (simp add: dedupe_keep_best_def state_of_def)
qed

section \<open>What a candidate is\<close>

text \<open>The buckets a candidate may come from: those with a quota, or the three result lists of the flat search.\<close>

definition is_built :: "gather_env \<Rightarrow> string option set \<Rightarrow> candidate \<Rightarrow> bool" where
  "is_built env bs c \<longleftrightarrow> (\<exists>item b. b \<in> bs \<and> build_one env item b = Built c)"

lemma build_all_built:
  "c \<in> set (fst (build_all env items)) \<Longrightarrow> snd ` set items \<subseteq> bs \<Longrightarrow> is_built env bs c"
proof -
  assume c: "c \<in> set (fst (build_all env items))" and bs: "snd ` set items \<subseteq> bs"
  from c obtain item b where "(item, b) \<in> set items" "built_candidate (build_one env item b) = Some c"
    by (auto simp: build_all_def Let_def map_filter_def)
  then show ?thesis using bs unfolding is_built_def
    by (intro exI [of _ item] exI [of _ b]) (auto elim: built_candidate.elims)
qed

lemma set_sort_candidates [simp]: "set (sort_candidates cs) = set cs"
  by (simp add: sort_candidates_def)

lemma build_ranked_spec:
  assumes "snd ` set items \<subseteq> bs"
  shows "\<forall>c \<in> set (fst (build_ranked env want items)). is_built env bs c"
    and "length (fst (build_ranked env want items)) \<le> nat (max 0 want)"
    and "sorted (map rank_key (fst (build_ranked env want items)))"
proof -
  show "\<forall>c \<in> set (fst (build_ranked env want items)). is_built env bs c"
  proof
    fix c assume "c \<in> set (fst (build_ranked env want items))"
    then have "c \<in> set (fst (build_all env items))"
      using set_take_subset [of "nat (max 0 want)" "sort_candidates (fst (build_all env items))"]
      by (auto simp: build_ranked_def)
    then show "is_built env bs c" using assms by (rule build_all_built)
  qed
  show "length (fst (build_ranked env want items)) \<le> nat (max 0 want)" by (simp add: build_ranked_def)
  show "sorted (map rank_key (fst (build_ranked env want items)))"
    by (simp add: build_ranked_def sort_candidates_def sorted_wrt_take take_map [symmetric])
qed

lemma gather_bucket_built:
  assumes "gather_bucket find_fn env b q = Inr (cs, n, x, e)"
  shows "\<forall>c \<in> set cs. is_built env {Some b} c" and "length cs \<le> nat (max 0 q)"
proof -
  from assms obtain items where cs: "cs = fst (build_ranked env q (map (\<lambda>item. (item, Some b)) items))"
    by (auto simp: gather_bucket_def Let_def bind_res_Inr_iff)
  have "snd ` set (map (\<lambda>item. (item, Some b)) items) \<subseteq> {Some b}" by auto
  note r = build_ranked_spec [OF this, of env q]
  show "\<forall>c \<in> set cs. is_built env {Some b} c" unfolding cs by (rule r(1))
  show "length cs \<le> nat (max 0 q)" unfolding cs by (rule r(2))
qed

lemma flat_hits_buckets: "(i, b) \<in> set (flat_hits env k results) \<Longrightarrow> b \<in> {None, Some ''resources'', Some ''skills''}"
  by (auto simp: flat_hits_def)

lemma first_bucket_range:
  "snd ` set hits \<subseteq> bs \<Longrightarrow> None \<in> bs \<Longrightarrow> first_bucket hits item \<in> bs"
proof (cases "map_of (map (\<lambda>(i, b). (hit_uri i, b)) hits) (hit_uri item)")
  case (Some b)
  assume "snd ` set hits \<subseteq> bs"
  with map_of_SomeD [OF Some] show ?thesis by (auto simp: first_bucket_def Some)
qed (simp add: first_bucket_def)

lemma gather_flat_built:
  assumes "gather_flat find_fn env q = Inr (cs, n, x, e)"
  shows "\<forall>c \<in> set cs. is_built env {None, Some ''resources'', Some ''skills''} c" and "length cs \<le> nat (max 0 q)"
    and "sorted (map rank_key cs)"
proof -
  let ?bs = "{None, Some ''resources'', Some ''skills''}"
  from assms obtain k results items where
    cs: "cs = fst (build_ranked env q (map (\<lambda>item. (item, first_bucket (flat_hits env k results) item)) items))"
    by (auto simp: gather_flat_def Let_def bind_res_Inr_iff)
  have "snd ` set (flat_hits env k results) \<subseteq> ?bs" using flat_hits_buckets by fastforce
  then have fb: "first_bucket (flat_hits env k results) item \<in> ?bs" for item
    by (rule first_bucket_range) simp
  have "snd ` set (map (\<lambda>item. (item, first_bucket (flat_hits env k results) item)) items) \<subseteq> ?bs"
    unfolding set_map image_image snd_conv by (intro image_subsetI fb)
  note r = build_ranked_spec [OF this, of env q]
  show "\<forall>c \<in> set cs. is_built env ?bs c" unfolding cs by (rule r(1))
  show "length cs \<le> nat (max 0 q)" unfolding cs by (rule r(2))
  show "sorted (map rank_key cs)" unfolding cs by (rule r(3))
qed

lemma gather_buckets_built:
  "gather_buckets find_fn env qs = Inr gs \<Longrightarrow>
     (\<forall>(b, cs, n, x, e) \<in> set gs. \<forall>c \<in> set cs. is_built env (Some ` fst ` set qs) c)
     \<and> length (concat (map (\<lambda>(b, cs, n, x, e). cs) gs)) \<le> sum_list (map (\<lambda>(b, q). nat (max 0 q)) qs)"
proof (induction find_fn env qs arbitrary: gs rule: gather_buckets.induct)
  case (2 find_fn env b q rest)
  then obtain cs n x e gs' where g: "gather_bucket find_fn env b q = Inr (cs, n, x, e)"
    and r: "gather_buckets find_fn env rest = Inr gs'" and gs: "gs = (b, cs, n, x, e) # gs'"
    by (auto simp: bind_res_Inr_iff)
  note IH = 2(1) [OF g r]
  have m: "is_built env {Some b} c \<Longrightarrow> is_built env (Some ` fst ` set ((b, q) # rest)) c" for c
    by (auto simp: is_built_def)
  have m': "is_built env (Some ` fst ` set rest) c \<Longrightarrow> is_built env (Some ` fst ` set ((b, q) # rest)) c" for c
    unfolding is_built_def by (metis image_insert insertCI list.simps(15))
  show ?case using IH gather_bucket_built [OF g] m m' by (auto simp: gs)
qed simp

definition keyed :: "(string \<times> candidate) list \<Rightarrow> bool" where
  "keyed best \<longleftrightarrow> distinct (map fst best) \<and> (\<forall>(k, c) \<in> set best. k = c_base_uri c)"

lemma keyed_update:
  assumes "keyed best" and "map_of best (c_base_uri c) = Some d"
  shows "keyed (AList.update (c_base_uri c) c best)"
    and "snd ` set (AList.update (c_base_uri c) c best) \<subseteq> insert c (snd ` set best)"
    and "length (AList.update (c_base_uri c) c best) = length best"
proof -
  show "keyed (AList.update (c_base_uri c) c best)"
    using assms(1) by (auto simp: keyed_def distinct_update dest!: set_update_values)
  show "snd ` set (AList.update (c_base_uri c) c best) \<subseteq> insert c (snd ` set best)"
    by (auto dest!: set_update_values intro: rev_image_eqI)
  have "c_base_uri c \<in> fst ` set best" using map_of_SomeD [OF assms(2)] by force
  then have "map fst (AList.update (c_base_uri c) c best) = map fst best" by (rule map_fst_update_present)
  then show "length (AList.update (c_base_uri c) c best) = length best" by (metis length_map)
qed

lemma best_candidates_spec:
  "keyed best \<Longrightarrow>
     keyed (best_candidates best cs)
     \<and> snd ` set (best_candidates best cs) \<subseteq> snd ` set best \<union> set cs
     \<and> length (best_candidates best cs) \<le> length best + length cs"
proof (induction best cs rule: best_candidates.induct)
  case (2 best c cs)
  show ?case
  proof (cases "map_of best (c_base_uri c)")
    case None
    then have "keyed (best @ [(c_base_uri c, c)])"
      using 2(3) by (auto simp: keyed_def map_of_eq_None_iff)
    note 2(1) [OF None this]
    with None show ?thesis by auto
  next
    case (Some d)
    let ?b = "if c_score c > c_score d then AList.update (c_base_uri c) c best else best"
    have b: "keyed ?b" "snd ` set ?b \<subseteq> insert c (snd ` set best)" "length ?b = length best"
      using keyed_update [OF 2(3) Some] 2(3) by auto
    have e: "best_candidates best (c # cs) = best_candidates ?b cs" using Some by simp
    note IH = 2(2) [OF Some b(1)]
    have "snd ` set (best_candidates ?b cs) \<subseteq> snd ` set ?b \<union> set cs" using IH by (rule conjunct1 [OF conjunct2])
    also have "\<dots> \<subseteq> insert c (snd ` set best) \<union> set cs" by (rule Un_mono [OF b(2) order_refl])
    also have "\<dots> = snd ` set best \<union> set (c # cs)" by simp
    finally have sub: "snd ` set (best_candidates ?b cs) \<subseteq> snd ` set best \<union> set (c # cs)" .
    have "length (best_candidates ?b cs) \<le> length best + length cs"
      using conjunct2 [OF conjunct2 [OF IH]] unfolding b(3) .
    then show ?thesis unfolding e using conjunct1 [OF IH] sub by simp
  qed
qed auto

lemma dedupe_candidates_spec:
  shows "distinct (map c_base_uri (dedupe_candidates cs))" and "set (dedupe_candidates cs) \<subseteq> set cs"
  and "length (dedupe_candidates cs) \<le> length cs"
proof -
  have "keyed []" by (simp add: keyed_def)
  note s = best_candidates_spec [OF this, of cs, simplified]
  have "map c_base_uri (dedupe_candidates cs) = map fst (best_candidates [] cs)"
    using s by (auto simp: dedupe_candidates_def keyed_def)
  with s show "distinct (map c_base_uri (dedupe_candidates cs))" by (simp add: keyed_def)
  show "set (dedupe_candidates cs) \<subseteq> set cs" using s by (auto simp: dedupe_candidates_def)
  show "length (dedupe_candidates cs) \<le> length cs" using s by (simp add: dedupe_candidates_def)
qed

section \<open>Properties of gathering\<close>

lemma built_fields:
  assumes "build_one env item b = Built c"
  shows "c_uri c = hit_uri item" and "c_base_uri c = fst (strip_level_suffix (hit_uri item))"
    and "c_category c = category_for item b" and "cps (c_uri c) \<notin> g_excluded env" and "cps (c_base_uri c) \<notin> g_excluded env"
    and "c_origin c = origin_for_uri (c_base_uri c) (rc_actor_peer_id (g_ctx env)) (canonical_user_root (g_ctx env))"
    and "c_read_ctx c = (if c_origin c = ''other_peer'' then open_ctx env else g_ctx env)"
    and "\<not> endswith (c_base_uri c) ''/profile.md''"
  using assms by (auto simp: build_one_def Let_def split: if_splits prod.splits)

lemma category_for_reported:
  "b \<in> insert None (Some ` set CATEGORY_KEYS) \<Longrightarrow> category_for item b \<in> set REPORTED_CATEGORY_KEYS"
proof (cases b)
  case None
  then show ?thesis
    by (auto simp: category_for_def truthy_str_def Let_def REPORTED_CATEGORY_KEYS_def CATEGORY_KEYS_def
        split: option.splits)
next
  case (Some k)
  assume "b \<in> insert None (Some ` set CATEGORY_KEYS)"
  with Some have "k \<in> set CATEGORY_KEYS" by auto
  moreover from this have "k \<noteq> []" by (auto simp: CATEGORY_KEYS_def MEMORY_CATEGORIES_def)
  ultimately show ?thesis using Some by (simp add: category_for_def truthy_str_def REPORTED_CATEGORY_KEYS_def)
qed

text \<open>Everything gathered was built from a hit of the flat search or of a bucket with a quota.\<close>

lemma gathered_built:
  assumes "gather_candidates find_fn env quotas_opt want = Inr (cs, st)" and "c \<in> set cs"
    and "\<And>q. quotas_opt = Some q \<Longrightarrow> fst ` set q \<subseteq> set CATEGORY_KEYS"
  shows "is_built env (insert None (Some ` set CATEGORY_KEYS)) c"
proof (cases quotas_opt)
  case None
  with assms(1) obtain n x e where "gather_flat find_fn env want = Inr (cs, n, x, e)"
    by (auto simp: gather_candidates_def bind_res_Inr_iff)
  from gather_flat_built(1) [OF this] assms(2) have "is_built env {None, Some ''resources'', Some ''skills''} c" by blast
  then show ?thesis by (auto simp: is_built_def CATEGORY_KEYS_def)
next
  case (Some qs)
  let ?qs = "filter (\<lambda>(b, q). q > 0) qs"
  from assms(1) Some obtain gs where gs: "gather_buckets find_fn env ?qs = Inr gs"
    and cs: "cs = sort_candidates (dedupe_candidates (concat (map (\<lambda>(b, cs, n, x, e). cs) gs)))"
    by (auto simp: gather_candidates_def bind_res_Inr_iff)
  have "c \<in> set (concat (map (\<lambda>(b, cs, n, x, e). cs) gs))"
    using assms(2) subsetD [OF dedupe_candidates_spec(2)] unfolding cs set_sort_candidates by blast
  then have "is_built env (Some ` fst ` set ?qs) c" using gather_buckets_built [OF gs] by fastforce
  moreover have "Some ` fst ` set ?qs \<subseteq> Some ` set CATEGORY_KEYS" using assms(3) [OF Some] by auto
  ultimately show ?thesis unfolding is_built_def by blast
qed

text \<open>C35: the category of a candidate is declared. Whatever hits the search service returns, and for the
  quotas that \<open>normalize_quotas\<close> gives, each candidate reports one of the categories of the response contract, so
  it has a default tier and an other-peer penalty.\<close>

theorem gathered_category_declared:
  assumes "normalize_quotas qs purpose_opt = Inr quotas_opt"
    and "gather_candidates find_fn env quotas_opt want = Inr (cs, st)" and "c \<in> set cs"
  shows "c_category c \<in> set REPORTED_CATEGORY_KEYS
    \<and> map_of DEFAULT_TIER_BY_CATEGORY (c_category c) \<noteq> None
    \<and> map_of DEFAULT_OTHER_PEER_PENALTIES (c_category c) \<noteq> None"
proof -
  have "fst ` set q \<subseteq> set CATEGORY_KEYS" if "quotas_opt = Some q" for q
    using normalize_quotas_keys assms(1) that by blast
  from gathered_built [OF assms(2,3) this] obtain item b where
    "b \<in> insert None (Some ` set CATEGORY_KEYS)" "build_one env item b = Built c" unfolding is_built_def by blast
  then have "c_category c \<in> set REPORTED_CATEGORY_KEYS"
    using category_for_reported [of b item] built_fields(3) [of env item b c] by simp
  moreover have "list_all (\<lambda>k. map_of DEFAULT_TIER_BY_CATEGORY k \<noteq> None
      \<and> map_of DEFAULT_OTHER_PEER_PENALTIES k \<noteq> None) REPORTED_CATEGORY_KEYS" by code_simp
  ultimately show ?thesis unfolding list_all_iff by blast
qed

definition demo_find :: finder where
  "demo_find req = Inr (Some \<lparr>fr_memories =
       [\<lparr>hit_uri = ''viking://user/alice/memories/events/e1.md'', hit_score = 2/5, hit_abstract = cps ''e1'',
         hit_overview = [], hit_level = 2, hit_category = []\<rparr>,
        \<lparr>hit_uri = ''viking://user/alice/memories/cases/c1.md'', hit_score = 1/2, hit_abstract = cps ''c1'',
         hit_overview = [], hit_level = 2, hit_category = []\<rparr>],
     fr_resources = [], fr_skills = []\<rparr>)"

definition demo_env :: gather_env where
  "demo_env = mk_gather_env \<lparr>rc_user = \<lparr>ui_account_id = ''acme'', ui_user_id = ''alice''\<rparr>, rc_role = USER,
     rc_actor_peer_id = None, rc_from_oauth = False, rc_api_key = None\<rparr> [cps ''q''] None ''all''
     DEFAULT_OTHER_PEER_PENALTIES {}"

lemma demo_gather:
  "map_sum id (\<lambda>(cs, st). map (\<lambda>c. (c_base_uri c, c_category c)) cs) (gather_candidates demo_find demo_env None 10) =
     Inr [(''viking://user/alice/memories/cases/c1.md'', ''memories''), (''viking://user/alice/memories/events/e1.md'', ''events'')]"
  by code_simp

theorem gathered_category_declared_witness:
  "(''memories'' :: string) \<in> set REPORTED_CATEGORY_KEYS"
proof -
  obtain cs st where g: "gather_candidates demo_find demo_env None 10 = Inr (cs, st)"
    and m: "map (\<lambda>c. (c_base_uri c, c_category c)) cs =
      [(''viking://user/alice/memories/cases/c1.md'', ''memories''), (''viking://user/alice/memories/events/e1.md'', ''events'')]"
    using demo_gather by (auto simp: map_sum_def split: sum.splits)
  then obtain c where c: "c \<in> set cs" "c_category c = ''memories''" by (cases cs) auto
  have "normalize_quotas None None = Inr None" by code_simp
  from gathered_category_declared [OF this g c(1)] c(2) show ?thesis by simp
qed

lemma gathered_from_hit:
  assumes "gather_candidates find_fn env quotas_opt want = Inr (cs, st)" and "c \<in> set cs"
  shows "\<exists>item b. build_one env item b = Built c"
proof (cases quotas_opt)
  case None
  with assms(1) obtain n x e where "gather_flat find_fn env want = Inr (cs, n, x, e)"
    by (auto simp: gather_candidates_def bind_res_Inr_iff)
  from gather_flat_built(1) [OF this] assms(2) show ?thesis unfolding is_built_def by blast
next
  case (Some qs)
  let ?qs = "filter (\<lambda>(b, q). q > 0) qs"
  from assms(1) Some obtain gs where gs: "gather_buckets find_fn env ?qs = Inr gs"
    and cs: "cs = sort_candidates (dedupe_candidates (concat (map (\<lambda>(b, cs, n, x, e). cs) gs)))"
    by (auto simp: gather_candidates_def bind_res_Inr_iff)
  have "c \<in> set (concat (map (\<lambda>(b, cs, n, x, e). cs) gs))"
    using assms(2) subsetD [OF dedupe_candidates_spec(2)] unfolding cs set_sort_candidates by blast
  then show ?thesis using conjunct1 [OF gather_buckets_built [OF gs]] unfolding is_built_def by fastforce
qed

text \<open>what gathering returns. The candidates are sorted by their ranked score, best first; none was excluded by
  the caller or the ledger; a candidate of another peer is read with the context without an actor peer and every
  other one with the caller's own; and there are at most as many as the limit, or the quotas together, allow,
  with distinct nodes when there are quotas.\<close>

lemma gather_candidates_sound:
  assumes "gather_candidates find_fn env quotas_opt want = Inr (cs, st)"
  shows "sorted_wrt (\<lambda>c d. c_ranked_score c \<ge> c_ranked_score d) cs
    \<and> (case quotas_opt of None \<Rightarrow> int (length cs) \<le> max 0 want
       | Some qs \<Rightarrow> distinct (map c_base_uri cs) \<and> length cs \<le> sum_list (map (\<lambda>(b, q). nat q) (filter (\<lambda>(b, q). q > 0) qs)))
    \<and> list_all (\<lambda>c. cps (c_uri c) \<notin> g_excluded env \<and> cps (c_base_uri c) \<notin> g_excluded env
        \<and> c_read_ctx c = (if c_origin c = ''other_peer'' then open_ctx env else g_ctx env)) cs"
proof -
  have key: "sorted_wrt (\<lambda>c d. c_ranked_score c \<ge> c_ranked_score d) cs" if "sorted (map rank_key cs)" for cs
    using that unfolding sorted_map
    by (rule sorted_wrt_mono_rel [rotated]) (auto simp: rank_key_def less_eq_prod_def)
  have fields: "list_all (\<lambda>c. cps (c_uri c) \<notin> g_excluded env \<and> cps (c_base_uri c) \<notin> g_excluded env
        \<and> c_read_ctx c = (if c_origin c = ''other_peer'' then open_ctx env else g_ctx env)) cs"
    unfolding list_all_iff using gathered_from_hit [OF assms] built_fields(4,5,7) by blast
  show ?thesis
  proof (cases quotas_opt)
    case None
    with assms obtain n x e where "gather_flat find_fn env want = Inr (cs, n, x, e)"
      by (auto simp: gather_candidates_def bind_res_Inr_iff)
    note f = gather_flat_built [OF this]
    have "int (length cs) \<le> max 0 want" using f(2) by linarith
    then show ?thesis using key [OF f(3)] fields None by simp
  next
    case (Some qs)
    let ?qs = "filter (\<lambda>(b, q). q > 0) qs"
    from assms Some obtain gs where gs: "gather_buckets find_fn env ?qs = Inr gs"
      and cs: "cs = sort_candidates (dedupe_candidates (concat (map (\<lambda>(b, cs, n, x, e). cs) gs)))"
      by (auto simp: gather_candidates_def bind_res_Inr_iff)
    let ?cc = "concat (map (\<lambda>(b, cs, n, x, e). cs) gs)"
    note b = gather_buckets_built [OF gs] and d = dedupe_candidates_spec
    have "sum_list (map (\<lambda>(b, q). nat (max 0 q)) ?qs) = sum_list (map (\<lambda>(b, q). nat q) ?qs)"
      by (rule arg_cong [of _ _ sum_list]) auto
    then have len: "length cs \<le> sum_list (map (\<lambda>(b, q). nat q) ?qs)"
      using conjunct2 [OF b] d(3) [of ?cc] unfolding cs sort_candidates_def by simp
    have "distinct (map c_base_uri cs)"
      using d(1) [of ?cc] unfolding cs sort_candidates_def by (simp add: distinct_map)
    moreover have "sorted (map rank_key cs)" by (simp add: cs sort_candidates_def)
    ultimately show ?thesis using key fields Some len by simp
  qed
qed

end
