(* ===== verification/Overview_Text.thy ===== *)
theory Overview_Text
  imports Py_Values
begin

text \<open>
  Overview extraction from a content, the text functions of
  \<open>openviking/retrieve/context_assembler/tiers.py\<close>. The regular expressions of the module are written out as
  functions on lines and suffixes; each comment says why the greedy or lazy choice is the one taken. Digits are the ASCII ones.
\<close>

definition OVERVIEW_HEADING_LIMIT :: nat where
  "OVERVIEW_HEADING_LIMIT = 24"

definition OVERVIEW_PARAGRAPH_CHARS :: nat where
  "OVERVIEW_PARAGRAPH_CHARS = 400"

section \<open>Pieces of the regular expressions\<close>

text \<open>The case folding of \<open>re.IGNORECASE\<close> on the letters that occur: besides ASCII, the dotted and dotless I and the long S.\<close>

definition fold_cp :: "nat \<Rightarrow> nat" where
  "fold_cp c = (if c = 0x130 \<or> c = 0x131 then 105 else if c = 0x17F then 115 else lower_cp c)"

definition ci_prefix :: "string \<Rightarrow> utext \<Rightarrow> bool" where
  "ci_prefix w t \<longleftrightarrow> map fold_cp (take (length w) t) = map fold_cp (cps w)"

definition is_blank :: "nat \<Rightarrow> bool" where
  "is_blank c \<longleftrightarrow> c = 32 \<or> c = 9"

fun split_lines_nl :: "utext \<Rightarrow> utext list" where
  "split_lines_nl [] = [[]]"
| "split_lines_nl (c # cs) =
     (if c = 10 then [] # split_lines_nl cs
      else (case split_lines_nl cs of [] \<Rightarrow> [[c]] | l # ls \<Rightarrow> (c # l) # ls))"

fun join_nl :: "utext list \<Rightarrow> utext" where
  "join_nl [] = []"
| "join_nl [l] = l"
| "join_nl (l # m # ls) = l @ 10 # join_nl (m # ls)"

text \<open>The number of \<open>#\<close> at the start of a line, if it is 1 to 3. A fourth one makes the patterns fail, since none of
  them allows \<open>#\<close> after the hashes.\<close>

definition hashes :: "utext \<Rightarrow> nat option" where
  "hashes l = (let n = length (takeWhile (\<lambda>c. c = 35) l) in if 1 \<le> n \<and> n \<le> 3 then Some n else None)"

section \<open>The summary section\<close>

definition is_summary_heading :: "utext \<Rightarrow> bool" where
  "is_summary_heading l =
     (case hashes l of
        None \<Rightarrow> False
      | Some n \<Rightarrow>
          let r = dropWhile is_blank (drop n l)
          in ci_prefix ''Summary'' r \<and> list_all is_blank (drop 7 r))"

definition starts_heading :: "utext \<Rightarrow> bool" where
  "starts_heading l = (case hashes l of None \<Rightarrow> False | Some n \<Rightarrow> drop n l \<noteq> [] \<and> is_blank (l ! n))"

text \<open>
  \<open>_SUMMARY_SECTION.search\<close>: the first summary heading that a line break follows; its body runs lazily up to the next
  line that starts a heading, or to the end.
\<close>

fun summary_section :: "utext list \<Rightarrow> utext option" where
  "summary_section [] = None"
| "summary_section (l # ls) =
     (if is_summary_heading l \<and> ls \<noteq> []
      then Some (strip_text (join_nl (takeWhile (\<lambda>m. \<not> starts_heading m) ls)))
      else summary_section ls)"

text \<open>A date \<open>dddd-dd-dd\<close> at the start of a text: the rest after it.\<close>

definition after_date :: "utext \<Rightarrow> utext option" where
  "after_date t =
     (if 10 \<le> length t
         \<and> list_all (\<lambda>(i, c). if i = 4 \<or> i = 7 then c = 45 else is_digit_cp c) (zip [0 ..< 10] t)
      then Some (drop 10 t) else None)"

text \<open>An optional parenthesis after white space. Where one opens, the pattern fails without it.\<close>

definition after_paren :: "utext \<Rightarrow> utext" where
  "after_paren t =
     (let r = lstrip_text t
      in case r of
           [] \<Rightarrow> t
         | c # cs \<Rightarrow>
             if c = 40 \<and> takeWhile (\<lambda>x. x \<noteq> 41) cs \<noteq> [] \<and> dropWhile (\<lambda>x. x \<noteq> 41) cs \<noteq> []
             then tl (dropWhile (\<lambda>x. x \<noteq> 41) cs) else t)"

text \<open>The end of an inline summary at a position: one of the three markers after a line break, or \<open>$\<close>.\<close>

definition inline_end :: "utext \<Rightarrow> bool" where
  "inline_end t =
     (t = [] \<or> t = [10]
      \<or> (hd t = 10
         \<and> (let r = lstrip_text (tl t)
            in (case after_date r of None \<Rightarrow> False | Some d \<Rightarrow> ci_prefix ''ChatLog:'' (lstrip_text (after_paren d)))
               \<or> ci_prefix ''ChatLog:'' r
               \<or> (ci_prefix ''<!--'' r \<and> ci_prefix ''MEMORY_FIELDS'' (lstrip_text (drop 4 r))))))"

fun until_inline_end :: "utext \<Rightarrow> utext" where
  "until_inline_end [] = []"
| "until_inline_end (c # cs) = (if inline_end (c # cs) then [] else c # until_inline_end cs)"

text \<open>\<open>re.sub(r"\s+", " ", s)\<close>.\<close>

fun squeeze :: "utext \<Rightarrow> utext" where
  "squeeze [] = []"
| "squeeze (c # cs) =
     (if is_space_cp c then (case cs of d # ds \<Rightarrow> if is_space_cp d then squeeze cs else 32 # squeeze cs | [] \<Rightarrow> [32])
      else c # squeeze cs)"

text \<open>\<open>_SUMMARY_INLINE\<close>, which without \<open>MULTILINE\<close> only matches at the start of the text. The white space after the
  colon is taken greedily and the lazy group can always end, so nothing is given back.\<close>

definition summary_inline :: "utext \<Rightarrow> utext option" where
  "summary_inline body =
     (let r = lstrip_text body
      in if ci_prefix ''Summary:'' r
         then Some (strip_text (squeeze (until_inline_end (lstrip_text (drop 8 r)))))
         else None)"

definition extract_summary_section :: "utext \<Rightarrow> utext" where
  "extract_summary_section body =
     (if body = [] then []
      else case summary_section (split_lines_nl body) of
          Some s \<Rightarrow> s
        | None \<Rightarrow> (case summary_inline body of Some s \<Rightarrow> s | None \<Rightarrow> []))"

section \<open>The document skeleton\<close>

text \<open>
  \<open>_HEADING_LINE\<close> on one line: hashes, blanks, a title and trailing blanks. A line of hashes and at least two
  blanks gives the last blank as its title, because the title needs one character.
\<close>

definition heading_line :: "utext \<Rightarrow> (nat \<times> utext) option" where
  "heading_line l =
     (case hashes l of
        None \<Rightarrow> None
      | Some n \<Rightarrow>
          let r = drop n l; title = dropWhile is_blank r
          in if r = [] \<or> \<not> is_blank (hd r) then None
             else if title \<noteq> [] then Some (n, rev (dropWhile is_blank (rev title)))
             else if 2 \<le> length r then Some (n, [last r]) else None)"

definition outline_line :: "nat \<times> utext \<Rightarrow> utext" where
  "outline_line h =
     (case h of (n, title) \<Rightarrow> concat (replicate (n - 1) [32, 32]) @ replicate n 35 @ [32] @ title)"

text \<open>\<open>re.split(r"\n\s*\n", body)\<close>: at a line break, the white space after it up to its last line break.\<close>

definition blank_gap :: "utext \<Rightarrow> utext option" where
  "blank_gap t =
     (case t of
        [] \<Rightarrow> None
      | c # cs \<Rightarrow>
          let w = takeWhile is_space_cp cs
          in if c = 10 \<and> 10 \<in> set w then Some (drop (length w - length (takeWhile (\<lambda>x. x \<noteq> 10) (rev w))) cs)
             else None)"

lemma blank_gap_shorter: "blank_gap t = Some r \<Longrightarrow> length r < length t"
  by (auto simp: blank_gap_def Let_def split: list.splits if_splits)

function split_blocks :: "utext \<Rightarrow> utext list" where
  "split_blocks t =
     (case blank_gap t of
        Some r \<Rightarrow> [] # split_blocks r
      | None \<Rightarrow>
          (case t of [] \<Rightarrow> [[]]
           | c # cs \<Rightarrow> (case split_blocks cs of [] \<Rightarrow> [[c]] | b # bs \<Rightarrow> (c # b) # bs)))"
  by pat_completeness auto
termination
  by (relation "measure length") (auto dest: blank_gap_shorter)

declare split_blocks.simps [simp del]

definition is_line_break :: "nat \<Rightarrow> bool" where
  "is_line_break c \<longleftrightarrow> (10 \<le> c \<and> c \<le> 13) \<or> (28 \<le> c \<and> c \<le> 30) \<or> c = 0x85 \<or> c = 0x2028 \<or> c = 0x2029"

text \<open>\<open>str.splitlines\<close>: no empty line after a final break; a carriage return and line feed are one break.\<close>

fun splitlines :: "utext \<Rightarrow> utext list" where
  "splitlines [] = []"
| "splitlines (c # cs) =
     (if is_line_break c then
        (if c = 13 then (case cs of d # ds \<Rightarrow> if d = 10 then [] # splitlines ds else [] # splitlines cs | [] \<Rightarrow> [[]])
         else [] # splitlines cs)
      else (case splitlines cs of [] \<Rightarrow> [[c]] | l # ls \<Rightarrow> (c # l) # ls))"

definition block_paragraph :: "utext \<Rightarrow> utext" where
  "block_paragraph block =
     strip_text (join_nl (filter (\<lambda>l. take 1 (lstrip_text l) \<noteq> [35]) (splitlines (strip_text block))))"

definition first_paragraph :: "utext \<Rightarrow> utext" where
  "first_paragraph body =
     (case filter (\<lambda>p. p \<noteq> []) (map block_paragraph (split_blocks body)) of
        [] \<Rightarrow> []
      | p # _ \<Rightarrow> take OVERVIEW_PARAGRAPH_CHARS p)"

definition outline :: "utext \<Rightarrow> utext list" where
  "outline body =
     take OVERVIEW_HEADING_LIMIT (map outline_line (List.map_filter heading_line (split_lines_nl body)))"

definition doc_overview :: "utext \<Rightarrow> utext" where
  "doc_overview body =
     (if body = [] then []
      else
        let parts = filter (\<lambda>p. p \<noteq> []) [join_nl (outline body), first_paragraph body]
        in strip_text (case parts of [] \<Rightarrow> [] | [p] \<Rightarrow> p | p # q # _ \<Rightarrow> p @ [10, 10] @ q))"

end
