(* ===== verification/Context_Tiers.thy ===== *)
theory Context_Tiers
  imports Context_Gather Context_Render Overview_Text
begin

text \<open>
  Detail tiers of a candidate, \<open>openviking/retrieve/context_assembler/tiers.py\<close>: the tier a candidate starts at, how far
  it may deepen, and the text of each tier. Other modules that the code calls are the fields of \<open>content_env\<close>: reading
  a file, the visible body of an overview sidecar (which raises on malformed front matter), the
  code skeleton and the memory file format.
\<close>

record content_env =
  ce_read :: "string \<Rightarrow> request_context \<Rightarrow> utext res"
  ce_memory_body :: "string \<Rightarrow> utext \<Rightarrow> utext res"
  ce_body_for_preview :: "utext \<Rightarrow> utext res"
  ce_supports_code :: "string \<Rightarrow> bool"
  ce_skeleton :: "string \<Rightarrow> utext \<Rightarrow> utext option"

definition filename_from_uri :: "string \<Rightarrow> string" where
  "filename_from_uri uri =
     (if uri \<noteq> [] then last (split_on (CHR ''/'') (rstrip_by is_slash uri)) else [])"

definition is_memory_uri :: "string \<Rightarrow> bool" where
  "is_memory_uri uri \<longleftrightarrow> find_str ''/memories/'' uri \<noteq> None"

definition overview_from_content :: "content_env \<Rightarrow> candidate \<Rightarrow> utext \<Rightarrow> utext res" where
  "overview_from_content env c body =
     (if body = [] then Inr []
      else if c_is_directory c then bind_res (ce_body_for_preview env body) (\<lambda>b. Inr (strip_text b))
      else
        let skeleton = (if ce_supports_code env (c_base_uri c)
                        then (case ce_skeleton env (filename_from_uri (c_base_uri c)) body of Some t \<Rightarrow> t | None \<Rightarrow> [])
                        else [])
        in if skeleton \<noteq> [] then Inr (strip_text skeleton)
           else
             let summary = (if is_memory_uri (c_base_uri c) then extract_summary_section body else [])
             in Inr (if summary \<noteq> [] then summary else doc_overview body))"

definition content_uri_for :: "candidate \<Rightarrow> string" where
  "content_uri_for c = (if c_is_directory c then c_base_uri c @ ''/.overview.md'' else c_base_uri c)"

section \<open>Reading the bodies\<close>

fun wanted_reads :: "string list \<Rightarrow> candidate list \<Rightarrow> candidate list" where
  "wanted_reads seen [] = []"
| "wanted_reads seen (c # cs) =
     (if content_uri_for c \<in> set seen then wanted_reads seen cs
      else c # wanted_reads (content_uri_for c # seen) cs)"

definition read_one :: "content_env \<Rightarrow> candidate \<Rightarrow> string \<times> utext" where
  "read_one env c =
     (let uri = content_uri_for c
      in case ce_read env uri (c_read_ctx c) of
          Inl _ \<Rightarrow> (uri, [])
        | Inr body \<Rightarrow>
            (uri, if body \<noteq> [] \<and> is_memory_uri uri \<and> \<not> c_is_directory c
                  then (case ce_memory_body env uri body of Inl _ \<Rightarrow> body | Inr b \<Rightarrow> b) else body))"

definition prefetch_contents :: "content_env \<Rightarrow> candidate list \<Rightarrow> (string \<times> utext) list" where
  "prefetch_contents env candidates = map (read_one env) (wanted_reads [] candidates)"

section \<open>Tiers\<close>

definition none_if_empty :: "utext \<Rightarrow> utext option" where
  "none_if_empty t = (if t = [] then None else Some t)"

definition content_of_uri :: "(string \<times> utext) list \<Rightarrow> string \<Rightarrow> utext" where
  "content_of_uri contents uri = (case map_of contents uri of Some t \<Rightarrow> t | None \<Rightarrow> [])"

definition tier_text :: "content_env \<Rightarrow> (string \<times> utext) list \<Rightarrow> candidate \<Rightarrow> tier \<Rightarrow> utext option res" where
  "tier_text env contents c t =
     (case t of
        TUri \<Rightarrow> Inr (Some [])
      | TAbstract \<Rightarrow> Inr (none_if_empty (strip_text (c_abstract c)))
      | TOverview \<Rightarrow>
          bind_res (overview_from_content env c (content_of_uri contents (content_uri_for c))) (\<lambda>o_text. Inr (none_if_empty o_text))
      | TFull \<Rightarrow>
          if c_is_directory c then Inr None
          else Inr (none_if_empty (strip_text (content_of_uri contents (content_uri_for c)))))"

definition abstract_substitute :: "candidate \<Rightarrow> tier" where
  "abstract_substitute c = (if c_category c \<in> set FULL_BODY_ABSTRACT_CATEGORIES then TOverview else TUri)"

definition start_tier :: "candidate \<Rightarrow> tier option \<Rightarrow> tier" where
  "start_tier c pin =
     (if c_is_directory c then TOverview
      else
        let t = (case pin of Some p \<Rightarrow> p
                 | None \<Rightarrow> (case map_of DEFAULT_TIER_BY_CATEGORY (c_category c) of Some d \<Rightarrow> d | None \<Rightarrow> DEFAULT_TIER))
        in if t = TAbstract \<and> strip_text (c_abstract c) = [] then abstract_substitute c else t)"

definition tier_window :: "candidate \<Rightarrow> tier option \<Rightarrow> tier \<times> tier" where
  "tier_window c pin =
     (let start = start_tier c pin
      in if pin \<noteq> None \<or> c_is_directory c then (start, start)
         else
           let ceiling = (case map_of DEPTH_CEILING_BY_CATEGORY (c_category c) of Some d \<Rightarrow> d | None \<Rightarrow> start)
           in (start, if ceiling > start then ceiling else start))"

definition needs_content :: "candidate \<Rightarrow> tier option \<Rightarrow> bool" where
  "needs_content c pin \<longleftrightarrow> snd (tier_window c pin) \<ge> TOverview"

section \<open>Lemmas\<close>

lemma tier_window_le: "fst (tier_window c pin) \<le> snd (tier_window c pin)"
  by (auto simp: tier_window_def Let_def less_imp_le)

lemma less_tier_rank: "(s :: tier) < t \<longleftrightarrow> TIER_RANK s < TIER_RANK t"
  by (simp add: less_tier_def)

lemma less_eq_tier_rank: "(s :: tier) \<le> t \<longleftrightarrow> TIER_RANK s \<le> TIER_RANK t"
  by (simp add: less_eq_tier_def)

text \<open>A category outside the full-body ones, such as resources and skills, never deepens by itself.\<close>

definition opt_in_category :: "string \<Rightarrow> bool" where
  "opt_in_category k \<longleftrightarrow> k \<notin> set FULL_BODY_ABSTRACT_CATEGORIES"

lemma opt_in_window:
  assumes "opt_in_category (c_category c)" and "\<not> c_is_directory c"
  shows "fst (tier_window c None) \<le> TAbstract \<and> snd (tier_window c None) = fst (tier_window c None)"
proof -
  have "c_category c \<noteq> ''events''"
    using assms(1) by (auto simp: opt_in_category_def FULL_BODY_ABSTRACT_CATEGORIES_def MEMORY_CATEGORIES_def)
  then show ?thesis
    using assms unfolding opt_in_category_def
    by (auto simp: tier_window_def start_tier_def Let_def abstract_substitute_def DEFAULT_TIER_def
        DEFAULT_TIER_BY_CATEGORY_def DEPTH_CEILING_BY_CATEGORY_def less_eq_tier_rank
        split: option.splits if_splits)
qed

lemma opt_in_not_read:
  "opt_in_category (c_category c) \<Longrightarrow> \<not> c_is_directory c \<Longrightarrow> \<not> needs_content c None"
  using opt_in_window [of c] by (auto simp: needs_content_def less_eq_tier_rank)

lemma tier_text_low: "t \<le> TAbstract \<Longrightarrow> tier_text env contents c t = tier_text env contents' c t"
  by (cases t) (auto simp: tier_text_def less_eq_tier_rank)

end
