(* ===== verification/Context_Budget.thy ===== *)
theory Context_Budget
  imports Context_Tiers
begin

text \<open>
  Token budgeting, \<open>openviking/retrieve/context_assembler/budget.py\<close>: each candidate is placed at its starting tier
  or a lower one, then the depth passes spend what is left. \<open>hash\<close> of a text is the argument \<open>hash_text\<close>, so that
  collisions are possible. Reading a tier may raise, and then the whole plan does.
\<close>

definition SEPARATOR_TOKENS :: int where
  "SEPARATOR_TOKENS = 1"

record slot =
  s_candidate :: candidate
  s_entry :: assembled_entry
  s_ceiling :: tier
  s_cost :: int

definition per_entry_cap :: "int \<Rightarrow> nat \<Rightarrow> int" where
  "per_entry_cap max_tok candidate_count = max 1 (max_tok div int (max 1 candidate_count) * 2)"

definition tiers_down_from :: "candidate \<Rightarrow> tier \<Rightarrow> tier list" where
  "tiers_down_from c t =
     (let order = rev (take (TIER_RANK t + 1) TIER_ORDER)
      in if t = TAbstract \<and> abstract_substitute c = TOverview
         then take 1 order @ [TOverview] @ drop 1 order else order)"

definition make_entry :: "candidate \<Rightarrow> tier \<Rightarrow> utext \<Rightarrow> assembled_entry" where
  "make_entry c t txt =
     (let e = \<lparr>ae_uri = c_base_uri c, ae_category = c_category c, ae_score = c_score c, ae_detail = t,
               ae_text = txt, ae_origin = c_origin c, ae_tokens = 0\<rparr>
      in e\<lparr>ae_tokens := fragment_tokens e\<rparr>)"

definition oversized_abstract_needs_body :: "candidate \<Rightarrow> int \<Rightarrow> bool" where
  "oversized_abstract_needs_body c cap \<longleftrightarrow>
     abstract_substitute c = TOverview
     \<and> strip_text (c_abstract c) \<noteq> []
     \<and> fragment_tokens (make_entry c TAbstract (strip_text (c_abstract c))) > cap"

definition fits_cap :: "int \<Rightarrow> tier \<Rightarrow> int \<Rightarrow> bool" where
  "fits_cap cap t tokens \<longleftrightarrow> t = TUri \<or> tokens \<le> cap"

section \<open>Placing one candidate\<close>

fun place :: "content_env \<Rightarrow> (string \<times> utext) list \<Rightarrow> int \<Rightarrow> int \<Rightarrow> int \<Rightarrow> bool \<Rightarrow> candidate \<Rightarrow> tier
     \<Rightarrow> tier list \<Rightarrow> slot option res" where
  "place env contents max_tok cap used has_slots c depth [] = Inr None"
| "place env contents max_tok cap used has_slots c depth (t # ts) =
     bind_res (tier_text env contents c t) (\<lambda>txt.
       case txt of
         None \<Rightarrow> place env contents max_tok cap used has_slots c depth ts
       | Some txt \<Rightarrow>
           let entry = make_entry c t txt;
               cost = ae_tokens entry + (if has_slots then SEPARATOR_TOKENS else 0)
           in if \<not> fits_cap cap t (ae_tokens entry) then place env contents max_tok cap used has_slots c depth ts
              else if used + cost > max_tok then place env contents max_tok cap used has_slots c depth ts
              else Inr (Some \<lparr>s_candidate = c, s_entry = entry, s_ceiling = depth, s_cost = cost\<rparr>))"

section \<open>Breadth first\<close>

record fill_state =
  f_slots :: "slot list"
  f_used :: int
  f_dropped :: nat
  f_deduped :: nat
  f_seen :: "int list"

definition body_key :: "(utext \<Rightarrow> int) \<Rightarrow> slot \<Rightarrow> int" where
  "body_key hash_text s =
     hash_text (if ae_text (s_entry s) \<noteq> [] then ae_text (s_entry s) else cps (c_base_uri (s_candidate s)))"

definition fill_one ::
  "content_env \<Rightarrow> (utext \<Rightarrow> int) \<Rightarrow> (string \<times> utext) list \<Rightarrow> detail_pins \<Rightarrow> int \<Rightarrow> int \<Rightarrow> candidate \<Rightarrow> fill_state \<Rightarrow> fill_state res" where
  "fill_one env hash_text contents pins max_tok cap c st =
     (let (start, depth) = tier_window c (for_category pins (c_category c))
      in bind_res (place env contents max_tok cap (f_used st) (f_slots st \<noteq> []) c depth (tiers_down_from c start))
           (\<lambda>placed. Inr (case placed of
               None \<Rightarrow> st\<lparr>f_dropped := f_dropped st + 1\<rparr>
             | Some s \<Rightarrow>
                 if body_key hash_text s \<in> set (f_seen st) then st\<lparr>f_deduped := f_deduped st + 1\<rparr>
                 else st\<lparr>f_slots := f_slots st @ [s], f_used := f_used st + s_cost s,
                         f_seen := body_key hash_text s # f_seen st\<rparr>)))"

fun fill_all ::
  "content_env \<Rightarrow> (utext \<Rightarrow> int) \<Rightarrow> (string \<times> utext) list \<Rightarrow> detail_pins \<Rightarrow> int \<Rightarrow> int \<Rightarrow> candidate list \<Rightarrow> fill_state \<Rightarrow> fill_state res" where
  "fill_all env hash_text contents pins max_tok cap [] st = Inr st"
| "fill_all env hash_text contents pins max_tok cap (c # cs) st =
     bind_res (fill_one env hash_text contents pins max_tok cap c st)
       (\<lambda>st'. fill_all env hash_text contents pins max_tok cap cs st')"

section \<open>Then depth\<close>

definition upgrade_one ::
  "content_env \<Rightarrow> (string \<times> utext) list \<Rightarrow> int \<Rightarrow> int \<Rightarrow> tier \<Rightarrow> bool \<Rightarrow> int \<Rightarrow> slot \<Rightarrow> (slot \<times> int) option res" where
  "upgrade_one env contents max_tok cap target respect_cap used s =
     (if TIER_RANK (ae_detail (s_entry s)) \<ge> TIER_RANK target \<or> TIER_RANK target > TIER_RANK (s_ceiling s) then Inr None
      else bind_res (tier_text env contents (s_candidate s) target) (\<lambda>txt.
        case txt of
          None \<Rightarrow> Inr None
        | Some txt \<Rightarrow>
            let entry = make_entry (s_candidate s) target txt;
                delta = ae_tokens entry - ae_tokens (s_entry s)
            in if respect_cap \<and> \<not> fits_cap cap target (ae_tokens entry) then Inr None
               else if used + delta > max_tok then Inr None
               else Inr (Some (s\<lparr>s_entry := entry, s_cost := s_cost s + delta\<rparr>, used + delta))))"

fun upgrade_pass ::
  "content_env \<Rightarrow> (string \<times> utext) list \<Rightarrow> int \<Rightarrow> int \<Rightarrow> tier \<Rightarrow> bool \<Rightarrow> int \<Rightarrow> slot list \<Rightarrow> (slot list \<times> int \<times> nat) res" where
  "upgrade_pass env contents max_tok cap target respect_cap used [] = Inr ([], used, 0)"
| "upgrade_pass env contents max_tok cap target respect_cap used (s # ss) =
     bind_res (upgrade_one env contents max_tok cap target respect_cap used s) (\<lambda>up.
       let (s', used', k) = (case up of None \<Rightarrow> (s, used, 0) | Some (s', u) \<Rightarrow> (s', u, 1))
       in bind_res (upgrade_pass env contents max_tok cap target respect_cap used' ss) (\<lambda>(ss', used'', n).
            Inr (s' # ss', used'', k + n)))"

section \<open>The plan\<close>

record plan_stats =
  ps_max_tokens :: int
  ps_used_tokens :: int
  ps_per_entry_cap :: int
  ps_returned :: nat
  ps_dropped :: nat
  ps_deduped :: nat
  ps_detail :: detail_stats
  ps_tier_counts :: "(tier \<times> nat) list"
  ps_floor_tokens :: int
  ps_overview_upgrades :: nat
  ps_full_upgrades :: nat
  ps_spare_upgrades :: nat

definition count_tiers :: "assembled_entry list \<Rightarrow> (tier \<times> nat) list" where
  "count_tiers entries =
     fold (\<lambda>e counts. AList.update (ae_detail e)
             (Suc (case map_of counts (ae_detail e) of Some n \<Rightarrow> n | None \<Rightarrow> 0)) counts) entries []"

definition plan_entries ::
  "content_env \<Rightarrow> (utext \<Rightarrow> int) \<Rightarrow> candidate list \<Rightarrow> (string \<times> utext) list \<Rightarrow> int \<Rightarrow> detail_request
     \<Rightarrow> (assembled_entry list \<times> plan_stats) res" where
  "plan_entries env hash_text candidates contents max_tok_arg detail_arg =
     (let max_tok = max 1 max_tok_arg;
          pins = normalize_detail detail_arg;
          cap = per_entry_cap max_tok (length candidates)
      in bind_res (fill_all env hash_text contents pins max_tok cap candidates
                     \<lparr>f_slots = [], f_used = 0, f_dropped = 0, f_deduped = 0, f_seen = []\<rparr>) (\<lambda>st.
         bind_res (upgrade_pass env contents max_tok cap TOverview True (f_used st) (f_slots st)) (\<lambda>(ss1, used1, n1).
         bind_res (upgrade_pass env contents max_tok cap TFull True used1 ss1) (\<lambda>(ss2, used2, n2).
         bind_res (upgrade_pass env contents max_tok cap TFull False used2 ss2) (\<lambda>(ss3, used3, n3).
           let entries = map s_entry ss3
           in Inr (entries,
                \<lparr>ps_max_tokens = max_tok, ps_used_tokens = used3, ps_per_entry_cap = cap, ps_returned = length entries,
                 ps_dropped = f_dropped st, ps_deduped = f_deduped st, ps_detail = as_stats pins,
                 ps_tier_counts = count_tiers entries, ps_floor_tokens = f_used st,
                 ps_overview_upgrades = n1, ps_full_upgrades = n2, ps_spare_upgrades = n3\<rparr>))))))"

section \<open>Invariant of the fill\<close>

lemma make_entry_sel [simp]:
  "ae_uri (make_entry c t x) = c_base_uri c" "ae_category (make_entry c t x) = c_category c"
  "ae_detail (make_entry c t x) = t" "ae_text (make_entry c t x) = x" "ae_origin (make_entry c t x) = c_origin c"
  by (simp_all add: make_entry_def Let_def)

lemma fragment_tokens_make_entry: "fragment_tokens (make_entry c t x) = ae_tokens (make_entry c t x)"
  by (simp add: make_entry_def Let_def fragment_tokens_def render_entry_def entry_head_def)

lemma make_entry_tokens_nonneg [simp]: "0 \<le> ae_tokens (make_entry c t x)"
  by (simp add: fragment_tokens_make_entry [symmetric] fragment_tokens_def)

text \<open>The tiers a candidate may be shown at: those below its start, or any up to its ceiling.\<close>

definition allowed_tier :: "detail_pins \<Rightarrow> candidate \<Rightarrow> tier \<Rightarrow> bool" where
  "allowed_tier pins c t \<longleftrightarrow>
     (case tier_window c (for_category pins (c_category c)) of (start, depth) \<Rightarrow>
        t \<in> set (tiers_down_from c start) \<or> t \<le> depth)"

definition slot_ok ::
  "content_env \<Rightarrow> (string \<times> utext) list \<Rightarrow> detail_pins \<Rightarrow> int \<Rightarrow> slot \<Rightarrow> bool" where
  "slot_ok env contents pins cap s \<longleftrightarrow>
     (let c = s_candidate s; e = s_entry s
      in e = make_entry c (ae_detail e) (ae_text e)
         \<and> s_ceiling s = snd (tier_window c (for_category pins (c_category c)))
         \<and> tier_text env contents c (ae_detail e) = Inr (Some (ae_text e))
         \<and> (ae_detail e = TUri \<or> ae_detail e = TFull \<or> ae_tokens e \<le> cap)
         \<and> allowed_tier pins c (ae_detail e))"

definition slots_tokens :: "slot list \<Rightarrow> int" where
  "slots_tokens ss = sum_list (map (\<lambda>s. ae_tokens (s_entry s)) ss) + int (length ss - 1)"

lemma slots_tokens_snoc:
  "slots_tokens (ss @ [s]) = slots_tokens ss + ae_tokens (s_entry s) + (if ss \<noteq> [] then SEPARATOR_TOKENS else 0)"
  by (cases ss) (simp_all add: slots_tokens_def SEPARATOR_TOKENS_def)

lemma place_spec:
  "place env contents max_tok cap used has_slots c depth ts = Inr (Some s) \<Longrightarrow>
     \<exists>t \<in> set ts. \<exists>txt. tier_text env contents c t = Inr (Some txt) \<and> fits_cap cap t (ae_tokens (make_entry c t txt))
       \<and> s = \<lparr>s_candidate = c, s_entry = make_entry c t txt, s_ceiling = depth,
              s_cost = ae_tokens (make_entry c t txt) + (if has_slots then SEPARATOR_TOKENS else 0)\<rparr>
       \<and> used + s_cost s \<le> max_tok"
proof (induction ts)
  case (Cons t ts)
  then show ?case
    by (cases "tier_text env contents c t") (auto simp: Let_def split: option.splits if_splits)
qed simp

definition fill_inv ::
  "content_env \<Rightarrow> (string \<times> utext) list \<Rightarrow> detail_pins \<Rightarrow> int \<Rightarrow> int \<Rightarrow> candidate list \<Rightarrow> fill_state \<Rightarrow> bool" where
  "fill_inv env contents pins max_tok cap pre st \<longleftrightarrow>
     (\<forall>s \<in> set (f_slots st). slot_ok env contents pins cap s)
     \<and> f_used st = slots_tokens (f_slots st) \<and> f_used st \<le> max_tok
     \<and> length (f_slots st) + f_dropped st + f_deduped st = length pre
     \<and> subseq (map s_candidate (f_slots st)) pre"

lemma fill_one_inv [inv_intros]:
  assumes inv: "fill_inv env contents pins max_tok cap pre st"
    and r: "fill_one env hash_text contents pins max_tok cap c st = Inr st'"
  shows "fill_inv env contents pins max_tok cap (pre @ [c]) st'"
proof -
  let ?w = "tier_window c (for_category pins (c_category c))"
  obtain placed where p: "place env contents max_tok cap (f_used st) (f_slots st \<noteq> []) c (snd ?w) (tiers_down_from c (fst ?w)) = Inr placed"
    and st': "st' = (case placed of None \<Rightarrow> st\<lparr>f_dropped := f_dropped st + 1\<rparr>
        | Some s \<Rightarrow> if body_key hash_text s \<in> set (f_seen st) then st\<lparr>f_deduped := f_deduped st + 1\<rparr>
            else st\<lparr>f_slots := f_slots st @ [s], f_used := f_used st + s_cost s, f_seen := body_key hash_text s # f_seen st\<rparr>)"
    using r by (auto simp: fill_one_def bind_res_Inr_iff split: prod.splits)
  have sub: "subseq (map s_candidate (f_slots st)) (pre @ [c])"
    using inv by (auto simp: fill_inv_def intro: list_emb_append2)
  show ?thesis
  proof (cases placed)
    case None
    with inv sub show ?thesis by (simp add: fill_inv_def st')
  next
    case (Some s)
    show ?thesis
    proof (cases "body_key hash_text s \<in> set (f_seen st)")
      case True
      with inv sub Some show ?thesis by (simp add: fill_inv_def st')
    next
      case False
      from place_spec [OF p [unfolded Some]] obtain t x where t: "t \<in> set (tiers_down_from c (fst ?w))"
        "tier_text env contents c t = Inr (Some x)" "fits_cap cap t (ae_tokens (make_entry c t x))"
        "s = \<lparr>s_candidate = c, s_entry = make_entry c t x, s_ceiling = snd ?w,
              s_cost = ae_tokens (make_entry c t x) + (if f_slots st \<noteq> [] then SEPARATOR_TOKENS else 0)\<rparr>"
        "f_used st + s_cost s \<le> max_tok" by blast
      then have "slot_ok env contents pins cap s"
        by (auto simp: slot_ok_def fits_cap_def allowed_tier_def split: prod.splits)
      moreover have "subseq (map s_candidate (f_slots st) @ [c]) (pre @ [c])"
        using inv by (simp add: fill_inv_def)
      ultimately show ?thesis
        using inv Some False t(4,5) by (simp add: fill_inv_def st' slots_tokens_snoc)
    qed
  qed
qed

lemma fill_all_inv:
  "fill_all env hash_text contents pins max_tok cap cs st = Inr st' \<Longrightarrow> fill_inv env contents pins max_tok cap pre st \<Longrightarrow>
     fill_inv env contents pins max_tok cap (pre @ cs) st'"
proof (induction cs arbitrary: st pre)
  case (Cons c cs)
  then obtain st1 where "fill_one env hash_text contents pins max_tok cap c st = Inr st1"
    "fill_all env hash_text contents pins max_tok cap cs st1 = Inr st'" by (auto simp: bind_res_Inr_iff)
  with Cons.IH [of st1 "pre @ [c]"] fill_one_inv [OF Cons.prems(2)] show ?case by simp
qed simp

section \<open>The depth passes keep it\<close>

lemma upgrade_one_spec:
  assumes "upgrade_one env contents max_tok cap target rc used s = Inr (Some (s', used'))"
    and "slot_ok env contents pins cap s" and "target = TFull \<or> rc"
  shows "slot_ok env contents pins cap s' \<and> s_candidate s' = s_candidate s
    \<and> used' = used + (ae_tokens (s_entry s') - ae_tokens (s_entry s)) \<and> used' \<le> max_tok"
  using assms
  by (auto simp: upgrade_one_def Let_def bind_res_Inr_iff slot_ok_def fits_cap_def allowed_tier_def
      less_eq_tier_rank not_less split: if_splits option.splits prod.splits)

lemma upgrade_pass_spec:
  "upgrade_pass env contents max_tok cap target rc used ss = Inr (ss', used', n) \<Longrightarrow>
     \<forall>s \<in> set ss. slot_ok env contents pins cap s \<Longrightarrow> target = TFull \<or> rc \<Longrightarrow> used \<le> max_tok \<Longrightarrow>
     (\<forall>s \<in> set ss'. slot_ok env contents pins cap s) \<and> map s_candidate ss' = map s_candidate ss
     \<and> used' - sum_list (map (\<lambda>s. ae_tokens (s_entry s)) ss') = used - sum_list (map (\<lambda>s. ae_tokens (s_entry s)) ss)
     \<and> used' \<le> max_tok"
proof (induction ss arbitrary: used ss' n)
  case (Cons s ss)
  obtain up where u: "upgrade_one env contents max_tok cap target rc used s = Inr up"
    using Cons.prems(1) by (auto simp: bind_res_Inr_iff)
  obtain s1 u1 k where d: "(s1, u1, k) = (case up of None \<Rightarrow> (s, used, 0) | Some (s', u) \<Rightarrow> (s', u, 1 :: nat))"
    by (metis prod_cases3)
  have s1: "slot_ok env contents pins cap s1 \<and> s_candidate s1 = s_candidate s
      \<and> u1 = used + (ae_tokens (s_entry s1) - ae_tokens (s_entry s)) \<and> u1 \<le> max_tok"
    using d u Cons.prems(2-4) by (cases up) (auto dest!: upgrade_one_spec)
  obtain ss2 n2 where r: "upgrade_pass env contents max_tok cap target rc u1 ss = Inr (ss2, used', n2)" "ss' = s1 # ss2"
    using Cons.prems(1) u d by (auto simp: bind_res_Inr_iff Let_def split: prod.splits)
  from Cons.IH [OF r(1)] s1 Cons.prems(2,3) show ?case unfolding r(2) by simp
qed simp

section \<open>Properties of a plan\<close>

definition empty_fill :: fill_state where
  "empty_fill = \<lparr>f_slots = [], f_used = 0, f_dropped = 0, f_deduped = 0, f_seen = []\<rparr>"

text \<open>Everything the proofs need of a plan: the final slots satisfy the invariant and account for the used tokens.\<close>

lemma plan_entries_slots:
  assumes "plan_entries env hash_text cs contents m d = Inr (entries, st)"
  obtains ss where "entries = map s_entry ss"
    and "\<forall>s \<in> set ss. slot_ok env contents (normalize_detail d) (per_entry_cap (max 1 m) (length cs)) s"
    and "ps_used_tokens st = slots_tokens ss" and "ps_used_tokens st \<le> ps_max_tokens st" and "ps_max_tokens st = max 1 m"
    and "ps_returned st + ps_dropped st + ps_deduped st = length cs" and "ps_returned st = length entries"
    and "subseq (map s_candidate ss) cs"
proof -
  let ?m = "max 1 m" and ?pins = "normalize_detail d" and ?cap = "per_entry_cap (max 1 m) (length cs)"
  from assms obtain fs ss1 u1 n1 ss2 u2 n2 ss3 u3 n3 where
    f: "fill_all env hash_text contents ?pins ?m ?cap cs empty_fill = Inr fs"
    and p1: "upgrade_pass env contents ?m ?cap TOverview True (f_used fs) (f_slots fs) = Inr (ss1, u1, n1)"
    and p2: "upgrade_pass env contents ?m ?cap TFull True u1 ss1 = Inr (ss2, u2, n2)"
    and p3: "upgrade_pass env contents ?m ?cap TFull False u2 ss2 = Inr (ss3, u3, n3)"
    and e: "entries = map s_entry ss3"
    and st: "ps_used_tokens st = u3" "ps_max_tokens st = ?m" "ps_dropped st = f_dropped fs" "ps_deduped st = f_deduped fs"
      "ps_returned st = length entries"
    by (auto simp: plan_entries_def Let_def bind_res_Inr_iff empty_fill_def)
  have "fill_inv env contents ?pins ?m ?cap [] empty_fill"
    by (simp add: fill_inv_def empty_fill_def slots_tokens_def)
  from fill_all_inv [OF f this] have inv: "fill_inv env contents ?pins ?m ?cap cs fs" by simp
  then have ok: "\<forall>s \<in> set (f_slots fs). slot_ok env contents ?pins ?cap s" "f_used fs \<le> ?m"
    by (simp_all add: fill_inv_def)
  note q1 = upgrade_pass_spec [OF p1 ok(1) _ ok(2), simplified]
  then have ok1: "\<forall>s \<in> set ss1. slot_ok env contents ?pins ?cap s" "u1 \<le> ?m" by simp_all
  note q2 = upgrade_pass_spec [OF p2 ok1(1) _ ok1(2), simplified]
  then have ok2: "\<forall>s \<in> set ss2. slot_ok env contents ?pins ?cap s" "u2 \<le> ?m" by simp_all
  note q3 = upgrade_pass_spec [OF p3 ok2(1) _ ok2(2), simplified]
  have cands: "map s_candidate ss3 = map s_candidate (f_slots fs)" using q1 q2 q3 by simp
  then have len: "length ss3 = length (f_slots fs)" by (metis length_map)
  have "u3 = slots_tokens ss3" using q1 q2 q3 inv len by (simp add: fill_inv_def slots_tokens_def)
  moreover have "u3 \<le> ?m" using q3 by simp
  moreover have "length ss3 + f_dropped fs + f_deduped fs = length cs" using inv len by (simp add: fill_inv_def)
  moreover have "subseq (map s_candidate ss3) cs" using inv cands by (simp add: fill_inv_def)
  ultimately show thesis using that [of ss3] q3 st e by simp
qed

lemma slot_tokens_fragment:
  "slot_ok env contents pins cap s \<Longrightarrow> fragment_tokens (s_entry s) = ae_tokens (s_entry s)"
  unfolding slot_ok_def Let_def by (metis fragment_tokens_make_entry)

lemma plan_tokens:
  assumes "plan_entries env hash_text cs contents m d = Inr (entries, st)"
  shows "ps_used_tokens st = sum_list (map fragment_tokens entries) + int (length entries - 1)"
    and "ps_used_tokens st \<le> max 1 m"
proof -
  from plan_entries_slots [OF assms] obtain ss where e: "entries = map s_entry ss"
    and ok: "\<forall>s \<in> set ss. slot_ok env contents (normalize_detail d) (per_entry_cap (max 1 m) (length cs)) s"
    and u: "ps_used_tokens st = slots_tokens ss" "ps_used_tokens st \<le> ps_max_tokens st" "ps_max_tokens st = max 1 m"
    by blast
  have "map fragment_tokens entries = map (\<lambda>s. ae_tokens (s_entry s)) ss"
    unfolding e using ok by (auto intro: slot_tokens_fragment)
  then show "ps_used_tokens st = sum_list (map fragment_tokens entries) + int (length entries - 1)"
    unfolding u(1) slots_tokens_def e by (metis length_map)
  show "ps_used_tokens st \<le> max 1 m" using u(2,3) by simp
qed

lemma plan_entry_candidate:
  assumes "plan_entries env hash_text cs contents m d = Inr (entries, st)"
  shows "subseq (map ae_uri entries) (map c_base_uri cs)"
proof -
  from plan_entries_slots [OF assms] obtain ss where e: "entries = map s_entry ss"
    and ok: "\<forall>s \<in> set ss. slot_ok env contents (normalize_detail d) (per_entry_cap (max 1 m) (length cs)) s"
    and sub: "subseq (map s_candidate ss) cs" by blast
  have "ae_uri (s_entry s) = c_base_uri (s_candidate s)" if "s \<in> set ss" for s
    using ok that unfolding slot_ok_def Let_def by (metis make_entry_sel(1))
  then have "map ae_uri entries = map c_base_uri (map s_candidate ss)" unfolding e by simp
  then show ?thesis using subseq_map [OF sub] by metis
qed

text \<open>C11: the rendered context fits the budget. For every list of candidates, every content and every requested
  budget, the used tokens of a plan are the fragments and one token per separator, they do not exceed
  \<open>max_tokens\<close> (at least 1), and the token estimate of the whole rendered context does not exceed them.\<close>

theorem plan_within_budget:
  assumes "plan_entries env hash_text cs contents m d = Inr (entries, st)"
  shows "estimate_text_tokens (render_context entries) \<le> ps_used_tokens st
    \<and> ps_used_tokens st = sum_list (map fragment_tokens entries) + int (length entries - 1)
    \<and> ps_used_tokens st \<le> max 1 m"
  using plan_tokens [OF assms] render_context_tokens [of entries] by simp

text \<open>What a plan returns for its candidates. Every candidate is returned, dropped or deduplicated; the entries keep
  the order of the candidates; and an entry costs at most twice the average share of the budget, unless it is a
  bare URI or was deepened to the full tier with budget that was left.\<close>

lemma plan_entries_accounts:
  assumes "plan_entries env hash_text cs contents m d = Inr (entries, st)"
  shows "length entries + ps_dropped st + ps_deduped st = length cs
    \<and> subseq (map ae_uri entries) (map c_base_uri cs)
    \<and> list_all (\<lambda>e. ae_detail e = TUri \<or> ae_detail e = TFull
          \<or> ae_tokens e \<le> per_entry_cap (max 1 m) (length cs)) entries"
proof -
  from plan_entries_slots [OF assms] obtain ss where e: "entries = map s_entry ss"
    and ok: "\<forall>s \<in> set ss. slot_ok env contents (normalize_detail d) (per_entry_cap (max 1 m) (length cs)) s"
    and u: "ps_returned st + ps_dropped st + ps_deduped st = length cs" "ps_returned st = length entries"
    by blast
  note plan_entry_candidate [OF assms]
  moreover have "list_all (\<lambda>e. ae_detail e = TUri \<or> ae_detail e = TFull
          \<or> ae_tokens e \<le> per_entry_cap (max 1 m) (length cs)) entries"
    unfolding e list_all_iff using ok by (auto simp: slot_ok_def Let_def)
  ultimately show ?thesis using u by simp
qed

lemma tiers_down_opt_in:
  assumes "opt_in_category (c_category c)" and "t \<in> set (tiers_down_from c start)"
  shows "t \<le> start"
proof -
  have "abstract_substitute c = TUri" using assms(1) by (simp add: abstract_substitute_def opt_in_category_def)
  with assms(2) show ?thesis
    by (cases start) (auto simp: tiers_down_from_def Let_def TIER_ORDER_def less_eq_tier_rank)
qed

text \<open>C17: resources and skills are deepened only when the caller asks. An entry of such a category for which the request
  pins no tier, and which is not a directory, shows nothing or the stored abstract, whatever
  the budget allows and whatever was read.\<close>

theorem plan_opt_in_disclosure:
  assumes "plan_entries env hash_text cs contents m d = Inr (entries, st)" and "e \<in> set entries"
    and "opt_in_category (ae_category e)" and "for_category (normalize_detail d) (ae_category e) = None"
  shows "\<exists>c \<in> set cs. ae_uri e = c_base_uri c
    \<and> (c_is_directory c \<or> ae_text e = [] \<or> ae_text e = strip_text (c_abstract c))"
proof -
  from plan_entries_slots [OF assms(1)] obtain ss where en: "entries = map s_entry ss"
    and ok: "\<forall>s \<in> set ss. slot_ok env contents (normalize_detail d) (per_entry_cap (max 1 m) (length cs)) s"
    and sub: "subseq (map s_candidate ss) cs" by blast
  from assms(2) en obtain s where s: "s \<in> set ss" "e = s_entry s" by auto
  let ?c = "s_candidate s"
  have "slot_ok env contents (normalize_detail d) (per_entry_cap (max 1 m) (length cs)) s" using ok s(1) by blast
  then have eq: "e = make_entry ?c (ae_detail e) (ae_text e)"
    and tt: "tier_text env contents ?c (ae_detail e) = Inr (Some (ae_text e))"
    and al: "allowed_tier (normalize_detail d) ?c (ae_detail e)" by (simp_all add: slot_ok_def Let_def s(2))
  have cat: "ae_category e = c_category ?c" "ae_uri e = c_base_uri ?c"
    by (subst eq, simp)+
  have "c_is_directory ?c \<or> ae_text e = [] \<or> ae_text e = strip_text (c_abstract ?c)"
  proof (cases "c_is_directory ?c")
    case False
    have oi: "opt_in_category (c_category ?c)" "for_category (normalize_detail d) (c_category ?c) = None"
      using assms(3,4) cat by simp_all
    have "ae_detail e \<le> fst (tier_window ?c None)"
      using al tiers_down_opt_in [OF oi(1)] opt_in_window [OF oi(1) False]
      by (auto simp: allowed_tier_def oi(2) split: prod.splits)
    then have "ae_detail e \<le> TAbstract" using opt_in_window [OF oi(1) False] by (meson order_trans)
    then show ?thesis using tt
      by (cases "ae_detail e") (auto simp: tier_text_def none_if_empty_def less_eq_tier_rank split: if_splits)
  qed simp
  moreover have "?c \<in> set cs" using s(1) list_emb_set [OF sub, of ?c] by auto
  ultimately show ?thesis using cat by blast
qed

lemma fill_all_error:
  assumes "c \<in> set cs" and "\<And>st. \<exists>e. fill_one env hash_text contents pins max_tok cap c st = Inl e"
  shows "\<exists>e. fill_all env hash_text contents pins max_tok cap cs st = Inl e"
  using assms(1)
proof (induction cs arbitrary: st)
  case (Cons x cs)
  show ?case
  proof (cases "x = c")
    case True
    then show ?thesis using assms(2) [of st] by auto
  next
    case False
    with Cons show ?thesis
      by (cases "fill_one env hash_text contents pins max_tok cap x st") auto
  qed
qed simp

text \<open>one malformed sidecar fails the whole assembly. If the overview file of one directory candidate was read and the
  front-matter parser rejects it, no plan exists at any budget: the error propagates out of the
  planning of every other candidate.\<close>

lemma malformed_sidecar_fails_plan:
  assumes "c \<in> set cs" and "c_is_directory c"
    and "content_of_uri contents (content_uri_for c) \<noteq> []"
    and "ce_body_for_preview env (content_of_uri contents (content_uri_for c)) = Inl err"
  shows "\<exists>e. plan_entries env hash_text cs contents m d = Inl e"
proof -
  have "tier_window c pin = (TOverview, TOverview)" for pin
    using assms(2) by (simp add: tier_window_def start_tier_def)
  moreover have "tiers_down_from c TOverview = [TOverview, TAbstract, TUri]"
    by (simp add: tiers_down_from_def TIER_ORDER_def)
  moreover have "tier_text env contents c TOverview = Inl err"
    using assms(2-4) by (simp add: tier_text_def overview_from_content_def)
  ultimately have "\<exists>e. fill_one env hash_text contents pins mt cap c st = Inl e" for pins mt cap st
    by (simp add: fill_one_def)
  from fill_all_error [OF assms(1) this] show ?thesis
    unfolding plan_entries_def Let_def by (metis bind_res.simps(1))
qed

section \<open>A concrete plan\<close>

definition demo_env_c :: content_env where
  "demo_env_c = \<lparr>ce_read = (\<lambda>_ _. Inr []), ce_memory_body = (\<lambda>_ b. Inr b),
     ce_body_for_preview = (\<lambda>b. if take 3 b = [45, 45, 45] then Inl ValueError else Inr b),
     ce_supports_code = (\<lambda>_. False), ce_skeleton = (\<lambda>_ _. None)\<rparr>"

definition demo_candidate :: "bool \<Rightarrow> candidate" where
  "demo_candidate dir = \<lparr>c_uri = ''viking://resources/r.md'', c_base_uri = ''viking://resources/r.md'',
     c_category = ''resources'', c_score = 1/2, c_ranked_score = 1/2, c_level = 2, c_abstract = cps ''x'',
     c_origin = ''self'', c_is_directory = dir,
     c_read_ctx = \<lparr>rc_user = \<lparr>ui_account_id = ''acme'', ui_user_id = ''alice''\<rparr>, rc_role = USER,
       rc_actor_peer_id = None, rc_from_oauth = False, rc_api_key = None\<rparr>\<rparr>"

definition demo_budget :: int where
  "demo_budget = ae_tokens (make_entry (demo_candidate False) TAbstract (cps ''x''))"

lemma demo_plan:
  "\<exists>st. plan_entries demo_env_c (\<lambda>t. int (length t)) [demo_candidate False] [] demo_budget (DetailValue JNull)
      = Inr ([make_entry (demo_candidate False) TAbstract (cps ''x'')], st)"
proof -
  let ?c = "demo_candidate False"
  have pin: "for_category (normalize_detail (DetailValue JNull)) k = None" for k
    by (simp add: for_category_def normalize_detail_def pinnable_def PINNABLE_TIERS_def)
  have x: "strip_text (cps ''x'') = cps ''x''"
    by (simp add: strip_text_def lstrip_text_def rstrip_text_def is_space_cp_def cps_def)
  have st: "start_tier ?c None = TAbstract"
    using x by (simp add: start_tier_def demo_candidate_def DEFAULT_TIER_BY_CATEGORY_def)
  have sub: "abstract_substitute ?c = TUri"
    by (simp add: abstract_substitute_def demo_candidate_def FULL_BODY_ABSTRACT_CATEGORIES_def MEMORY_CATEGORIES_def
        OTHER_MEMORY_CATEGORY_def)
  have w: "tier_window ?c None = (TAbstract, TAbstract)"
    by (simp add: tier_window_def st) (simp add: demo_candidate_def DEPTH_CEILING_BY_CATEGORY_def)
  have down: "tiers_down_from ?c TAbstract = [TAbstract, TUri]"
    by (simp add: tiers_down_from_def TIER_ORDER_def sub)
  have tt: "tier_text demo_env_c [] ?c TAbstract = Inr (Some (cps ''x''))"
    using x by (simp add: tier_text_def none_if_empty_def demo_candidate_def)
  have b: "0 \<le> demo_budget" by (simp add: demo_budget_def)
  have fits: "fits_cap (per_entry_cap (max 1 demo_budget) 1) TAbstract demo_budget" "demo_budget \<le> max 1 demo_budget"
    using b by (auto simp: fits_cap_def per_entry_cap_def max_def)
  have "fill_all demo_env_c (\<lambda>t. int (length t)) [] (normalize_detail (DetailValue JNull)) (max 1 demo_budget)
      (per_entry_cap (max 1 demo_budget) 1) [?c] empty_fill =
    Inr \<lparr>f_slots = [\<lparr>s_candidate = ?c, s_entry = make_entry ?c TAbstract (cps ''x''), s_ceiling = TAbstract, s_cost = demo_budget\<rparr>],
         f_used = demo_budget, f_dropped = 0, f_deduped = 0, f_seen = [int (length (cps ''x''))]\<rparr>"
    using fits by (simp add: fill_one_def pin w down tt Let_def empty_fill_def body_key_def demo_budget_def [symmetric])
  then show ?thesis
    unfolding plan_entries_def Let_def
    by (simp add: upgrade_one_def empty_fill_def [symmetric] One_nat_def [symmetric] del: One_nat_def fill_all.simps)
qed

theorem plan_within_budget_witness:
  "fragment_tokens (make_entry (demo_candidate False) TAbstract (cps ''x'')) \<le> max 1 demo_budget"
proof -
  obtain st where "plan_entries demo_env_c (\<lambda>t. int (length t)) [demo_candidate False] [] demo_budget (DetailValue JNull)
      = Inr ([make_entry (demo_candidate False) TAbstract (cps ''x'')], st)" using demo_plan by blast
  from plan_within_budget [OF this] show ?thesis by simp
qed

theorem plan_opt_in_disclosure_witness:
  "\<exists>c \<in> set [demo_candidate False]. ae_uri (make_entry (demo_candidate False) TAbstract (cps ''x'')) = c_base_uri c
    \<and> (c_is_directory c \<or> ae_text (make_entry (demo_candidate False) TAbstract (cps ''x'')) = []
       \<or> ae_text (make_entry (demo_candidate False) TAbstract (cps ''x'')) = strip_text (c_abstract c))"
proof -
  obtain st where p: "plan_entries demo_env_c (\<lambda>t. int (length t)) [demo_candidate False] [] demo_budget (DetailValue JNull)
      = Inr ([make_entry (demo_candidate False) TAbstract (cps ''x'')], st)" using demo_plan by blast
  have o_cat: "opt_in_category (ae_category (make_entry (demo_candidate False) TAbstract (cps ''x'')))"
    by (simp add: opt_in_category_def demo_candidate_def FULL_BODY_ABSTRACT_CATEGORIES_def MEMORY_CATEGORIES_def
        OTHER_MEMORY_CATEGORY_def)
  have pin: "for_category (normalize_detail (DetailValue JNull)) k = None" for k
    by (simp add: for_category_def normalize_detail_def pinnable_def PINNABLE_TIERS_def)
  show ?thesis by (rule plan_opt_in_disclosure [OF p _ o_cat pin]) simp
qed

end
