(* ===== verification/Context_Ledger.thy ===== *)
theory Context_Ledger
  imports Context_Render Json_Text
begin

text \<open>
  The cross-turn dedup ledger, \<open>openviking/retrieve/context_assembler/ledger.py\<close>: a JSON file in the session
  directory with the turn at which each URI was served. The file system is the argument \<open>read\<close> and the outcome
  \<open>write_ok\<close> of the write; the text of the file is written by \<open>dumps\<close> and read by \<open>loads\<close>.
\<close>

definition LEDGER_FILENAME :: string where
  "LEDGER_FILENAME = ''.recall_log.json''"

definition LEDGER_VERSION :: int where
  "LEDGER_VERSION = 1"

definition MAX_LEDGER_URIS :: nat where
  "MAX_LEDGER_URIS = 500"

definition dict_get :: "(utext \<times> json) list \<Rightarrow> string \<Rightarrow> json option" where
  "dict_get d k = map_of d (cps k)"

text \<open>\<open>_record_turn\<close>. \<open>int\<close> of an infinite float raises \<open>OverflowError\<close>, which the handler does not name.\<close>

definition record_turn :: "json \<Rightarrow> int option res" where
  "record_turn entry =
     (case entry of
        JDict d \<Rightarrow>
          or_else (bind_res (case dict_get d ''turn'' of None \<Rightarrow> Inr 0 | Some v \<Rightarrow> py_int v) (\<lambda>i. Inr (Some i))) None
      | _ \<Rightarrow> Inr None)"

record session_info =
  si_uri :: string
  si_total_message_count :: "json option"
  si_live_messages :: nat

definition resolve_turn :: "session_info \<Rightarrow> int res" where
  "resolve_turn session =
     bind_res (or_else (case si_total_message_count session of None \<Rightarrow> Inr 0
                        | Some v \<Rightarrow> if v = JNull then Inr 0 else py_int v) 0)
       (\<lambda>total. Inr (max total (int (si_live_messages session))))"

record recall_ledger =
  lg_uri :: string
  lg_turn :: int
  lg_dedup_turns :: int
  lg_data :: "(utext \<times> json) list"
  lg_status :: string

definition mk_ledger :: "string \<Rightarrow> int \<Rightarrow> int \<Rightarrow> recall_ledger" where
  "mk_ledger session_uri turn dedup =
     \<lparr>lg_uri = rstrip_by is_slash session_uri @ ''/'' @ LEDGER_FILENAME, lg_turn = turn,
      lg_dedup_turns = max 0 dedup, lg_data = [], lg_status = ''ok''\<rparr>"

definition parse_ledger :: "utext res \<Rightarrow> (utext \<times> json) list \<times> string" where
  "parse_ledger raw =
     (case raw of
        Inl _ \<Rightarrow> ([], ''new'')
      | Inr t \<Rightarrow>
          if t = [] then ([], ''ok'')
          else (case loads t of
                  Inl _ \<Rightarrow> ([], ''new'')
                | Inr (JDict d) \<Rightarrow> (d, ''ok'')
                | Inr _ \<Rightarrow> ([], ''ok'')))"

definition load_ledger :: "bool \<Rightarrow> (string \<Rightarrow> utext res) \<Rightarrow> session_info option \<Rightarrow> int \<Rightarrow> recall_ledger option res" where
  "load_ledger has_fs read session dedup =
     (case session of
        None \<Rightarrow> Inr None
      | Some si \<Rightarrow>
          if dedup \<le> 0 \<or> si_uri si = [] \<or> \<not> has_fs then Inr None
          else bind_res (resolve_turn si) (\<lambda>turn.
            let ledger = mk_ledger (si_uri si) turn dedup;
                parsed = parse_ledger (read (lg_uri ledger))
            in Inr (Some (ledger\<lparr>lg_data := fst parsed, lg_status := snd parsed\<rparr>))))"

definition ledger_entries :: "recall_ledger \<Rightarrow> (utext \<times> json) list" where
  "ledger_entries ledger = (case dict_get (lg_data ledger) ''entries'' of Some (JDict d) \<Rightarrow> d | _ \<Rightarrow> [])"

section \<open>Which URIs are cooled\<close>

definition record_detail :: "json \<Rightarrow> json option" where
  "record_detail entry = (case entry of JDict d \<Rightarrow> dict_get d ''detail'' | _ \<Rightarrow> None)"

fun cooled_of :: "int \<Rightarrow> int \<Rightarrow> (utext \<times> json) list \<Rightarrow> utext list res" where
  "cooled_of turn dedup [] = Inr []"
| "cooled_of turn dedup ((uri, r) # rest) =
     bind_res (record_turn r) (\<lambda>served.
     bind_res (cooled_of turn dedup rest) (\<lambda>cooled.
       case served of
         None \<Rightarrow> Inr cooled
       | Some s \<Rightarrow>
           if s > turn \<or> record_detail r = Some (JStr (cps ''uri'')) \<or> \<not> turn - s < dedup then Inr cooled
           else Inr (uri # cooled)))"

definition cooled_uris :: "recall_ledger \<Rightarrow> utext list res" where
  "cooled_uris ledger = cooled_of (lg_turn ledger) (lg_dedup_turns ledger) (ledger_entries ledger)"

section \<open>Recording what was served\<close>

definition served_record :: "int \<Rightarrow> tier \<Rightarrow> json" where
  "served_record turn t = JDict [(cps ''turn'', JInt turn), (cps ''detail'', JStr (cps (tier_name t)))]"

fun store_served :: "int \<Rightarrow> assembled_entry list \<Rightarrow> (utext \<times> json) list \<Rightarrow> (utext \<times> json) list" where
  "store_served turn [] stored = stored"
| "store_served turn (e # es) stored =
     store_served turn es
       (if ae_uri e = [] then stored else AList.update (cps (ae_uri e)) (served_record turn (ae_detail e)) stored)"

fun with_turns :: "(utext \<times> json) list \<Rightarrow> (utext \<times> json \<times> int option) list res" where
  "with_turns [] = Inr []"
| "with_turns ((u, r) # rest) =
     bind_res (record_turn r) (\<lambda>t. bind_res (with_turns rest) (\<lambda>rs. Inr ((u, r, t) # rs)))"

fun kept_records :: "int \<Rightarrow> int \<Rightarrow> (utext \<times> json \<times> int option) list \<Rightarrow> (utext \<times> json \<times> int) list" where
  "kept_records keep_from turn [] = []"
| "kept_records keep_from turn ((u, r, t) # rs) =
     (case t of
        None \<Rightarrow> kept_records keep_from turn rs
      | Some s \<Rightarrow>
          if keep_from \<le> s \<and> s \<le> turn then (u, r, s) # kept_records keep_from turn rs
          else kept_records keep_from turn rs)"

definition prune :: "int \<Rightarrow> int \<Rightarrow> (utext \<times> json \<times> int option) list \<Rightarrow> (utext \<times> json) list" where
  "prune keep_from turn rs =
     (let kept = kept_records keep_from turn rs
      in map (\<lambda>(u, r, t). (u, r))
           (if length kept > MAX_LEDGER_URIS then take MAX_LEDGER_URIS (sort_key (\<lambda>(u, r, t). - t) kept) else kept))"

definition ledger_payload :: "int \<Rightarrow> (utext \<times> json) list \<Rightarrow> json" where
  "ledger_payload turn pruned =
     JDict [(cps ''version'', JInt LEDGER_VERSION), (cps ''updated_turn'', JInt turn), (cps ''entries'', JDict pruned)]"

text \<open>The ledger after \<open>record\<close> and the text it tried to write.\<close>

definition record_entries :: "recall_ledger \<Rightarrow> assembled_entry list \<Rightarrow> bool \<Rightarrow> (recall_ledger \<times> utext) res" where
  "record_entries ledger entries write_ok =
     (let turn = lg_turn ledger;
          stored = store_served turn entries (ledger_entries ledger);
          keep_from = turn - lg_dedup_turns ledger * 4
      in bind_res (with_turns stored) (\<lambda>rs.
           Inr (if write_ok then ledger else ledger\<lparr>lg_status := ''write_failed''\<rparr>,
                dumps (ledger_payload turn (prune keep_from turn rs)))))"

section \<open>Lemmas\<close>

lemma record_turn_served [simp]: "record_turn (served_record turn t) = Inr (Some turn)"
  by (simp add: record_turn_def served_record_def dict_get_def)

lemma record_detail_served [simp]: "record_detail (served_record turn t) = Some (JStr (cps (tier_name t)))"
  by (simp add: record_detail_def served_record_def dict_get_def)

text \<open>The record of a URI is that of its last entry: an entry overwrites the record of an earlier one.\<close>

lemma map_of_store_served:
  "u \<noteq> [] \<Longrightarrow> map_of (store_served turn es stored) (cps u) =
     (case rev (filter (\<lambda>x. ae_uri x = u) es) of
        [] \<Rightarrow> map_of stored (cps u)
      | e # _ \<Rightarrow> Some (served_record turn (ae_detail e)))"
proof (induction es arbitrary: stored)
  case (Cons x es)
  then show ?case by (cases "rev (filter (\<lambda>x. ae_uri x = u) es)") (auto simp: update_conv')
qed simp

lemma distinct_store_served: "distinct (map fst stored) \<Longrightarrow> distinct (map fst (store_served turn es stored))"
  by (induction es arbitrary: stored) (auto simp: distinct_update)

lemma store_served_mem:
  "(u, r) \<in> set (store_served turn es stored) \<Longrightarrow> (u, r) \<in> set stored \<or> (\<exists>t. r = served_record turn t)"
  by (induction es arbitrary: stored) (auto dest!: set_update_values split: if_splits)

lemma with_turns_spec:
  "with_turns rs = Inr ts \<Longrightarrow> map (\<lambda>(u, r, t). (u, r)) ts = rs \<and> (\<forall>u r t. (u, r, t) \<in> set ts \<longrightarrow> record_turn r = Inr t)"
proof (induction rs arbitrary: ts rule: with_turns.induct)
  case (2 u r rest)
  from 2(2) obtain t ts' where t: "record_turn r = Inr t" and ts': "with_turns rest = Inr ts'" and ts: "ts = (u, r, t) # ts'"
    by (auto simp: bind_res_Inr_iff)
  from 2(1) [OF t ts'] have "map (\<lambda>(u, r, t). (u, r)) ts' = rest"
    and all: "\<forall>u r t. (u, r, t) \<in> set ts' \<longrightarrow> record_turn r = Inr t" by (rule conjunct1, rule conjunct2)
  then show ?case using t unfolding ts by simp
qed simp

lemma cooled_of_member:
  "cooled_of turn dedup rs = Inr cooled \<Longrightarrow> u \<in> set cooled \<longleftrightarrow>
     (\<exists>r s. (u, r) \<in> set rs \<and> record_turn r = Inr (Some s) \<and> s \<le> turn \<and> turn - s < dedup
        \<and> record_detail r \<noteq> Some (JStr (cps ''uri'')))"
proof (induction rs arbitrary: cooled rule: cooled_of.induct)
  case (2 turn dedup uri r rest)
  then obtain sv cs where s: "record_turn r = Inr sv" and c: "cooled_of turn dedup rest = Inr cs"
    by (auto simp: bind_res_Inr_iff)
  from 2(2) s c have "cooled = (case sv of None \<Rightarrow> cs | Some x \<Rightarrow>
      if x > turn \<or> record_detail r = Some (JStr (cps ''uri'')) \<or> \<not> turn - x < dedup then cs else uri # cs)"
    by (auto split: option.splits if_splits)
  with 2(1) [OF s c] s show ?case by (auto split: option.splits if_splits simp: not_less)
qed simp

section \<open>Pruning\<close>

lemma minimal_prefix:
  assumes "sorted (map f xs)" and "x \<in> set xs" and "\<forall>y \<in> set xs. f x \<le> (f y :: int)"
    and "length (filter (\<lambda>y. f y = f x) xs) \<le> n"
  shows "x \<in> set (take n xs)"
proof -
  from assms(2) obtain i where i: "i < length xs" "xs ! i = x" by (auto simp: in_set_conv_nth)
  have all: "f y = f x" if "y \<in> set (take (Suc i) xs)" for y
  proof -
    from that obtain j where "j < length (take (Suc i) xs)" "y = take (Suc i) xs ! j" by (auto simp: in_set_conv_nth)
    then have j: "j \<le> i" "y = xs ! j" by simp_all
    then have "f y \<le> f x" using sorted_nth_mono [OF assms(1), of j i] i by (simp add: less_Suc_eq_le)
    moreover have "y \<in> set xs" using that by (rule in_set_takeD)
    ultimately show ?thesis using assms(3) by force
  qed
  then have "length (filter (\<lambda>y. f y = f x) (take (Suc i) xs)) = Suc i" using i(1) by simp
  moreover have "length (filter (\<lambda>y. f y = f x) (take (Suc i) xs)) \<le> length (filter (\<lambda>y. f y = f x) xs)"
    by (metis append_take_drop_id filter_append le_add1 length_append)
  ultimately have "i < n" using assms(4) by linarith
  then show ?thesis using i by (auto simp: in_set_conv_nth intro!: exI [of _ i])
qed

lemma kept_records_mem:
  "(u, r, t) \<in> set (kept_records keep_from turn rs) \<longleftrightarrow> (u, r, Some t) \<in> set rs \<and> keep_from \<le> t \<and> t \<le> turn"
  by (induction keep_from turn rs rule: kept_records.induct) (auto split: option.splits)

lemma length_kept_at:
  "length (filter (\<lambda>x. snd (snd x) = t) (kept_records keep_from turn rs)) \<le> length (filter (\<lambda>x. snd (snd x) = Some t) rs)"
  by (induction keep_from turn rs rule: kept_records.induct) (auto split: option.splits)

lemma length_filter_update:
  "length (filter P (AList.update k v d)) \<le> length (filter P d) + 1"
  by (induction d) auto

lemma length_store_served:
  "length (filter P (store_served turn es stored)) \<le> length (filter P stored) + length es"
proof (induction es arbitrary: stored)
  case (Cons e es)
  let ?d = "if ae_uri e = [] then stored else AList.update (cps (ae_uri e)) (served_record turn (ae_detail e)) stored"
  have "length (filter P ?d) \<le> length (filter P stored) + 1" using length_filter_update by auto
  with Cons.IH [of ?d] show ?case by simp
qed simp

lemma prune_subset:
  "(u, r) \<in> set (prune keep_from turn rs) \<Longrightarrow> \<exists>t. (u, r, Some t) \<in> set rs \<and> keep_from \<le> t \<and> t \<le> turn"
proof -
  assume "(u, r) \<in> set (prune keep_from turn rs)"
  then obtain t where "(u, r, t) \<in> set (kept_records keep_from turn rs)"
    by (auto simp: prune_def Let_def split: if_splits dest!: in_set_takeD)
  then show ?thesis by (auto simp: kept_records_mem)
qed

lemma length_prune: "length (prune keep_from turn rs) \<le> MAX_LEDGER_URIS"
  by (simp add: prune_def Let_def)

text \<open>The records of the current turn survive pruning as long as they are at most as many as the ledger holds.\<close>

lemma prune_keeps_current:
  assumes "(u, r, Some turn) \<in> set rs" and "keep_from \<le> turn"
    and "length (filter (\<lambda>x. snd (snd x) = Some turn) rs) \<le> MAX_LEDGER_URIS"
  shows "(u, r) \<in> set (prune keep_from turn rs)"
proof -
  let ?kept = "kept_records keep_from turn rs" and ?f = "\<lambda>(u, r, t). - t :: int"
  have m: "(u, r, turn) \<in> set ?kept" using assms(1,2) by (simp add: kept_records_mem)
  have "(u, r, turn) \<in> set (take MAX_LEDGER_URIS (sort_key ?f ?kept))"
  proof (rule minimal_prefix)
    show "sorted (map ?f (sort_key ?f ?kept))" by simp
    show "(u, r, turn) \<in> set (sort_key ?f ?kept)" using m by simp
    show "\<forall>y \<in> set (sort_key ?f ?kept). ?f (u, r, turn) \<le> ?f y" by (auto simp: kept_records_mem)
    have "length (filter (\<lambda>y. ?f y = ?f (u, r, turn)) (sort_key ?f ?kept)) = length (filter (\<lambda>x. snd (snd x) = turn) ?kept)"
      by (simp add: filter_sort case_prod_beta)
    then show "length (filter (\<lambda>y. ?f y = ?f (u, r, turn)) (sort_key ?f ?kept)) \<le> MAX_LEDGER_URIS"
      using length_kept_at [of turn keep_from turn rs] assms(3) by linarith
  qed
  with m show ?thesis by (force simp: prune_def Let_def)
qed

lemma distinct_prune:
  assumes "distinct (map (\<lambda>(u, r, t). u) rs)"
  shows "distinct (map fst (prune keep_from turn rs))"
proof -
  have "distinct (map fst (kept_records keep_from turn rs))"
    using assms
  proof (induction keep_from turn rs rule: kept_records.induct)
    case (2 keep_from turn u r t rs)
    then have "u \<notin> fst ` set (kept_records keep_from turn rs)" by (force simp: kept_records_mem)
    with 2 show ?case by (auto split: option.splits)
  qed simp
  then have k: "distinct (map fst (kept_records keep_from turn rs))"
    "distinct (map fst (sort_key (\<lambda>(u, r, t). - t) (kept_records keep_from turn rs)))"
    by (simp_all add: distinct_map)
  have "distinct (map fst (take n (sort_key (\<lambda>(u, r, t). - t) (kept_records keep_from turn rs))))" for n
    using distinct_take [OF k(2)] by (simp add: take_map)
  note d = this k(1)
  have m: "map fst (map (\<lambda>(u, r, t). (u, r)) xs) = map fst xs" for xs :: "(utext \<times> json \<times> int) list" by auto
  show ?thesis unfolding prune_def Let_def m using d by simp
qed

section \<open>Properties of the ledger\<close>

definition ledger_ok :: "recall_ledger \<Rightarrow> bool" where
  "ledger_ok ledger \<longleftrightarrow> 0 \<le> lg_dedup_turns ledger \<and> wf_json (JDict (ledger_entries ledger))"

lemma wf_served [simp]: "wf_json (served_record turn t)"
  by (simp add: served_record_def)

lemma record_entries_payload:
  assumes "record_entries ledger es ok = Inr (ledger', body)"
  obtains rs where "with_turns (store_served (lg_turn ledger) es (ledger_entries ledger)) = Inr rs"
    and "body = dumps (ledger_payload (lg_turn ledger)
           (prune (lg_turn ledger - lg_dedup_turns ledger * 4) (lg_turn ledger) rs))"
  using assms by (auto simp: record_entries_def Let_def bind_res_Inr_iff)

text \<open>Reading a written ledger gives the pruned records back.\<close>

lemma parse_written:
  assumes "ledger_ok ledger" and "record_entries ledger es ok = Inr (ledger', body)"
  obtains rs where "with_turns (store_served (lg_turn ledger) es (ledger_entries ledger)) = Inr rs"
    and "fst (parse_ledger (Inr body)) = [(cps ''version'', JInt LEDGER_VERSION), (cps ''updated_turn'', JInt (lg_turn ledger)),
        (cps ''entries'', JDict (prune (lg_turn ledger - lg_dedup_turns ledger * 4) (lg_turn ledger) rs))]"
proof -
  let ?turn = "lg_turn ledger" and ?stored = "store_served (lg_turn ledger) es (ledger_entries ledger)"
  let ?keep = "lg_turn ledger - lg_dedup_turns ledger * 4"
  obtain rs where rs: "with_turns ?stored = Inr rs" and body: "body = dumps (ledger_payload ?turn (prune ?keep ?turn rs))"
    by (rule record_entries_payload [OF assms(2)])
  note spec = with_turns_spec [OF rs]
  have "distinct (map fst ?stored)" using assms(1) by (intro distinct_store_served) (simp add: ledger_ok_def)
  moreover have "map fst ?stored = map (\<lambda>(u, r, t). u) rs"
    unfolding conjunct1 [OF spec, symmetric] by auto
  ultimately have "distinct (map (\<lambda>(u, r, t). u) rs)" by simp
  then have d: "distinct (map fst (prune ?keep ?turn rs))" by (rule distinct_prune)
  have "wf_json r" if "(u, r) \<in> set (prune ?keep ?turn rs)" for u r
  proof -
    from prune_subset [OF that] obtain t where "(u, r, Some t) \<in> set rs" by blast
    then have "(u, r) \<in> set ?stored" using conjunct1 [OF spec, symmetric] by force
    then show ?thesis using store_served_mem assms(1) by (fastforce simp: ledger_ok_def)
  qed
  with d have "wf_json (ledger_payload ?turn (prune ?keep ?turn rs))"
    by (auto simp: ledger_payload_def)
  then have l: "loads body = Inr (ledger_payload ?turn (prune ?keep ?turn rs))" unfolding body by (rule loads_dumps_wf)
  moreover have "body \<noteq> []" by (simp add: body ledger_payload_def)
  ultimately show thesis using that [OF rs] by (simp add: parse_ledger_def ledger_payload_def)
qed

lemma cooled_of_total:
  "(\<forall>(u, r) \<in> set rs. \<exists>t. record_turn r = Inr t) \<Longrightarrow> \<exists>cooled. cooled_of turn dedup rs = Inr cooled"
proof (induction rs)
  case (Cons x rs)
  obtain u r where x: "x = (u, r)" by force
  from Cons x obtain t c where "record_turn r = Inr t" "cooled_of turn dedup rs = Inr c" by auto
  then show ?case by (auto simp: x split: option.splits)
qed simp

text \<open>Whatever text the file holds, a loaded ledger is well formed: the parser gives distinct keys.\<close>

lemma load_ledger_ok:
  assumes "load_ledger has_fs read si dedup = Inr (Some ledger)"
  shows "ledger_ok ledger"
proof -
  obtain s turn where s: "si = Some s" "ledger = (mk_ledger (si_uri s) turn dedup)
      \<lparr>lg_data := fst (parse_ledger (read (lg_uri (mk_ledger (si_uri s) turn dedup)))),
       lg_status := snd (parse_ledger (read (lg_uri (mk_ledger (si_uri s) turn dedup))))\<rparr>"
    using assms by (auto simp: load_ledger_def Let_def bind_res_Inr_iff split: option.splits if_splits)
  have "wf_json (JDict (fst (parse_ledger raw)))" for raw
    using loads_wf by (auto simp: parse_ledger_def simp del: wf_json.simps(3) split: sum.splits json.splits) auto
  then have "wf_json (JDict (lg_data ledger))" unfolding s(2) by simp
  then have "wf_json (JDict (ledger_entries ledger))"
    by (auto simp: ledger_entries_def dict_get_def split: option.splits json.splits dest!: map_of_SomeD) fastforce+
  moreover have "0 \<le> lg_dedup_turns ledger" unfolding s(2) by (simp add: mk_ledger_def)
  ultimately show ?thesis by (simp add: ledger_ok_def)
qed

text \<open>What was served is not served again within the cooldown. After a turn records its entries and the file
  is written, a request of the same session at most \<open>dedup_turns - 1\<close> turns later loads the ledger and finds every
  URI whose last entry had content among the cooled ones, as long as the turn served at most 500 URIs;
  what is read back is the text that was written.\<close>

lemma ledger_cooldown:
  assumes "ledger_ok ledger" and "record_entries ledger es True = Inr (ledger', body)"
    and "length (filter (\<lambda>(u, r). record_turn r = Inr (Some (lg_turn ledger))) (ledger_entries ledger)) + length es \<le> MAX_LEDGER_URIS"
    and "filter (\<lambda>x. ae_uri x = u) es = before @ [e]" and "u \<noteq> []" and "ae_detail e \<noteq> TUri"
    and "load_ledger True read (Some si) dedup = Inr (Some later)" and "read (lg_uri later) = Inr body"
    and "lg_turn ledger \<le> lg_turn later" and "lg_turn later < lg_turn ledger + dedup"
  shows "\<exists>cooled. cooled_uris later = Inr cooled \<and> cps u \<in> set cooled"
proof -
  let ?turn = "lg_turn ledger" and ?stored = "store_served (lg_turn ledger) es (ledger_entries ledger)"
  let ?keep = "lg_turn ledger - lg_dedup_turns ledger * 4"
  obtain rs where rs: "with_turns ?stored = Inr rs" and parsed: "fst (parse_ledger (Inr body)) =
      [(cps ''version'', JInt LEDGER_VERSION), (cps ''updated_turn'', JInt ?turn), (cps ''entries'', JDict (prune ?keep ?turn rs))]"
    by (rule parse_written [OF assms(1,2)])
  note spec = with_turns_spec [OF rs]
  have later: "lg_data later = fst (parse_ledger (read (lg_uri later)))" "lg_dedup_turns later = dedup"
    using assms(7) by (auto simp: load_ledger_def Let_def bind_res_Inr_iff mk_ledger_def split: if_splits prod.splits)
  have ents: "ledger_entries later = prune ?keep ?turn rs"
    unfolding ledger_entries_def later(1) assms(8) parsed by (simp add: dict_get_def)
  have "map_of ?stored (cps u) = Some (served_record ?turn (ae_detail e))"
    using map_of_store_served [OF assms(5)] assms(4) by simp
  then have "(cps u, served_record ?turn (ae_detail e)) \<in> set (map (\<lambda>(u, r, t). (u, r)) rs)"
    using map_of_SomeD conjunct1 [OF spec] by fastforce
  then obtain t where "(cps u, served_record ?turn (ae_detail e), t) \<in> set rs" by auto
  moreover from this have "t = Some ?turn" using conjunct2 [OF spec] by (metis record_turn_served sum.inject(2))
  ultimately have mem: "(cps u, served_record ?turn (ae_detail e), Some ?turn) \<in> set rs" by simp
  have "length (filter (\<lambda>x. snd (snd x) = Some ?turn) rs) \<le> length (filter (\<lambda>(u, r). record_turn r = Inr (Some ?turn)) ?stored)"
  proof -
    have "filter (\<lambda>(u, r). record_turn r = Inr (Some ?turn)) ?stored =
        map (\<lambda>(u, r, t). (u, r)) (filter (\<lambda>x. snd (snd x) = Some ?turn) rs)"
      unfolding conjunct1 [OF spec, symmetric] filter_map
      by (rule arg_cong [of _ _ "map _"], rule filter_cong) (use conjunct2 [OF spec] in auto)
    then show ?thesis by simp
  qed
  also have "\<dots> \<le> MAX_LEDGER_URIS"
    using length_store_served [of _ ?turn es "ledger_entries ledger"] assms(3) le_trans by blast
  finally have kept: "(cps u, served_record ?turn (ae_detail e)) \<in> set (prune ?keep ?turn rs)"
    using mem assms(1) by (intro prune_keeps_current) (auto simp: ledger_ok_def)
  have "\<forall>(u, r) \<in> set (prune ?keep ?turn rs). \<exists>t. record_turn r = Inr t"
    using prune_subset conjunct2 [OF spec] by blast
  then obtain cooled where c: "cooled_uris later = Inr cooled"
    using cooled_of_total unfolding cooled_uris_def ents by blast
  have "cps u \<in> set cooled"
    using kept assms(6,9,10) later(2) tier_name_inject [of "ae_detail e" TUri]
    by (subst cooled_of_member [OF c [unfolded cooled_uris_def ents]])
      (auto intro!: exI [of _ "served_record ?turn (ae_detail e)"])
  with c show ?thesis by blast
qed

text \<open>C34: the ledger is bounded. Whatever the file held, what \<open>record\<close> writes has at most 500 entries, each
  written within the last \<open>4 * dedup_turns\<close> turns and none ahead of the clock.\<close>

theorem ledger_bounded:
  assumes "load_ledger has_fs read0 si0 dedup0 = Inr (Some ledger)" and "record_entries ledger es True = Inr (ledger', body)"
    and "load_ledger True read (Some si) dedup = Inr (Some later)" and "read (lg_uri later) = Inr body"
  shows "length (ledger_entries later) \<le> MAX_LEDGER_URIS
    \<and> list_all (\<lambda>(u, r). \<exists>t. record_turn r = Inr (Some t)
          \<and> lg_turn ledger - 4 * lg_dedup_turns ledger \<le> t \<and> t \<le> lg_turn ledger) (ledger_entries later)"
proof -
  let ?turn = "lg_turn ledger" and ?keep = "lg_turn ledger - lg_dedup_turns ledger * 4"
  obtain rs where rs: "with_turns (store_served ?turn es (ledger_entries ledger)) = Inr rs" and parsed: "fst (parse_ledger (Inr body)) =
      [(cps ''version'', JInt LEDGER_VERSION), (cps ''updated_turn'', JInt ?turn), (cps ''entries'', JDict (prune ?keep ?turn rs))]"
    by (rule parse_written [OF load_ledger_ok [OF assms(1)] assms(2)])
  have "lg_data later = fst (parse_ledger (read (lg_uri later)))"
    using assms(3) by (auto simp: load_ledger_def Let_def bind_res_Inr_iff mk_ledger_def split: if_splits)
  then have ents: "ledger_entries later = prune ?keep ?turn rs"
    unfolding ledger_entries_def assms(4) parsed by (simp add: dict_get_def parsed)
  have "\<exists>t. record_turn r = Inr (Some t) \<and> ?turn - 4 * lg_dedup_turns ledger \<le> t \<and> t \<le> ?turn"
    if "(u, r) \<in> set (prune ?keep ?turn rs)" for u r
  proof -
    from prune_subset [OF that] obtain t where "(u, r, Some t) \<in> set rs" "?keep \<le> t" "t \<le> ?turn" by blast
    with conjunct2 [OF with_turns_spec [OF rs]] show ?thesis by (auto simp: mult.commute)
  qed
  with length_prune show ?thesis unfolding ents by (auto simp: list_all_iff)
qed

theorem ledger_bounded_witness:
  "\<exists>body later. load_ledger True (\<lambda>_. Inr body)
       (Some \<lparr>si_uri = ''viking://user/u/sessions/s'', si_total_message_count = None, si_live_messages = 7\<rparr>) 5 = Inr (Some later)
     \<and> length (ledger_entries later) \<le> MAX_LEDGER_URIS"
proof -
  let ?si = "\<lambda>n. \<lparr>si_uri = ''viking://user/u/sessions/s'', si_total_message_count = None, si_live_messages = n\<rparr>"
  obtain ledger where n: "load_ledger True (\<lambda>_. Inl StoreError) (Some (?si 3)) 5 = Inr (Some ledger)" "lg_data ledger = []"
    by (simp add: load_ledger_def resolve_turn_def mk_ledger_def Let_def parse_ledger_def)
  then obtain body l where r: "record_entries ledger [demo_entry (cps ''t'')] True = Inr (l, body)"
    by (auto simp: record_entries_def ledger_entries_def dict_get_def demo_entry_def bind_res_Inr_iff Let_def)
  obtain later where l: "load_ledger True (\<lambda>_. Inr body) (Some (?si 7)) 5 = Inr (Some later)"
    by (simp add: load_ledger_def resolve_turn_def mk_ledger_def Let_def)
  from ledger_bounded [OF n(1) r l] l show ?thesis by blast
qed

text \<open>one record can make the ledger unreadable for good. If a stored record carries an infinite turn, which JSON text may
  do, computing the cooled URIs raises, at every turn and for every cooldown, instead of
  skipping the record.\<close>

lemma infinite_turn_fails_request:
  "cooled_uris \<lparr>lg_uri = uri, lg_turn = turn, lg_dedup_turns = dedup,
       lg_data = [(cps ''entries'', JDict [(u, JDict [(cps ''turn'', JFloat (cps ''Infinity''))])])], lg_status = st\<rparr>
     = Inl OverflowError"
proof -
  have "strip_text (cps ''Infinity'') = cps ''Infinity''"
    by (simp add: strip_text_def lstrip_text_def rstrip_text_def cps_def is_space_cp_def)
  then have "parse_float (cps ''Infinity'') = Some PosInf"
    by (simp add: parse_float_def split_sign_def cps_def lower_cp_def)
  then show ?thesis
    by (simp add: cooled_uris_def ledger_entries_def dict_get_def record_turn_def)
qed

end
