(* ===== verification/Context_Pipeline.thy ===== *)
theory Context_Pipeline
  imports Context_Budget Context_Ledger
begin

text \<open>
  One context assembly, \<open>openviking/retrieve/context_assembler/pipeline.py\<close>, with query expansion (\<open>expansion.py\<close>) and
  the optional digest (\<open>rewrite.py\<close>). The services the pipeline talks to are the fields of \<open>world\<close>: the session, the intent analyzer,
  the search service, the file system and the language model, each with its failures as values.
\<close>

section \<open>Query expansion\<close>

record session_context =
  sc_summary :: utext
  sc_has_messages :: bool

fun collect_queries :: "utext list \<Rightarrow> utext list \<Rightarrow> utext list" where
  "collect_queries queries [] = queries"
| "collect_queries queries (p # ps) =
     (let planned = strip_text p;
          queries' = (if planned \<noteq> [] \<and> planned \<notin> set queries then queries @ [planned] else queries)
      in if length queries' \<ge> MAX_PLANNED_QUERIES then queries' else collect_queries queries' ps)"

definition expand_queries ::
  "utext \<Rightarrow> bool \<Rightarrow> string \<Rightarrow> session_context res \<Rightarrow> utext list res \<Rightarrow> utext list \<times> string" where
  "expand_queries query_text has_session mode session_context_res analyzed =
     (if mode \<noteq> ''auto'' \<or> \<not> has_session then ([query_text], ''off'')
      else case session_context_res of
          Inl _ \<Rightarrow> ([query_text], ''off'')
        | Inr info \<Rightarrow>
            if sc_summary info = [] \<and> \<not> sc_has_messages info then ([query_text], ''off'')
            else (case analyzed of
                    Inl _ \<Rightarrow> ([query_text], ''failed'')
                  | Inr planned \<Rightarrow> (collect_queries [query_text] planned, ''used'')))"

section \<open>The digest\<close>

definition DIGEST_HEADER :: utext where
  "DIGEST_HEADER = cps ''OpenViking memory digest:''"

definition MAX_BULLET_CHARS :: nat where
  "MAX_BULLET_CHARS = 500"

text \<open>\<open>str.upper\<close> as far as equality with an ASCII word needs it.\<close>

definition upper_cp :: "nat \<Rightarrow> nat" where
  "upper_cp c = (if 97 \<le> c \<and> c \<le> 122 then c - 32 else if c = 0x131 then 73 else if c = 0x17F then 83 else c)"

definition is_no_relevant :: "utext \<Rightarrow> bool" where
  "is_no_relevant t \<longleftrightarrow> map upper_cp t = cps ''NO_RELEVANT_MEMORY''"

definition uri_cp :: "nat \<Rightarrow> bool" where
  "uri_cp c \<longleftrightarrow> \<not> is_space_cp c \<and> c \<notin> {60, 62, 34, 39, 41, 93}"

text \<open>\<open>URI_PATTERN.findall\<close>.\<close>

function find_uris :: "utext \<Rightarrow> utext list" where
  "find_uris t =
     (if t = [] then []
      else if has_prefix (cps ''viking://'') t \<and> takeWhile uri_cp (drop 9 t) \<noteq> []
      then (cps ''viking://'' @ takeWhile uri_cp (drop 9 t)) # find_uris (dropWhile uri_cp (drop 9 t))
      else find_uris (tl t))"
  by pat_completeness auto
termination
  by (relation "measure length") (auto intro: le_less_trans [OF length_dropWhile_le])

declare find_uris.simps [simp del]

text \<open>A line that is a bullet, normalised and cut.\<close>

definition clean_bullet :: "utext \<Rightarrow> utext option" where
  "clean_bullet line =
     (case strip_text line of
        c # d # cs \<Rightarrow>
          if (c = 45 \<or> c = 42) \<and> is_space_cp d
          then Some (rstrip_text (take MAX_BULLET_CHARS ([45, 32] @ dropWhile is_space_cp (d # cs))))
          else None
      | _ \<Rightarrow> None)"

definition accepted_bullet :: "utext set option \<Rightarrow> utext \<Rightarrow> bool" where
  "accepted_bullet allowed b \<longleftrightarrow>
     find_uris b \<noteq> [] \<and> (case allowed of None \<Rightarrow> True | Some us \<Rightarrow> list_all (\<lambda>u. u \<in> us) (find_uris b))"

definition digest_bullets :: "utext set option \<Rightarrow> nat \<Rightarrow> utext \<Rightarrow> utext list" where
  "digest_bullets allowed n t =
     take n (filter (accepted_bullet allowed) (List.map_filter clean_bullet (splitlines t)))"

definition normalize_digest :: "utext \<Rightarrow> int \<Rightarrow> utext list option \<Rightarrow> utext" where
  "normalize_digest raw max_bullets valid_uris =
     (let t = strip_text raw
      in if t = [] \<or> is_no_relevant t then []
         else
           let allowed = map_option (\<lambda>us. set (filter (\<lambda>u. u \<noteq> []) (map strip_text us))) valid_uris;
               bullets = digest_bullets allowed (nat (max 1 max_bullets)) t
           in if bullets = [] then [] else DIGEST_HEADER @ [10] @ join_nl bullets)"

definition server_rewrite_enabled :: "json \<Rightarrow> bool \<Rightarrow> bool" where
  "server_rewrite_enabled mode planner_configured =
     (mode = JBool True \<or> (mode = JStr (cps ''auto'') \<and> planner_configured))"

text \<open>What the planner model did: no planner, a timeout, another failure, or a response, with the usage counters
  (prompt tokens, completion tokens, calls) before and after.\<close>

datatype planner_outcome =
    NoPlanner
  | PlannerTimeout
  | PlannerFailed
  | PlannerResponse utext "(int \<times> int \<times> int) option" "(int \<times> int \<times> int) option"

definition usage_delta :: "(int \<times> int \<times> int) option \<Rightarrow> (int \<times> int \<times> int) option \<Rightarrow> (int \<times> int) option" where
  "usage_delta before after =
     (case (before, after) of
        (Some (p, c, k), Some (p', c', k')) \<Rightarrow> if k' - k = 1 then Some (max 0 (p' - p), max 0 (c' - c)) else None
      | _ \<Rightarrow> None)"

definition rewrite_context ::
  "planner_outcome \<Rightarrow> utext \<Rightarrow> int \<Rightarrow> utext list option \<Rightarrow> utext \<times> string \<times> (int \<times> int) option" where
  "rewrite_context outcome rendered max_bullets valid_uris =
     (if strip_text rendered = [] then ([], ''empty'', None)
      else case outcome of
          NoPlanner \<Rightarrow> ([], ''failed'', None)
        | PlannerTimeout \<Rightarrow> ([], ''timeout'', None)
        | PlannerFailed \<Rightarrow> ([], ''failed'', None)
        | PlannerResponse response before after \<Rightarrow>
            let usage = usage_delta before after;
                digest = normalize_digest response max_bullets valid_uris
            in if digest \<noteq> [] then (digest, ''ok'', usage)
               else if is_no_relevant (strip_text response) then ([], ''no_relevant'', usage)
               else ([], ''failed'', usage))"

section \<open>The pipeline\<close>

record world =
  w_intent_enabled :: bool
  w_session :: "session_info option"
  w_session_context :: "session_context res"
  w_analyzed :: "utext list res"
  w_has_fs :: bool
  w_read_file :: "string \<Rightarrow> utext res"
  w_write_ok :: bool
  w_find :: finder
  w_content :: content_env
  w_hash :: "utext \<Rightarrow> int"
  w_planner_configured :: bool
  w_planner :: planner_outcome

record assemble_result =
  ar_entries :: "assembled_entry list"
  ar_rendered :: utext
  ar_digest :: utext
  ar_gather_stats :: gather_stats
  ar_plan_stats :: plan_stats
  ar_queries :: "utext list"
  ar_expansion :: string
  ar_rewrite :: string
  ar_rewrite_usage :: "(int \<times> int) option"
  ar_cooled :: nat
  ar_ledger_text :: "utext option"

definition readable_candidates :: "detail_pins \<Rightarrow> int \<Rightarrow> candidate list \<Rightarrow> candidate list" where
  "readable_candidates pins max_tok candidates =
     (let cap = per_entry_cap max_tok (length candidates)
      in filter (\<lambda>c. needs_content c (for_category pins (c_category c)) \<or> oversized_abstract_needs_body c cap) candidates)"

definition used_session :: "world \<Rightarrow> assemble_params \<Rightarrow> session_info option" where
  "used_session w p =
     (let mode = (if w_intent_enabled w then query_expansion p else ''off'')
      in if truthy_str (session_id p) \<and> (mode = ''auto'' \<or> dedup_turns p > 0) then w_session w else None)"

definition excluded_uris :: "assemble_params \<Rightarrow> utext list \<Rightarrow> utext set" where
  "excluded_uris p cooled = normalize_exclude_uris (exclude_uris p) \<union> set cooled"

definition rewrite_outcome :: "world \<Rightarrow> assemble_params \<Rightarrow> assembled_entry list \<Rightarrow> utext \<times> string \<times> (int \<times> int) option" where
  "rewrite_outcome w p entries =
     (let rendered = (if render p then render_context entries else [])
      in if entries \<noteq> [] \<and> server_rewrite_enabled (rewrite p) (w_planner_configured w)
         then rewrite_context (w_planner w) (if rendered \<noteq> [] then rendered else render_context entries)
                (rewrite_max_bullets p) (Some (map (\<lambda>e. cps (ae_uri e)) entries))
         else ([], ''off'', None))"

text \<open>The ledger file that the assembly tried to write, if any.\<close>

definition recorded_text :: "recall_ledger option \<Rightarrow> assembled_entry list \<Rightarrow> bool \<Rightarrow> utext option" where
  "recorded_text ledger served write_ok =
     (case ledger of
        None \<Rightarrow> None
      | Some l \<Rightarrow>
          if served = [] then None
          else (case record_entries l served write_ok of Inl _ \<Rightarrow> None | Inr r \<Rightarrow> Some (snd r)))"

definition finish_assembly ::
  "world \<Rightarrow> assemble_params \<Rightarrow> recall_ledger option \<Rightarrow> utext list \<Rightarrow> utext list \<times> string \<Rightarrow> candidate list \<times> gather_stats
     \<Rightarrow> assembled_entry list \<times> plan_stats \<Rightarrow> assemble_result" where
  "finish_assembly w p ledger cooled expanded gathered plan =
     (let entries = fst plan;
          outcome = rewrite_outcome w p entries;
          status = fst (snd outcome);
          served = (if status \<noteq> ''no_relevant'' then entries else [])
      in \<lparr>ar_entries = entries,
          ar_rendered = (if status = ''no_relevant'' \<or> \<not> render p then [] else render_context entries),
          ar_digest = fst outcome,
          ar_gather_stats = snd gathered, ar_plan_stats = snd plan, ar_queries = fst expanded, ar_expansion = snd expanded,
          ar_rewrite = status, ar_rewrite_usage = snd (snd outcome), ar_cooled = length (remdups cooled),
          ar_ledger_text = recorded_text ledger served (w_write_ok w)\<rparr>)"

definition assemble_context :: "world \<Rightarrow> request_context \<Rightarrow> assemble_params \<Rightarrow> assemble_result res" where
  "assemble_context w ctx p =
     bind_res (normalize_quotas (quotas p) (purpose p)) (\<lambda>qs.
     bind_res (normalize_penalties (other_peer_penalty p)) (\<lambda>penalties.
       let session = used_session w p;
           mode = (if w_intent_enabled w then query_expansion p else ''off'');
           expanded = expand_queries (query p) (session \<noteq> None) mode (w_session_context w) (w_analyzed w)
       in
     bind_res (load_ledger (w_has_fs w) (w_read_file w) session (dedup_turns p)) (\<lambda>ledger.
     bind_res (case ledger of None \<Rightarrow> Inr [] | Some l \<Rightarrow> cooled_uris l) (\<lambda>cooled.
     bind_res (gather_candidates (w_find w)
                 (mk_gather_env ctx (fst expanded) (search_filter p) (peer_scope p) penalties (excluded_uris p cooled))
                 qs (limit p)) (\<lambda>gathered.
       let pins = normalize_detail (detail p);
           contents = prefetch_contents (w_content w) (readable_candidates pins (max_tokens p) (fst gathered))
       in bind_res (plan_entries (w_content w) (w_hash w) (fst gathered) contents (max_tokens p) (DetailResolved pins)) (\<lambda>plan.
            Inr (finish_assembly w p ledger cooled expanded gathered plan)))))))"

section \<open>Lemmas\<close>

lemma collect_queries_spec:
  "distinct qs \<Longrightarrow> length qs < MAX_PLANNED_QUERIES \<Longrightarrow>
     \<exists>rest. collect_queries qs ps = qs @ rest \<and> distinct (qs @ rest) \<and> length (qs @ rest) \<le> MAX_PLANNED_QUERIES
       \<and> [] \<notin> set rest"
proof (induction ps arbitrary: qs)
  case (Cons p ps)
  let ?qs = "if strip_text p \<noteq> [] \<and> strip_text p \<notin> set qs then qs @ [strip_text p] else qs"
  show ?case
  proof (cases "length ?qs \<ge> MAX_PLANNED_QUERIES")
    case False
    then have "distinct ?qs" "length ?qs < MAX_PLANNED_QUERIES" using Cons.prems by auto
    from Cons.IH [OF this] False show ?thesis by (auto simp: Let_def split: if_splits)
  next
    case True
    then show ?thesis using Cons.prems by (auto simp: Let_def split: if_splits)
  qed
qed simp

lemma uri_cp_newline [simp]: "\<not> uri_cp 10"
  by (simp add: uri_cp_def is_space_cp_def)

lemma takeWhile_newline: "takeWhile uri_cp (a @ 10 # b) = takeWhile uri_cp a"
  by (induction a) auto

lemma dropWhile_newline: "dropWhile uri_cp (a @ 10 # b) = dropWhile uri_cp a @ 10 # b"
  by (induction a) auto

lemma scheme_append:
  assumes "length s = 9" and "10 \<notin> set s"
  shows "has_prefix s (a @ 10 # b) \<longleftrightarrow> has_prefix s a"
proof (cases "9 \<le> length a")
  case False
  then have "10 \<in> set (take 9 (a @ 10 # b))" by (simp add: take_append Let_def take_Cons')
  moreover have "length (take 9 a) \<noteq> 9" using False by simp
  ultimately show ?thesis using assms unfolding has_prefix_def by metis
qed (simp add: has_prefix_def assms(1))

lemma find_uris_append: "find_uris (a @ 10 # b) = find_uris a @ find_uris b"
proof (induction a rule: find_uris.induct)
  case (1 t)
  let ?s = "cps ''viking://''"
  have s: "length ?s = 9" "10 \<notin> set ?s" by (simp_all add: cps_def)
  note p = scheme_append [OF s, of t b]
  note unf = find_uris.simps [of "t @ 10 # b"] find_uris.simps [of t]
  show ?case
  proof (cases "t = []")
    case True
    have "\<not> has_prefix ?s (10 # b)" by (simp add: has_prefix_def cps_def)
    then show ?thesis using True by (simp add: find_uris.simps [of "10 # b"] find_uris.simps [of "[]"])
  next
    case ne: False
    then have tl: "tl (t @ 10 # b) = tl t @ 10 # b" by simp
    show ?thesis
    proof (cases "has_prefix ?s t \<and> takeWhile uri_cp (drop 9 t) \<noteq> []")
      case True
      then have l: "9 \<le> length t" by (metis drop_all nle_le takeWhile.simps(1))
      then have d: "drop 9 (t @ 10 # b) = drop 9 t @ 10 # b" by simp
      show ?thesis
        using "1.IH"(1) [OF ne True] True p ne unfolding unf d dropWhile_newline takeWhile_newline by simp
    next
      case False
      have n: "\<not> (has_prefix ?s (t @ 10 # b) \<and> takeWhile uri_cp (drop 9 (t @ 10 # b)) \<noteq> [])"
      proof
        assume a: "has_prefix ?s (t @ 10 # b) \<and> takeWhile uri_cp (drop 9 (t @ 10 # b)) \<noteq> []"
        then have h: "has_prefix ?s t" using p by blast
        then have "9 \<le> length t" using s(1) unfolding has_prefix_def by (metis length_take min.cobounded1)
        then have "takeWhile uri_cp (drop 9 (t @ 10 # b)) = takeWhile uri_cp (drop 9 t)"
          using takeWhile_newline [of "drop 9 t" b] by simp
        with a h False show False by simp
      qed
      show ?thesis using "1.IH"(2) [OF ne False] ne unfolding unf if_not_P [OF False] if_not_P [OF n] tl by simp
    qed
  qed
qed

lemma find_uris_join: "find_uris (join_nl bs) = concat (map find_uris bs)"
  by (induction bs rule: join_nl.induct) (simp_all add: find_uris_append find_uris.simps [of "[]"])

lemma find_uris_header: "find_uris (DIGEST_HEADER @ 10 # t) = find_uris t"
proof -
  have "find_uris DIGEST_HEADER = []" by code_simp
  then show ?thesis by (simp add: find_uris_append)
qed

lemma clean_bullet_length:
  assumes "clean_bullet l = Some b"
  shows "length b \<le> MAX_BULLET_CHARS"
proof -
  obtain t where "b = rstrip_text (take MAX_BULLET_CHARS t)"
    using assms by (auto simp: clean_bullet_def split: list.splits if_splits)
  then show ?thesis by (simp add: rstrip_text_def length_dropWhile_le [THEN order_trans])
qed

lemma digest_bullets_spec:
  assumes "b \<in> set (digest_bullets allowed n t)"
  shows "length b \<le> MAX_BULLET_CHARS \<and> accepted_bullet allowed b"
proof -
  have "b \<in> set (filter (accepted_bullet allowed) (List.map_filter clean_bullet (splitlines t)))"
    using assms unfolding digest_bullets_def by (rule in_set_takeD)
  then show ?thesis by (auto simp: List.map_filter_def clean_bullet_length)
qed

lemma normalize_digest_cases:
  assumes "normalize_digest raw k valid_uris \<noteq> []"
  obtains bs where "normalize_digest raw k valid_uris = DIGEST_HEADER @ 10 # join_nl bs" and "bs \<noteq> []"
    and "bs = digest_bullets (map_option (\<lambda>us. set (filter (\<lambda>u. u \<noteq> []) (map strip_text us))) valid_uris)
           (nat (max 1 k)) (strip_text raw)"
  using assms by (auto simp: normalize_digest_def Let_def split: if_splits)

lemma digest_uris_valid: "set (find_uris (normalize_digest raw k (Some us))) \<subseteq> strip_text ` set us"
proof (cases "normalize_digest raw k (Some us) = []")
  case False
  then obtain bs where d: "normalize_digest raw k (Some us) = DIGEST_HEADER @ 10 # join_nl bs"
    and bs: "bs = digest_bullets (Some (set (filter (\<lambda>u. u \<noteq> []) (map strip_text us)))) (nat (max 1 k)) (strip_text raw)"
    by (rule normalize_digest_cases) simp
  have "set (find_uris b) \<subseteq> strip_text ` set us" if "b \<in> set bs" for b
    using digest_bullets_spec [OF that [unfolded bs]] by (auto simp: accepted_bullet_def list_all_iff)
  then show ?thesis unfolding d find_uris_header find_uris_join by auto
qed (simp add: find_uris.simps)

text \<open>the digest contract. Whatever the model answered, a digest that is passed on is the header and between one and
  \<open>max_bullets\<close> bullets (at least 1), each of at most 500 characters with a citation left after the cut, and every
  \<open>viking://\<close> URI that occurs anywhere in the digest text is one of the URIs the context was made of.\<close>

lemma digest_contract:
  assumes "normalize_digest raw k (Some us) \<noteq> []"
  shows "\<exists>bs. normalize_digest raw k (Some us) = DIGEST_HEADER @ 10 # join_nl bs
      \<and> 1 \<le> length bs \<and> int (length bs) \<le> max 1 k
      \<and> list_all (\<lambda>b. length b \<le> MAX_BULLET_CHARS \<and> find_uris b \<noteq> []) bs
      \<and> set (find_uris (normalize_digest raw k (Some us))) \<subseteq> strip_text ` set us"
proof -
  from assms obtain bs where d: "normalize_digest raw k (Some us) = DIGEST_HEADER @ 10 # join_nl bs" "bs \<noteq> []"
    and bs: "bs = digest_bullets (Some (set (filter (\<lambda>u. u \<noteq> []) (map strip_text us)))) (nat (max 1 k)) (strip_text raw)"
    by (rule normalize_digest_cases) simp
  have "length bs \<le> nat (max 1 k)" by (simp add: bs digest_bullets_def)
  moreover have "1 \<le> length bs" using d(2) by (cases bs) auto
  moreover have "list_all (\<lambda>b. length b \<le> MAX_BULLET_CHARS \<and> find_uris b \<noteq> []) bs"
    using digest_bullets_spec unfolding list_all_iff bs by (blast dest: accepted_bullet_def [THEN iffD1])
  moreover note d(1) digest_uris_valid [of raw k us]
  ultimately show ?thesis by (intro exI [of _ bs] conjI) (assumption | simp)+
qed

definition demo_line :: utext where
  "demo_line = cps ''- viking://u''"

section \<open>One assembly\<close>

lemma assemble_steps:
  assumes "assemble_context w ctx p = Inr r"
  obtains qs penalties ledger cooled gathered contents plan expanded
  where "normalize_quotas (quotas p) (purpose p) = Inr qs"
    and "load_ledger (w_has_fs w) (w_read_file w) (used_session w p) (dedup_turns p) = Inr ledger"
    and "(case ledger of None \<Rightarrow> Inr [] | Some l \<Rightarrow> cooled_uris l) = Inr cooled"
    and "gather_candidates (w_find w)
           (mk_gather_env ctx (fst expanded) (search_filter p) (peer_scope p) penalties (excluded_uris p cooled)) qs (limit p)
           = Inr gathered"
    and "plan_entries (w_content w) (w_hash w) (fst gathered) contents (max_tokens p)
           (DetailResolved (normalize_detail (detail p))) = Inr plan"
    and "r = finish_assembly w p ledger cooled expanded gathered plan"
  using assms by (simp add: assemble_context_def bind_res_Inr_iff Let_def del: split_paired_Ex) (elim exE conjE, rule that, assumption+, rule sym)

lemma finish_assembly_sel [simp]:
  "ar_entries (finish_assembly w p ledger cooled expanded gathered plan) = fst plan"
  "ar_digest (finish_assembly w p ledger cooled expanded gathered plan) = fst (rewrite_outcome w p (fst plan))"
  "ar_rewrite (finish_assembly w p ledger cooled expanded gathered plan) = fst (snd (rewrite_outcome w p (fst plan)))"
  "ar_queries (finish_assembly w p ledger cooled expanded gathered plan) = fst expanded"
  by (simp_all add: finish_assembly_def Let_def)

lemma assembled_uris:
  assumes "assemble_context w ctx p = Inr r" and "e \<in> set (ar_entries r)"
    and "load_ledger (w_has_fs w) (w_read_file w) (used_session w p) (dedup_turns p) = Inr ledger"
    and "(case ledger of None \<Rightarrow> Inr [] | Some l \<Rightarrow> cooled_uris l) = Inr cooled"
  shows "cps (ae_uri e) \<notin> excluded_uris p cooled"
proof -
  from assms(1) obtain qs penalties ledger' cooled' gathered contents plan expanded where
    l: "load_ledger (w_has_fs w) (w_read_file w) (used_session w p) (dedup_turns p) = Inr ledger'"
    and k: "(case ledger' of None \<Rightarrow> Inr [] | Some l \<Rightarrow> cooled_uris l) = Inr cooled'"
    and g: "gather_candidates (w_find w)
           (mk_gather_env ctx (fst expanded) (search_filter p) (peer_scope p) penalties (excluded_uris p cooled')) qs (limit p)
           = Inr (fst gathered, snd gathered)"
    and pl: "plan_entries (w_content w) (w_hash w) (fst gathered) contents (max_tokens p)
           (DetailResolved (normalize_detail (detail p))) = Inr (fst plan, snd plan)"
    and r: "r = finish_assembly w p ledger' cooled' expanded gathered plan"
    by (rule assemble_steps) (simp only: prod.collapse)
  have "ledger' = ledger" using l assms(3) by simp
  then have ck: "cooled' = cooled" using k assms(4) by simp
  have "ae_uri e \<in> set (map ae_uri (fst plan))" using assms(2) by (simp add: r)
  then have "ae_uri e \<in> set (map c_base_uri (fst gathered))"
    by (rule list_emb_set [OF plan_entry_candidate [OF pl]]) simp
  then obtain c where c: "c \<in> set (fst gathered)" "ae_uri e = c_base_uri c" by auto
  then obtain item b where "build_one (mk_gather_env ctx (fst expanded) (search_filter p) (peer_scope p) penalties
      (excluded_uris p cooled)) item b = Built c"
    using gathered_from_hit [OF g c(1)] unfolding ck by blast
  from built_fields(5) [OF this] c(2) show ?thesis by (simp add: mk_gather_env_def)
qed

text \<open>C5: an assembled context respects the request. Whatever the services answer, the rendered block is estimated at no more
  than \<open>max_tokens\<close> (at least 1), it is the rendering of the returned entries or empty, and no entry is one of the
  URIs that the request excludes.\<close>

theorem assembled_within_request:
  assumes "assemble_context w ctx p = Inr r"
  shows "estimate_text_tokens (ar_rendered r) \<le> max 1 (max_tokens p)
    \<and> ar_rendered r \<in> {[], render_context (ar_entries r)}
    \<and> cps ` ae_uri ` set (ar_entries r) \<inter> normalize_exclude_uris (exclude_uris p) = {}"
proof -
  from assms obtain qs penalties ledger cooled gathered contents plan expanded where
    l: "load_ledger (w_has_fs w) (w_read_file w) (used_session w p) (dedup_turns p) = Inr ledger"
    "(case ledger of None \<Rightarrow> Inr [] | Some l \<Rightarrow> cooled_uris l) = Inr cooled"
    and pl: "plan_entries (w_content w) (w_hash w) (fst gathered) contents (max_tokens p)
           (DetailResolved (normalize_detail (detail p))) = Inr (fst plan, snd plan)"
    and r: "r = finish_assembly w p ledger cooled expanded gathered plan"
    by (rule assemble_steps) (simp only: prod.collapse)
  have shown: "ar_rendered r = [] \<or> ar_rendered r = render_context (ar_entries r)"
    by (simp add: r finish_assembly_def Let_def)
  have "estimate_text_tokens (render_context (ar_entries r)) \<le> max 1 (max_tokens p)"
    using plan_tokens [OF pl] render_context_tokens [of "fst plan"] by (simp add: r)
  moreover have "estimate_text_tokens [] \<le> max 1 (max_tokens p)" by (simp add: estimate_text_tokens_def)
  ultimately have "estimate_text_tokens (ar_rendered r) \<le> max 1 (max_tokens p)" using shown by metis
  moreover have "cps ` ae_uri ` set (ar_entries r) \<inter> normalize_exclude_uris (exclude_uris p) = {}"
    using assembled_uris [OF assms _ l] by (auto simp: excluded_uris_def)
  ultimately show ?thesis using shown by blast
qed

text \<open>C15: the digest fails closed. A digest is passed on exactly when the rewrite reports success; every \<open>viking://\<close> URI in it
  is the URI of a returned entry; and when the model finds nothing relevant the block is blank and
  nothing is recorded as served.\<close>

theorem assembled_digest:
  assumes "assemble_context w ctx p = Inr r"
  shows "(ar_digest r \<noteq> [] \<longleftrightarrow> ar_rewrite r = ''ok'')
    \<and> set (find_uris (ar_digest r)) \<subseteq> (\<lambda>e. strip_text (cps (ae_uri e))) ` set (ar_entries r)
    \<and> (if ar_rewrite r = ''no_relevant'' then ar_rendered r = [] \<and> ar_ledger_text r = None
       else ar_rendered r = (if render p then render_context (ar_entries r) else []))"
proof -
  from assms obtain ledger cooled gathered plan expanded where
    r: "r = finish_assembly w p ledger cooled expanded gathered plan" by (rule assemble_steps)
  let ?o = "rewrite_outcome w p (fst plan)"
  have ok: "fst ?o \<noteq> [] \<longleftrightarrow> fst (snd ?o) = ''ok''"
    by (auto simp: rewrite_outcome_def rewrite_context_def Let_def split: planner_outcome.splits)
  have "fst ?o = [] \<or> (\<exists>raw k. fst ?o = normalize_digest raw k (Some (map (\<lambda>e. cps (ae_uri e)) (fst plan))))"
    by (auto simp: rewrite_outcome_def rewrite_context_def Let_def split: planner_outcome.splits)
  then have "set (find_uris (fst ?o)) \<subseteq> strip_text ` set (map (\<lambda>e. cps (ae_uri e)) (fst plan))"
  proof
    assume "\<exists>raw k. fst ?o = normalize_digest raw k (Some (map (\<lambda>e. cps (ae_uri e)) (fst plan)))"
    then show ?thesis using digest_uris_valid by metis
  qed (simp add: find_uris.simps)
  then have "set (find_uris (ar_digest r)) \<subseteq> (\<lambda>e. strip_text (cps (ae_uri e))) ` set (ar_entries r)"
    by (simp add: r image_image)
  moreover have "if ar_rewrite r = ''no_relevant'' then ar_rendered r = [] \<and> ar_ledger_text r = None
       else ar_rendered r = (if render p then render_context (ar_entries r) else [])"
    by (auto simp: r finish_assembly_def Let_def recorded_text_def split: option.splits)
  ultimately show ?thesis using ok by (simp add: r)
qed

lemma record_entries_written:
  assumes "recorded_text (Some ledger) served ok = Some body"
  shows "\<exists>l. record_entries ledger served True = Inr (l, body)"
  using assms by (auto simp: recorded_text_def record_entries_def Let_def bind_res_Inr_iff split: if_splits sum.splits)


section \<open>Two concrete requests\<close>

definition demo_hits :: finder where
  "demo_hits req = Inr (Some \<lparr>fr_memories = [],
     fr_resources = [\<lparr>hit_uri = ''viking://resources/r.md'', hit_score = 1/2, hit_abstract = cps ''x'', hit_overview = [],
       hit_level = 2, hit_category = []\<rparr>],
     fr_skills = []\<rparr>)"

definition demo_world :: "utext res \<Rightarrow> nat \<Rightarrow> world" where
  "demo_world file messages = \<lparr>w_intent_enabled = True,
     w_session = Some \<lparr>si_uri = ''viking://user/u/sessions/s'', si_total_message_count = None, si_live_messages = messages\<rparr>,
     w_session_context = Inl ValueError, w_analyzed = Inr [], w_has_fs = True, w_read_file = (\<lambda>_. file), w_write_ok = True,
     w_find = demo_hits, w_content = demo_env_c, w_hash = (\<lambda>t. int (length t)), w_planner_configured = False,
     w_planner = NoPlanner\<rparr>"

definition demo_params :: assemble_params where
  "demo_params = \<lparr>query = cps ''q'', image_url = None, limit = 10, score_threshold = None, search_filter = None,
     session_id = Some ''s'', query_expansion = ''auto'', max_tokens = demo_budget, quotas = None, purpose = None,
     detail = DetailValue JNull, dedup_turns = 5, exclude_uris = None, peer_scope = ''all'', other_peer_penalty = PenaltyNone,
     rewrite = JBool False, rewrite_max_bullets = 6, render = True\<rparr>"

abbreviation demo_rc :: request_context where
  "demo_rc \<equiv> c_read_ctx (demo_candidate False)"

lemma demo_gathered:
  "map_sum id fst (gather_candidates demo_hits
      (mk_gather_env demo_rc [cps ''q''] None ''all'' DEFAULT_OTHER_PEER_PENALTIES {}) None 10)
     = Inr [demo_candidate False]"
  "map_sum id fst (gather_candidates demo_hits
      (mk_gather_env demo_rc [cps ''q''] None ''all'' DEFAULT_OTHER_PEER_PENALTIES {cps ''viking://resources/r.md''}) None 10)
     = Inr []"
  by code_simp+

lemma demo_readable: "readable_candidates (normalize_detail (DetailValue JNull)) m [demo_candidate False] = []"
proof -
  have o_cat: "opt_in_category (c_category (demo_candidate False))" and d: "\<not> c_is_directory (demo_candidate False)"
    by (simp_all add: opt_in_category_def demo_candidate_def FULL_BODY_ABSTRACT_CATEGORIES_def MEMORY_CATEGORIES_def
        OTHER_MEMORY_CATEGORY_def)
  have pin: "for_category (normalize_detail (DetailValue JNull)) k = None" for k
    by (simp add: for_category_def normalize_detail_def pinnable_def PINNABLE_TIERS_def)
  have "abstract_substitute (demo_candidate False) = TUri"
    using o_cat by (simp add: abstract_substitute_def opt_in_category_def)
  then show ?thesis
    by (simp add: readable_candidates_def pin opt_in_not_read [OF o_cat d] oversized_abstract_needs_body_def)
qed

lemma demo_plan_empty: "\<exists>st. plan_entries env h [] contents m d = Inr ([], st)"
  by (simp add: plan_entries_def Let_def)

lemma demo_plan_resolved:
  "\<exists>st. plan_entries demo_env_c (\<lambda>t. int (length t)) [demo_candidate False] [] demo_budget
      (DetailResolved (normalize_detail (DetailValue JNull)))
      = Inr ([make_entry (demo_candidate False) TAbstract (cps ''x'')], st)"
proof -
  have "plan_entries demo_env_c (\<lambda>t. int (length t)) [demo_candidate False] [] demo_budget
      (DetailResolved (normalize_detail (DetailValue JNull)))
    = plan_entries demo_env_c (\<lambda>t. int (length t)) [demo_candidate False] [] demo_budget (DetailValue JNull)"
    by (simp only: plan_entries_def normalize_detail_def detail_request.case)
  then show ?thesis using demo_plan by simp
qed

lemma demo_assembly:
  assumes "load_ledger True (\<lambda>_. file) (Some \<lparr>si_uri = ''viking://user/u/sessions/s'', si_total_message_count = None,
      si_live_messages = n\<rparr>) 5 = Inr (Some l)"
    and "cooled_uris l = Inr cooled" and "cooled \<in> {[], [cps ''viking://resources/r.md'']}"
  shows "\<exists>r. assemble_context (demo_world file n) demo_rc demo_params = Inr r
    \<and> ar_entries r = (if cooled = [] then [make_entry (demo_candidate False) TAbstract (cps ''x'')] else [])
    \<and> ar_ledger_text r = recorded_text (Some l) (ar_entries r) True"
proof -
  let ?w = "demo_world file n" and ?p = demo_params
  have session: "used_session ?w ?p = w_session ?w"
    by (simp add: used_session_def demo_world_def demo_params_def truthy_str_def)
  have ex: "excluded_uris ?p cooled = set cooled"
    by (simp add: excluded_uris_def demo_params_def normalize_exclude_uris_def)
  have fields: "quotas ?p = None" "purpose ?p = None" "other_peer_penalty ?p = PenaltyNone" "query ?p = cps ''q''"
    "query_expansion ?p = ''auto''" "dedup_turns ?p = 5" "search_filter ?p = None" "peer_scope ?p = ''all''" "limit ?p = 10"
    "detail ?p = DetailValue JNull" "max_tokens ?p = demo_budget"
    by (simp_all add: demo_params_def)
  have services: "w_session ?w = Some \<lparr>si_uri = ''viking://user/u/sessions/s'', si_total_message_count = None, si_live_messages = n\<rparr>"
    "w_intent_enabled ?w" "w_session_context ?w = Inl ValueError" "w_has_fs ?w" "w_read_file ?w = (\<lambda>_. file)"
    "w_find ?w = demo_hits" "w_content ?w = demo_env_c" "w_hash ?w = (\<lambda>t. int (length t))"
    by (simp_all add: demo_world_def)
  have no_digest: "rewrite_outcome ?w ?p es = ([], ''off'', None)" for es
    by (simp add: rewrite_outcome_def demo_params_def server_rewrite_enabled_def)
  let ?cs = "if cooled = [] then [demo_candidate False] else []"
  let ?es = "if cooled = [] then [make_entry (demo_candidate False) TAbstract (cps ''x'')] else []"
  let ?contents = "prefetch_contents demo_env_c (readable_candidates (normalize_detail (DetailValue JNull)) demo_budget ?cs)"
  obtain gst where g: "gather_candidates demo_hits
      (mk_gather_env demo_rc [cps ''q''] None ''all'' DEFAULT_OTHER_PEER_PENALTIES (set cooled)) None 10 = Inr (?cs, gst)"
    using demo_gathered assms(3) by (auto simp: map_sum_def split: sum.splits)
  obtain pst where pl: "plan_entries demo_env_c (\<lambda>t. int (length t)) ?cs ?contents demo_budget
      (DetailResolved (normalize_detail (DetailValue JNull))) = Inr (?es, pst)"
  proof (cases "cooled = []")
    case True
    then show ?thesis using demo_plan_resolved that by (auto simp: demo_readable prefetch_contents_def)
  next
    case False
    obtain st where "plan_entries demo_env_c (\<lambda>t. int (length t)) [] ?contents demo_budget
        (DetailResolved (normalize_detail (DetailValue JNull))) = Inr ([], st)" using demo_plan_empty by blast
    with False that show ?thesis by simp
  qed
  have run: "assemble_context ?w demo_rc ?p = Inr (finish_assembly ?w ?p (Some l) cooled ([cps ''q''], ''off'') (?cs, gst) (?es, pst))"
    using assms(1,2) g pl
    by (simp add: assemble_context_def session ex fields services normalize_quotas_def normalize_penalties_def
        expand_queries_def Let_def)
  have "w_write_ok ?w" by (simp add: demo_world_def)
  then show ?thesis unfolding run by (simp add: no_digest finish_assembly_def Let_def)
qed

definition demo_si :: "nat \<Rightarrow> session_info" where
  "demo_si n = \<lparr>si_uri = ''viking://user/u/sessions/s'', si_total_message_count = None, si_live_messages = n\<rparr>"

definition demo_later :: "(utext \<times> json) list \<Rightarrow> string \<Rightarrow> nat \<Rightarrow> recall_ledger" where
  "demo_later d status n = \<lparr>lg_uri = ''viking://user/u/sessions/s/.recall_log.json'', lg_turn = int n, lg_dedup_turns = 5,
     lg_data = d, lg_status = status\<rparr>"

definition demo_stored :: "(utext \<times> json) list" where
  "demo_stored = [(cps ''viking://resources/r.md'', served_record 3 TAbstract)]"

definition demo_body :: utext where
  "demo_body = dumps (ledger_payload 3 demo_stored)"

lemma demo_load:
  "load_ledger True (\<lambda>_. file) (Some (demo_si n)) 5 =
     Inr (Some (demo_later (fst (parse_ledger file)) (snd (parse_ledger file)) n))"
  by (simp add: load_ledger_def resolve_turn_def mk_ledger_def demo_si_def demo_later_def Let_def LEDGER_FILENAME_def
      rstrip_by_def)

lemma demo_first:
  "\<exists>r. assemble_context (demo_world (Inl StoreError) 3) demo_rc demo_params = Inr r
    \<and> ar_entries r = [make_entry (demo_candidate False) TAbstract (cps ''x'')] \<and> ar_ledger_text r = Some demo_body"
proof -
  let ?l = "demo_later [] ''new'' 3"
  have l: "load_ledger True (\<lambda>_. Inl StoreError) (Some (demo_si 3)) 5 = Inr (Some ?l)"
    by (simp add: demo_load parse_ledger_def)
  have "cooled_uris ?l = Inr []" by (simp add: cooled_uris_def ledger_entries_def dict_get_def demo_later_def)
  from demo_assembly [OF l [unfolded demo_si_def] this] obtain r where r:
    "assemble_context (demo_world (Inl StoreError) 3) demo_rc demo_params = Inr r"
    "ar_entries r = [make_entry (demo_candidate False) TAbstract (cps ''x'')]"
    "ar_ledger_text r = recorded_text (Some ?l) (ar_entries r) True" by auto
  have "recorded_text (Some ?l) (ar_entries r) True = Some demo_body"
    unfolding r(2)
    by (simp add: recorded_text_def record_entries_def demo_later_def ledger_entries_def dict_get_def demo_body_def
        demo_stored_def prune_def MAX_LEDGER_URIS_def demo_candidate_def)
  with r show ?thesis by simp
qed

lemma demo_second:
  "\<exists>r. assemble_context (demo_world (Inr demo_body) 7) demo_rc demo_params = Inr r \<and> ar_entries r = []"
proof -
  let ?d = "[(cps ''version'', JInt LEDGER_VERSION), (cps ''updated_turn'', JInt 3), (cps ''entries'', JDict demo_stored)]"
  have "wf_json (ledger_payload 3 demo_stored)" by (simp add: ledger_payload_def demo_stored_def)
  then have "loads demo_body = Inr (ledger_payload 3 demo_stored)" unfolding demo_body_def by (rule loads_dumps_wf)
  moreover have "demo_body \<noteq> []" by (simp add: demo_body_def ledger_payload_def)
  ultimately have "parse_ledger (Inr demo_body) = (?d, ''ok'')" by (simp add: parse_ledger_def ledger_payload_def)
  then have l: "load_ledger True (\<lambda>_. Inr demo_body) (Some (demo_si 7)) 5 = Inr (Some (demo_later ?d ''ok'' 7))"
    by (simp add: demo_load)
  have "cooled_uris (demo_later ?d ''ok'' 7) = Inr [cps ''viking://resources/r.md'']"
    by (simp add: cooled_uris_def ledger_entries_def dict_get_def demo_later_def demo_stored_def)
  from demo_assembly [OF l [unfolded demo_si_def] this] show ?thesis by auto
qed

theorem assembled_within_request_witness:
  "\<exists>r. assemble_context (demo_world (Inl StoreError) 3) demo_rc demo_params = Inr r
    \<and> ar_entries r = [make_entry (demo_candidate False) TAbstract (cps ''x'')]
    \<and> estimate_text_tokens (ar_rendered r) \<le> max 1 (max_tokens demo_params)"
  using demo_first assembled_within_request by blast

theorem assembled_digest_witness:
  "\<exists>r. assemble_context (demo_world (Inl StoreError) 3) demo_rc demo_params = Inr r
    \<and> set (find_uris (ar_digest r)) \<subseteq> (\<lambda>e. strip_text (cps (ae_uri e))) ` set (ar_entries r)"
  using demo_first assembled_digest by blast


end
