(* ===== verification/Message_Json.thy ===== *)
theory Message_Json
  imports Json_Text Identity
begin

text \<open>
  The JSONL form of a message: \<open>Message.to_dict\<close>, \<open>from_dict\<close> and \<open>to_jsonl\<close> of \<open>openviking/message/message.py\<close>,
  \<open>part_from_dict\<close> of \<open>openviking/message/part.py\<close>. The fields of the code are not checked at run time, those of the record are
  typed: reading gives \<open>None\<close> where a field would hold a value of another type. \<open>float_repr\<close> is the \<open>repr\<close> of a float and \<open>py_str\<close>
  the \<open>str\<close> of a value that is not a string.
\<close>

section \<open>Writing\<close>

definition jstr :: "string \<Rightarrow> json" where
  "jstr s = JStr (cps s)"

definition given :: "string \<Rightarrow> json option \<Rightarrow> (utext \<times> json) list" where
  "given k v = (case v of None \<Rightarrow> [] | Some x \<Rightarrow> [(cps k, x)])"

definition nonempty_str :: "string \<Rightarrow> json option" where
  "nonempty_str s = (if s = [] then None else Some (jstr s))"

definition nonempty_text :: "utext \<Rightarrow> json option" where
  "nonempty_text t = (if t = [] then None else Some (JStr t))"

fun part_to_dict :: "(rat \<Rightarrow> utext) \<Rightarrow> part \<Rightarrow> (utext \<times> json) list" where
  "part_to_dict float_repr (TextPart t) = [(cps ''type'', jstr ''text''), (cps ''text'', JStr t)]"
| "part_to_dict float_repr (ContextPart uri context_type abstract) =
     [(cps ''type'', jstr ''context''), (cps ''uri'', jstr uri), (cps ''context_type'', jstr context_type),
      (cps ''abstract'', JStr abstract)]"
| "part_to_dict float_repr (ImagePart url detail) =
     [(cps ''type'', jstr ''image_url''),
      (cps ''image_url'', JDict ((cps ''url'', jstr url) # given ''detail'' (map_option jstr detail)))]"
| "part_to_dict float_repr (ToolPart p) =
     [(cps ''type'', jstr ''tool''), (cps ''tool_id'', jstr (tool_id p)), (cps ''tool_name'', jstr (tool_name p)),
      (cps ''tool_uri'', jstr (tool_uri p)), (cps ''skill_uri'', jstr (skill_uri p)), (cps ''tool_status'', jstr (tool_status p))]
     @ given ''tool_input'' (case tool_input p of None \<Rightarrow> None | Some d \<Rightarrow> if d = [] then None else Some (JDict d))
     @ given ''tool_output'' (nonempty_text (tool_output p))
     @ given ''duration_ms'' (map_option (\<lambda>r. JFloat (float_repr r)) (duration_ms p))
     @ given ''prompt_tokens'' (map_option JInt (prompt_tokens p))
     @ given ''completion_tokens'' (map_option JInt (completion_tokens p))
     @ given ''tool_output_ref'' (nonempty_str (tool_output_ref p))
     @ given ''tool_output_truncated'' (if tool_output_truncated p then Some (JBool True) else None)
     @ given ''tool_output_original_chars'' (map_option JInt (tool_output_original_chars p))
     @ given ''tool_output_preview_chars'' (map_option JInt (tool_output_preview_chars p))
     @ given ''tool_output_sha256'' (nonempty_str (tool_output_sha256 p))
     @ given ''tool_output_storage_uri'' (nonempty_str (tool_output_storage_uri p))
     @ given ''tool_output_mime_type'' (if tool_output_mime_type p = ''text/plain'' then None else nonempty_str (tool_output_mime_type p))
     @ given ''tool_output_source_ref'' (nonempty_str (tool_output_source_ref p))
     @ given ''tool_output_source_offset'' (map_option JInt (tool_output_source_offset p))
     @ given ''tool_output_source_limit'' (map_option JInt (tool_output_source_limit p))
     @ given ''tool_output_externalization_error'' (nonempty_text (tool_output_externalization_error p))
     @ given ''tool_output_group_id'' (nonempty_str (tool_output_group_id p))
     @ given ''tool_output_externalized_reason'' (nonempty_str (tool_output_externalized_reason p))
     @ given ''tool_output_group_original_chars'' (map_option JInt (tool_output_group_original_chars p))
     @ given ''tool_output_group_budget_chars'' (map_option JInt (tool_output_group_budget_chars p))"

definition message_to_dict :: "(rat \<Rightarrow> utext) \<Rightarrow> string \<Rightarrow> message \<Rightarrow> (utext \<times> json) list" where
  "message_to_dict float_repr now m =
     [(cps ''id'', jstr (msg_id m)), (cps ''role'', jstr (role m)),
      (cps ''parts'', JList (map (\<lambda>p. JDict (part_to_dict float_repr p)) (parts m))),
      (cps ''created_at'', jstr (case created_at m of None \<Rightarrow> now | Some s \<Rightarrow> if s = [] then now else s))]
     @ given ''peer_id'' (map_option jstr (msg_peer_id m))
     @ given ''turn_id'' (map_option jstr (turn_id m))
     @ given ''message_kind'' (map_option jstr (message_kind m))
     @ given ''source_message_ids'' (map_option (\<lambda>ids. JList (map jstr ids)) (source_message_ids m))"

definition to_jsonl :: "(rat \<Rightarrow> utext) \<Rightarrow> string \<Rightarrow> message \<Rightarrow> utext" where
  "to_jsonl float_repr now m = dumps (JDict (message_to_dict float_repr now m))"

section \<open>Reading\<close>

text \<open>The typed value of a field, \<open>None\<close> when it has another type.\<close>

definition json_str :: "json \<Rightarrow> string option" where
  "json_str v = (case v of JStr u \<Rightarrow> if list_all (\<lambda>c. c < 256) u then Some (map char_of u) else None | _ \<Rightarrow> None)"

definition json_text :: "json \<Rightarrow> utext option" where
  "json_text v = (case v of JStr u \<Rightarrow> Some u | _ \<Rightarrow> None)"

definition json_int :: "json \<Rightarrow> int option" where
  "json_int v = (case v of JInt i \<Rightarrow> Some i | _ \<Rightarrow> None)"

definition json_rat :: "json \<Rightarrow> rat option" where
  "json_rat v = (case v of JInt i \<Rightarrow> Some (of_int i)
     | JFloat t \<Rightarrow> (case parse_float t of Some (Fin r) \<Rightarrow> Some r | _ \<Rightarrow> None) | _ \<Rightarrow> None)"

definition json_dict :: "json \<Rightarrow> (utext \<times> json) list option" where
  "json_dict v = (case v of JDict d \<Rightarrow> Some d | _ \<Rightarrow> None)"

definition field :: "(json \<Rightarrow> 'a option) \<Rightarrow> (utext \<times> json) list \<Rightarrow> string \<Rightarrow> 'a \<Rightarrow> 'a option" where
  "field conv d k fallback = (case map_of d (cps k) of None \<Rightarrow> Some fallback | Some v \<Rightarrow> conv v)"

definition opt_field :: "(json \<Rightarrow> 'a option) \<Rightarrow> (utext \<times> json) list \<Rightarrow> string \<Rightarrow> 'a option option" where
  "opt_field conv d k =
     (case map_of d (cps k) of None \<Rightarrow> Some None
      | Some v \<Rightarrow> if v = JNull then Some None else map_option Some (conv v))"

definition str_of :: "(json \<Rightarrow> utext) \<Rightarrow> json \<Rightarrow> utext" where
  "str_of py_str v = (case v of JStr s \<Rightarrow> s | _ \<Rightarrow> py_str v)"

definition str_or_empty :: "(json \<Rightarrow> utext) \<Rightarrow> json option \<Rightarrow> utext" where
  "str_or_empty py_str v = (case v of None \<Rightarrow> [] | Some x \<Rightarrow> if truthy_json x then str_of py_str x else [])"

definition parse_image_url :: "(json \<Rightarrow> utext) \<Rightarrow> (utext \<times> json) list \<Rightarrow> utext \<times> json" where
  "parse_image_url py_str d =
     (case map_of d (cps ''image_url'') of
        Some (JDict i) \<Rightarrow>
          (str_or_empty py_str (map_of i (cps ''url'')), case map_of i (cps ''detail'') of None \<Rightarrow> JNull | Some v \<Rightarrow> v)
      | Some (JStr s) \<Rightarrow> (s, JNull)
      | _ \<Rightarrow> ([], JNull))"

definition tool_part_from_dict :: "(utext \<times> json) list \<Rightarrow> tool_part option" where
  "tool_part_from_dict d =
     Option.bind (field json_str d ''tool_id'' []) (\<lambda>f1. Option.bind (field json_str d ''tool_name'' []) (\<lambda>f2.
     Option.bind (field json_str d ''tool_uri'' []) (\<lambda>f3. Option.bind (field json_str d ''skill_uri'' []) (\<lambda>f4.
     Option.bind (opt_field json_dict d ''tool_input'') (\<lambda>f5. Option.bind (field json_text d ''tool_output'' []) (\<lambda>f6.
     Option.bind (field json_str d ''tool_status'' ''pending'') (\<lambda>f7. Option.bind (opt_field json_rat d ''duration_ms'') (\<lambda>f8.
     Option.bind (opt_field json_int d ''prompt_tokens'') (\<lambda>f9. Option.bind (opt_field json_int d ''completion_tokens'') (\<lambda>f10.
     Option.bind (field json_str d ''tool_output_ref'' []) (\<lambda>f11.
     Option.bind (Some (case map_of d (cps ''tool_output_truncated'') of None \<Rightarrow> False | Some v \<Rightarrow> truthy_json v)) (\<lambda>f12.
     Option.bind (opt_field json_int d ''tool_output_original_chars'') (\<lambda>f13.
     Option.bind (opt_field json_int d ''tool_output_preview_chars'') (\<lambda>f14.
     Option.bind (field json_str d ''tool_output_sha256'' []) (\<lambda>f15.
     Option.bind (field json_str d ''tool_output_storage_uri'' []) (\<lambda>f16.
     Option.bind (field json_str d ''tool_output_mime_type'' ''text/plain'') (\<lambda>f17.
     Option.bind (field json_str d ''tool_output_source_ref'' []) (\<lambda>f18.
     Option.bind (opt_field json_int d ''tool_output_source_offset'') (\<lambda>f19.
     Option.bind (opt_field json_int d ''tool_output_source_limit'') (\<lambda>f20.
     Option.bind (field json_text d ''tool_output_externalization_error'' []) (\<lambda>f21.
     Option.bind (field json_str d ''tool_output_group_id'' []) (\<lambda>f22.
     Option.bind (field json_str d ''tool_output_externalized_reason'' []) (\<lambda>f23.
     Option.bind (opt_field json_int d ''tool_output_group_original_chars'') (\<lambda>f24.
     Option.bind (opt_field json_int d ''tool_output_group_budget_chars'') (\<lambda>f25.
       Some \<lparr>tool_id = f1, tool_name = f2, tool_uri = f3, skill_uri = f4, tool_input = f5, tool_output = f6, tool_status = f7,
             duration_ms = f8, prompt_tokens = f9, completion_tokens = f10, tool_output_ref = f11, tool_output_truncated = f12,
             tool_output_original_chars = f13, tool_output_preview_chars = f14, tool_output_sha256 = f15,
             tool_output_storage_uri = f16, tool_output_mime_type = f17, tool_output_source_ref = f18,
             tool_output_source_offset = f19, tool_output_source_limit = f20, tool_output_externalization_error = f21,
             tool_output_group_id = f22, tool_output_externalized_reason = f23, tool_output_group_original_chars = f24,
             tool_output_group_budget_chars = f25\<rparr>)))))))))))))))))))))))))"

definition part_from_dict :: "(json \<Rightarrow> utext) \<Rightarrow> (utext \<times> json) list \<Rightarrow> part option res" where
  "part_from_dict py_str d =
     (let kind = (case map_of d (cps ''type'') of None \<Rightarrow> jstr ''text'' | Some v \<Rightarrow> v)
      in if kind = jstr ''text'' then Inr (map_option TextPart (field json_text d ''text'' []))
         else if kind = jstr ''context'' then
           Inr (Option.bind (field json_str d ''uri'' []) (\<lambda>u. Option.bind (field json_str d ''context_type'' ''memory'') (\<lambda>c.
                Option.bind (field json_text d ''abstract'' []) (\<lambda>a. Some (ContextPart u c a)))))
         else if kind = jstr ''image_url'' then
           (let i = parse_image_url py_str d
            in if strip_text (fst i) = [] then Inl ValueError
               else Inr (Option.bind (json_str (JStr (fst i))) (\<lambda>u.
                         Option.bind (if snd i = JNull then Some None else map_option Some (json_str (snd i))) (\<lambda>dt. Some (ImagePart u dt)))))
         else if kind = jstr ''tool'' then Inr (map_option ToolPart (tool_part_from_dict d))
         else case map_of d (cps ''text'') of
             Some v \<Rightarrow> Inr (Some (TextPart (str_or_empty py_str (Some v))))
           | None \<Rightarrow> Inr (Some (TextPart (py_str (JDict d)))))"

fun read_parts :: "(json \<Rightarrow> utext) \<Rightarrow> json list \<Rightarrow> part list option res" where
  "read_parts py_str [] = Inr (Some [])"
| "read_parts py_str (JDict d # vs) =
     bind_res (part_from_dict py_str d) (\<lambda>p. bind_res (read_parts py_str vs) (\<lambda>ps.
       Inr (Option.bind p (\<lambda>x. map_option ((#) x) ps))))"
| "read_parts py_str (_ # vs) = Inl AttributeError"

text \<open>What iterating over the value of \<open>parts\<close> gives; a missing list falls back to the legacy \<open>content\<close>.\<close>

definition raw_parts :: "(utext \<times> json) list \<Rightarrow> json list res" where
  "raw_parts d =
     (let legacy = (case map_of d (cps ''content'') of
                      None \<Rightarrow> Inr []
                    | Some v \<Rightarrow> if v = JNull then Inr [] else Inr [JDict [(cps ''type'', jstr ''text''), (cps ''text'', v)]])
      in case map_of d (cps ''parts'') of
           None \<Rightarrow> legacy
         | Some JNull \<Rightarrow> legacy
         | Some (JList vs) \<Rightarrow> Inr vs
         | Some (JStr s) \<Rightarrow> Inr (map (\<lambda>c. JStr [c]) s)
         | Some (JDict e) \<Rightarrow> Inr (map (\<lambda>(k, v). JStr k) e)
         | Some _ \<Rightarrow> Inl TypeError)"

definition read_peer_id :: "string option \<Rightarrow> string option" where
  "read_peer_id p = (case normalize_peer_id p of Inr q \<Rightarrow> q | Inl e \<Rightarrow> p)"

fun option_list :: "'a option list \<Rightarrow> 'a list option" where
  "option_list [] = Some []"
| "option_list (x # xs) = Option.bind x (\<lambda>y. map_option ((#) y) (option_list xs))"

definition read_source_ids :: "(utext \<times> json) list \<Rightarrow> string list option option" where
  "read_source_ids d =
     (case map_of d (cps ''source_message_ids'') of
        Some (JList vs) \<Rightarrow> map_option Some (option_list (map json_str vs))
      | _ \<Rightarrow> Some None)"

definition message_from_dict :: "(json \<Rightarrow> utext) \<Rightarrow> nat \<Rightarrow> (utext \<times> json) list \<Rightarrow> message option res" where
  "message_from_dict py_str obj d =
     bind_res (raw_parts d) (\<lambda>vs. bind_res (read_parts py_str vs) (\<lambda>ps.
       case map_of d (cps ''id'') of None \<Rightarrow> Inl KeyError
       | Some i \<Rightarrow> (case map_of d (cps ''role'') of None \<Rightarrow> Inl KeyError
       | Some r \<Rightarrow>
           Inr (Option.bind (json_str i) (\<lambda>m_id. Option.bind (json_str r) (\<lambda>m_role. Option.bind ps (\<lambda>m_parts.
                Option.bind (opt_field json_str d ''peer_id'') (\<lambda>m_peer. Option.bind (opt_field json_str d ''created_at'') (\<lambda>m_created.
                Option.bind (opt_field json_str d ''turn_id'') (\<lambda>m_turn. Option.bind (opt_field json_str d ''message_kind'') (\<lambda>m_kind.
                Option.bind (read_source_ids d) (\<lambda>m_sources.
                  Some \<lparr>msg_object = obj, msg_id = m_id, role = m_role, parts = m_parts, msg_peer_id = read_peer_id m_peer,
                        created_at = m_created, turn_id = m_turn, message_kind = m_kind, source_message_ids = m_sources\<rparr>))))))))))))"

section \<open>What writing and reading keeps\<close>

text \<open>
  A part is readable when its image URL is not blank, its tool input has distinct keys and its duration is written as a
  decimal that reads back as itself. Reading gives the part with an empty tool input or MIME type replaced by the value the
  reader fills in, and the message with its peer normalised and its time filled in.
\<close>

definition readable_part :: "(rat \<Rightarrow> utext) \<Rightarrow> part \<Rightarrow> bool" where
  "readable_part float_repr p =
     (case p of
        ImagePart url detail \<Rightarrow> strip_text (cps url) \<noteq> []
      | ToolPart t \<Rightarrow>
          (case tool_input t of None \<Rightarrow> True | Some d \<Rightarrow> wf_json (JDict d))
          \<and> (case duration_ms t of None \<Rightarrow> True
             | Some r \<Rightarrow> wf_json (JFloat (float_repr r)) \<and> parse_float (float_repr r) = Some (Fin r))
      | _ \<Rightarrow> True)"

definition norm_part :: "part \<Rightarrow> part" where
  "norm_part p =
     (case p of
        ToolPart t \<Rightarrow>
          ToolPart (t\<lparr>tool_input := (if tool_input t = Some [] then None else tool_input t),
                      tool_output_mime_type := (if tool_output_mime_type t = [] then ''text/plain'' else tool_output_mime_type t)\<rparr>)
      | _ \<Rightarrow> p)"

definition norm_message :: "string \<Rightarrow> nat \<Rightarrow> message \<Rightarrow> message" where
  "norm_message now obj m =
     m\<lparr>msg_object := obj, parts := map norm_part (parts m), msg_peer_id := read_peer_id (msg_peer_id m),
       created_at := Some (case created_at m of None \<Rightarrow> now | Some s \<Rightarrow> if s = [] then now else s)\<rparr>"

definition readable_message :: "(rat \<Rightarrow> utext) \<Rightarrow> message \<Rightarrow> bool" where
  "readable_message float_repr m \<longleftrightarrow> (\<forall>p \<in> set (parts m). readable_part float_repr p)"

subsection \<open>Fields\<close>

lemma json_str_jstr [simp]: "json_str (jstr s) = Some s"
  by (simp add: json_str_def jstr_def cps_def list_all_iff map_idI)

lemma jstr_inject [simp]: "jstr s = jstr t \<longleftrightarrow> s = t"
  by (simp add: jstr_def)

lemma jstr_not_null [simp]: "jstr s \<noteq> JNull"
  by (simp add: jstr_def)

lemma json_scalars [simp]:
  "json_text (JStr t) = Some t" "json_int (JInt i) = Some i" "json_dict (JDict d) = Some d"
  by (simp_all add: json_text_def json_int_def json_dict_def)

lemma map_of_given [simp]:
  "map_of (given k v @ xs) q = (if q = cps k \<and> v \<noteq> None then v else map_of xs q)"
  "map_of (given k v) q = (if q = cps k then v else None)"
  by (auto simp: given_def split: option.splits)

lemma field_present [simp]:
  "map_of d (cps k) = nonempty_str s \<Longrightarrow> field json_str d k [] = Some s"
  "map_of d (cps k) = nonempty_text t \<Longrightarrow> field json_text d k [] = Some t"
  "map_of d (cps k) = Some (jstr s) \<Longrightarrow> field json_str d k x = Some s"
  "map_of d (cps k) = Some (JStr t) \<Longrightarrow> field json_text d k y = Some t"
  by (simp_all add: field_def nonempty_str_def nonempty_text_def)

lemma opt_field_simps [simp]:
  "map_of d (cps k) = map_option JInt i \<Longrightarrow> opt_field json_int d k = Some i"
  "map_of d (cps k) = map_option jstr s \<Longrightarrow> opt_field json_str d k = Some s"
  by (cases i; simp add: opt_field_def) (cases s; simp add: opt_field_def)

lemma duration_field:
  assumes "map_of d (cps k) = map_option (\<lambda>r. JFloat (f r)) x" "\<And>r. x = Some r \<Longrightarrow> parse_float (f r) = Some (Fin r)"
  shows "opt_field json_rat d k = Some x"
  using assms by (cases x) (simp_all add: opt_field_def json_rat_def)

lemma input_field:
  assumes "map_of d (cps k) = (case x of None \<Rightarrow> None | Some e \<Rightarrow> if e = [] then None else Some (JDict e))"
  shows "opt_field json_dict d k = Some (if x = Some [] then None else x)"
  using assms by (cases x) (auto simp: opt_field_def)

lemma mime_field:
  assumes "map_of d (cps k) = (if s = ''text/plain'' then None else nonempty_str s)"
  shows "field json_str d k ''text/plain'' = Some (if s = [] then ''text/plain'' else s)"
  using assms by (cases s) (auto simp: field_def nonempty_str_def)

lemma part_to_dict_lookup:
  fixes float_repr t
  defines "d \<equiv> part_to_dict float_repr (ToolPart t)"
  shows "map_of d (cps ''tool_id'') = Some (jstr (tool_id t))"
    "map_of d (cps ''tool_name'') = Some (jstr (tool_name t))"
    "map_of d (cps ''tool_uri'') = Some (jstr (tool_uri t))"
    "map_of d (cps ''skill_uri'') = Some (jstr (skill_uri t))"
    "map_of d (cps ''tool_status'') = Some (jstr (tool_status t))"
    "map_of d (cps ''tool_input'') = (case tool_input t of None \<Rightarrow> None | Some e \<Rightarrow> if e = [] then None else Some (JDict e))"
    "map_of d (cps ''tool_output'') = nonempty_text (tool_output t)"
    "map_of d (cps ''duration_ms'') = map_option (\<lambda>r. JFloat (float_repr r)) (duration_ms t)"
    "map_of d (cps ''prompt_tokens'') = map_option JInt (prompt_tokens t)"
    "map_of d (cps ''completion_tokens'') = map_option JInt (completion_tokens t)"
    "map_of d (cps ''tool_output_ref'') = nonempty_str (tool_output_ref t)"
    "map_of d (cps ''tool_output_truncated'') = (if tool_output_truncated t then Some (JBool True) else None)"
    "map_of d (cps ''tool_output_original_chars'') = map_option JInt (tool_output_original_chars t)"
    "map_of d (cps ''tool_output_preview_chars'') = map_option JInt (tool_output_preview_chars t)"
    "map_of d (cps ''tool_output_sha256'') = nonempty_str (tool_output_sha256 t)"
    "map_of d (cps ''tool_output_storage_uri'') = nonempty_str (tool_output_storage_uri t)"
    "map_of d (cps ''tool_output_mime_type'') = (if tool_output_mime_type t = ''text/plain'' then None else nonempty_str (tool_output_mime_type t))"
    "map_of d (cps ''tool_output_source_ref'') = nonempty_str (tool_output_source_ref t)"
    "map_of d (cps ''tool_output_source_offset'') = map_option JInt (tool_output_source_offset t)"
    "map_of d (cps ''tool_output_source_limit'') = map_option JInt (tool_output_source_limit t)"
    "map_of d (cps ''tool_output_externalization_error'') = nonempty_text (tool_output_externalization_error t)"
    "map_of d (cps ''tool_output_group_id'') = nonempty_str (tool_output_group_id t)"
    "map_of d (cps ''tool_output_externalized_reason'') = nonempty_str (tool_output_externalized_reason t)"
    "map_of d (cps ''tool_output_group_original_chars'') = map_option JInt (tool_output_group_original_chars t)"
    "map_of d (cps ''tool_output_group_budget_chars'') = map_option JInt (tool_output_group_budget_chars t)"
  unfolding d_def by (simp_all del: map_of_append)

lemma tool_part_roundtrip:
  assumes "\<And>r. duration_ms t = Some r \<Longrightarrow> parse_float (float_repr r) = Some (Fin r)"
  shows "tool_part_from_dict (part_to_dict float_repr (ToolPart t)) =
    Some (t\<lparr>tool_input := (if tool_input t = Some [] then None else tool_input t),
            tool_output_mime_type := (if tool_output_mime_type t = [] then ''text/plain'' else tool_output_mime_type t)\<rparr>)"
proof -
  define d where "d = part_to_dict float_repr (ToolPart t)"
  note lookup = part_to_dict_lookup [of float_repr t, folded d_def]
  have dur: "opt_field json_rat d ''duration_ms'' = Some (duration_ms t)"
    using duration_field [where f = float_repr, OF lookup(8)] assms by blast
  show ?thesis
    unfolding d_def [symmetric] tool_part_from_dict_def input_field [OF lookup(6)] mime_field [OF lookup(17)] dur
    by (simp add: lookup)
qed

lemma part_from_dict_kinds:
  assumes "map_of d (cps ''type'') = Some (jstr k)"
  shows "k = ''text'' \<Longrightarrow> part_from_dict py_str d = Inr (map_option TextPart (field json_text d ''text'' []))"
    and "k = ''tool'' \<Longrightarrow> part_from_dict py_str d = Inr (map_option ToolPart (tool_part_from_dict d))"
  using assms by (simp_all add: part_from_dict_def Let_def)

lemma part_roundtrip:
  assumes "readable_part float_repr p"
  shows "part_from_dict py_str (part_to_dict float_repr p) = Inr (Some (norm_part p))"
proof (cases p)
  case (ToolPart t)
  have "map_of (part_to_dict float_repr p) (cps ''type'') = Some (jstr ''tool'')" using ToolPart by simp
  note kind = part_from_dict_kinds(2) [OF this refl]
  have "tool_part_from_dict (part_to_dict float_repr (ToolPart t)) =
    Some (t\<lparr>tool_input := (if tool_input t = Some [] then None else tool_input t),
            tool_output_mime_type := (if tool_output_mime_type t = [] then ''text/plain'' else tool_output_mime_type t)\<rparr>)"
    using assms by (intro tool_part_roundtrip) (simp add: readable_part_def ToolPart)
  then show ?thesis unfolding kind unfolding ToolPart by (simp add: norm_part_def del: part_to_dict.simps)
next
  case (ImagePart url detail)
  have i: "parse_image_url py_str (part_to_dict float_repr p) = (cps url, case detail of None \<Rightarrow> JNull | Some x \<Rightarrow> jstr x)"
    by (cases url; cases detail)
      (simp_all add: ImagePart parse_image_url_def str_or_empty_def str_of_def jstr_def given_def cps_def)
  have s: "json_str (JStr (cps url)) = Some url" using json_str_jstr [of url] by (simp add: jstr_def)
  have t: "map_of (part_to_dict float_repr p) (cps ''type'') = Some (jstr ''image_url'')" by (simp add: ImagePart)
  show ?thesis
    using assms unfolding part_from_dict_def i t
    by (cases detail) (simp_all add: ImagePart Let_def s readable_part_def norm_part_def)
qed (simp_all add: part_from_dict_def norm_part_def field_def)

lemma read_parts_roundtrip:
  "\<forall>p \<in> set ps. readable_part float_repr p \<Longrightarrow>
   read_parts py_str (map (\<lambda>p. JDict (part_to_dict float_repr p)) ps) = Inr (Some (map norm_part ps))"
  by (induction ps) (simp_all add: part_roundtrip)

lemma option_list_map: "(\<And>x. x \<in> set xs \<Longrightarrow> f (g x) = Some x) \<Longrightarrow> option_list (map f (map g xs)) = Some xs"
  by (induction xs) simp_all

lemma message_to_dict_lookup:
  fixes float_repr now m
  defines "d \<equiv> message_to_dict float_repr now m"
  shows "map_of d (cps ''id'') = Some (jstr (msg_id m))"
    "map_of d (cps ''role'') = Some (jstr (role m))"
    "map_of d (cps ''parts'') = Some (JList (map (\<lambda>p. JDict (part_to_dict float_repr p)) (parts m)))"
    "map_of d (cps ''created_at'') = Some (jstr (case created_at m of None \<Rightarrow> now | Some s \<Rightarrow> if s = [] then now else s))"
    "map_of d (cps ''peer_id'') = map_option jstr (msg_peer_id m)"
    "map_of d (cps ''turn_id'') = map_option jstr (turn_id m)"
    "map_of d (cps ''message_kind'') = map_option jstr (message_kind m)"
    "map_of d (cps ''source_message_ids'') = map_option (\<lambda>ids. JList (map jstr ids)) (source_message_ids m)"
  unfolding d_def message_to_dict_def by (simp_all del: map_of_append)

lemma message_dict_roundtrip:
  assumes "readable_message float_repr m"
  shows "message_from_dict py_str obj (message_to_dict float_repr now m) = Inr (Some (norm_message now obj m))"
proof -
  define d where "d = message_to_dict float_repr now m"
  note lookup = message_to_dict_lookup [of float_repr now m, folded d_def]
  have ids: "option_list (map json_str (map jstr x)) = Some x" for x by (rule option_list_map) simp
  have src: "read_source_ids d = Some (source_message_ids m)"
    by (cases "source_message_ids m") (simp_all add: read_source_ids_def lookup ids del: map_map)
  have created: "opt_field json_str d ''created_at'' =
      Some (Some (case created_at m of None \<Rightarrow> now | Some s \<Rightarrow> if s = [] then now else s))"
    by (rule opt_field_simps(2)) (simp add: lookup)
  have ps: "raw_parts d = Inr (map (\<lambda>p. JDict (part_to_dict float_repr p)) (parts m))"
    unfolding raw_parts_def Let_def lookup(3) by simp
  have r: "read_parts py_str (map (\<lambda>p. JDict (part_to_dict float_repr p)) (parts m)) = Inr (Some (map norm_part (parts m)))"
    using assms by (intro read_parts_roundtrip) (simp add: readable_message_def)
  show ?thesis
    unfolding d_def [symmetric] message_from_dict_def ps created src
    by (simp add: r lookup norm_message_def)
qed

subsection \<open>Written values are well formed\<close>

lemma given_keys:
  "cps q \<in> fst ` set (given k v @ xs) \<longleftrightarrow> (q = k \<and> v \<noteq> None) \<or> cps q \<in> fst ` set xs"
  "cps q \<in> fst ` set (given k v) \<longleftrightarrow> (q = k \<and> v \<noteq> None)"
  "distinct (map fst (given k v @ xs)) \<longleftrightarrow> (v = None \<or> cps k \<notin> fst ` set xs) \<and> distinct (map fst xs)"
  "distinct (map fst (given k v))"
  by (auto simp: given_def split: option.splits)

definition opt_wf :: "json option \<Rightarrow> bool" where
  "opt_wf v \<longleftrightarrow> (\<forall>a. v = Some a \<longrightarrow> wf_json a)"

definition values_wf :: "(utext \<times> json) list \<Rightarrow> bool" where
  "values_wf d \<longleftrightarrow> (\<forall>(k, v) \<in> set d. wf_json v)"

lemma opt_wf_simps [simp]:
  "opt_wf (map_option JInt i)" "opt_wf (nonempty_str s)" "opt_wf (nonempty_text t)" "opt_wf (map_option jstr p)"
  "opt_wf (if b then None else nonempty_str s)" "opt_wf (if b then Some (JBool c) else None)"
  by (auto simp: opt_wf_def jstr_def nonempty_str_def nonempty_text_def)

lemma values_wf_simps [simp]:
  "values_wf ((k, v) # d) \<longleftrightarrow> wf_json v \<and> values_wf d"
  "values_wf (given q x @ d) \<longleftrightarrow> opt_wf x \<and> values_wf d"
  "values_wf (given q x) \<longleftrightarrow> opt_wf x"
  "values_wf []" "wf_json (jstr s)"
  by (auto simp: values_wf_def opt_wf_def given_def jstr_def split: option.splits)

lemma wf_dictI: "distinct (map fst d) \<Longrightarrow> values_wf d \<Longrightarrow> wf_json (JDict d)"
  by (simp add: values_wf_def)

lemma key_list:
  "cps q \<in> fst ` set ((cps k, v) # xs) \<longleftrightarrow> q = k \<or> cps q \<in> fst ` set xs"
  "distinct (map fst ((cps k, v) # xs)) \<longleftrightarrow> cps k \<notin> fst ` set xs \<and> distinct (map fst xs)"
  by auto

lemma part_to_dict_wf:
  assumes "readable_part float_repr p"
  shows "wf_json (JDict (part_to_dict float_repr p))"
proof (cases p)
  case (ToolPart t)
  have "opt_wf (case tool_input t of None \<Rightarrow> None | Some d \<Rightarrow> if d = [] then None else Some (JDict d))"
    using assms by (auto simp: readable_part_def ToolPart opt_wf_def split: option.splits)
  moreover have "opt_wf (map_option (\<lambda>r. JFloat (float_repr r)) (duration_ms t))"
    using assms by (auto simp: readable_part_def ToolPart opt_wf_def)
  ultimately have "values_wf (part_to_dict float_repr (ToolPart t))"
    unfolding part_to_dict.simps append_Cons append_Nil values_wf_simps by (intro conjI TrueI opt_wf_simps values_wf_simps(5))
  moreover have "distinct (map fst (part_to_dict float_repr (ToolPart t)))"
    unfolding part_to_dict.simps append_Cons append_Nil key_list given_keys by (simp add: given_keys del: set_append)
  ultimately show ?thesis unfolding ToolPart by (intro wf_dictI)
next
  case (ImagePart url detail)
  then show ?thesis by (cases detail) (simp_all add: given_def)
qed simp_all

lemma message_to_dict_wf:
  assumes "readable_message float_repr m"
  shows "wf_json (JDict (message_to_dict float_repr now m))"
proof (rule wf_dictI)
  show "distinct (map fst (message_to_dict float_repr now m))"
    unfolding message_to_dict_def append_Cons append_Nil key_list given_keys by (simp add: given_keys del: set_append)
  have "opt_wf (map_option (\<lambda>ids. JList (map jstr ids)) (source_message_ids m))"
    by (auto simp: opt_wf_def)
  moreover have "wf_json (JList (map (\<lambda>p. JDict (part_to_dict float_repr p)) (parts m)))"
    using assms part_to_dict_wf [of float_repr] by (simp add: readable_message_def del: wf_json.simps(3))
  ultimately show "values_wf (message_to_dict float_repr now m)"
    by (simp add: message_to_dict_def del: wf_json.simps)
qed

end
