(* ===== verification/Session_Log.thy ===== *)
theory Session_Log
  imports Message_Json Overview_Text
begin

text \<open>
  The JSONL log of a session, \<open>messages.jsonl\<close> of \<open>openviking/session/session.py\<close>: how a whole log is written, how a batch is
  appended, and the four ways the code reads it back (\<open>load\<close>, the strict reader, the reader of an archive, the counter).
  \<open>clock m\<close> is the time read when message \<open>m\<close> is written without one; the messages that are read get the identities
  \<open>obj\<close>, \<open>obj + 1\<close> and so on.
\<close>

section \<open>Writing and reading a log\<close>

definition messages_text :: "(rat \<Rightarrow> utext) \<Rightarrow> (message \<Rightarrow> string) \<Rightarrow> message list \<Rightarrow> utext" where
  "messages_text float_repr clock ms =
     (let ls = map (\<lambda>m. to_jsonl float_repr (clock m) m) ms
      in if ls = [] then [] else tl (concat (map (\<lambda>l. 10 # l) ls)) @ [10])"

definition batch_content :: "(rat \<Rightarrow> utext) \<Rightarrow> (message \<Rightarrow> string) \<Rightarrow> message list \<Rightarrow> utext" where
  "batch_content float_repr clock ms = concat (map (\<lambda>m. to_jsonl float_repr (clock m) m @ [10]) ms)"

definition nonblank :: "utext \<Rightarrow> bool" where
  "nonblank l \<longleftrightarrow> strip_text l \<noteq> []"

definition read_line :: "(json \<Rightarrow> utext) \<Rightarrow> nat \<Rightarrow> utext \<Rightarrow> message option res" where
  "read_line py_str obj l =
     bind_res (loads l) (\<lambda>v. case v of JDict d \<Rightarrow> message_from_dict py_str obj d | _ \<Rightarrow> Inl AttributeError)"

fun read_lines :: "(json \<Rightarrow> utext) \<Rightarrow> nat \<Rightarrow> utext list \<Rightarrow> message option list res" where
  "read_lines py_str obj [] = Inr []"
| "read_lines py_str obj (l # ls) =
     bind_res (read_line py_str obj l) (\<lambda>m. bind_res (read_lines py_str (Suc obj) ls) (\<lambda>ms. Inr (m # ms)))"

text \<open>\<open>content.replace("\r\n", "\n")\<close>.\<close>

fun replace_crlf :: "utext \<Rightarrow> utext" where
  "replace_crlf (c # d # cs) = (if c = 13 \<and> d = 10 then 10 # replace_crlf cs else c # replace_crlf (d # cs))"
| "replace_crlf cs = cs"

definition load_messages :: "(json \<Rightarrow> utext) \<Rightarrow> nat \<Rightarrow> utext \<Rightarrow> message option list res" where
  "load_messages py_str obj body = read_lines py_str obj (filter nonblank (split_lines_nl (strip_text body)))"

definition read_live_messages_strict :: "(json \<Rightarrow> utext) \<Rightarrow> nat \<Rightarrow> utext \<Rightarrow> message option list res" where
  "read_live_messages_strict py_str obj body =
     (case read_lines py_str obj (filter nonblank (split_lines_nl (replace_crlf body))) of
        Inr ms \<Rightarrow> Inr ms
      | Inl e \<Rightarrow> Inl ValueError)"

definition read_archive_messages :: "(json \<Rightarrow> utext) \<Rightarrow> nat \<Rightarrow> utext \<Rightarrow> message option list res" where
  "read_archive_messages py_str obj body =
     (case read_lines py_str obj (filter nonblank (split_lines_nl (strip_text body))) of
        Inr ms \<Rightarrow> Inr ms
      | Inl e \<Rightarrow> if e \<in> {AttributeError, KeyError, TypeError} \<or> is_value_error e then Inl ArchiveMessagesCorruptError else Inl e)"

definition live_message_count :: "utext \<Rightarrow> nat" where
  "live_message_count body = length (filter nonblank (split_lines_nl (strip_text body)))"

section \<open>What is read back\<close>

fun norm_messages :: "(message \<Rightarrow> string) \<Rightarrow> nat \<Rightarrow> message list \<Rightarrow> message option list" where
  "norm_messages clock obj [] = []"
| "norm_messages clock obj (m # ms) = Some (norm_message (clock m) obj m) # norm_messages clock (Suc obj) ms"

subsection \<open>No line breaks inside a record\<close>

definition printable :: "utext \<Rightarrow> bool" where
  "printable t \<longleftrightarrow> (\<forall>c \<in> set t. 32 \<le> c)"

lemma printable_simps [simp]:
  "printable []" "printable (c # t) \<longleftrightarrow> 32 \<le> c \<and> printable t" "printable (t @ u) \<longleftrightarrow> printable t \<and> printable u"
  by (auto simp: printable_def)

lemma printable_concat: "(\<And>t. t \<in> set ts \<Longrightarrow> printable t) \<Longrightarrow> printable (concat ts)"
  by (auto simp: printable_def)

lemma printable_commas: "(\<And>t. t \<in> set ts \<Longrightarrow> printable t) \<Longrightarrow> printable (commas ts)"
  by (induction ts rule: commas.induct) simp_all

lemma printable_digits: "list_all is_digit_cp t \<Longrightarrow> printable t"
  by (auto simp: printable_def list_all_iff is_digit_cp_def)

lemma printable_str_text: "printable (str_text s)"
  by (auto simp: str_text_def escape_cp_def hex_digit_def intro!: printable_concat)

lemma printable_take_digits: "printable (takeWhile is_digit_cp t)"
  by (auto simp: printable_def is_digit_cp_def dest: set_takeWhileD)

lemma printable_number_text:
  "printable (digit_run t)" "printable (scan_frac t)" "printable (scan_exp t)"
  by (auto simp: digit_run_def scan_frac_def scan_exp_def Let_def printable_take_digits split: list.splits)

lemma printable_float:
  assumes "scan_number r = Some (JFloat x, [])"
  shows "printable x"
proof -
  obtain neg u where "scan_unsigned neg u = Some (JFloat x, [])" using assms by (cases r) (auto split: if_splits)
  then show ?thesis by (auto simp: scan_unsigned_def Let_def printable_number_text split: if_splits)
qed

lemma printable_int: "printable (int_text i)"
  using digits_are_digits by (auto simp: int_text_def list_all_iff intro!: printable_digits)

lemma printable_dumps: "wf_json v \<Longrightarrow> printable (dumps v)"
proof (induction v)
  case (JFloat r)
  then show ?case by (auto simp: cps_def printable_float)
next
  case (JBool b)
  then show ?case by (simp add: cps_def)
next
  case (JDict kvs)
  then show ?case by (force simp: printable_str_text intro!: printable_commas)
next
  case JNull
  then show ?case by (simp add: cps_def)
qed (auto simp: printable_int printable_str_text intro!: printable_commas)

lemma record_shape:
  assumes "readable_message float_repr m"
  shows "\<exists>t. to_jsonl float_repr now m = 123 # t @ [125] \<and> printable t"
proof -
  have "printable (to_jsonl float_repr now m)"
    unfolding to_jsonl_def by (rule printable_dumps [OF message_to_dict_wf [OF assms]])
  then show ?thesis by (simp add: to_jsonl_def)
qed

subsection \<open>Lines\<close>

lemma split_lines_no_break: "10 \<notin> set l \<Longrightarrow> split_lines_nl l = [l]"
  by (induction l) auto

lemma split_lines_append: "10 \<notin> set l \<Longrightarrow> split_lines_nl (l @ 10 # rest) = l # split_lines_nl rest"
  by (induction l) auto

lemma split_lines_block:
  "(\<And>l. l \<in> set ls \<Longrightarrow> 10 \<notin> set l) \<Longrightarrow> split_lines_nl (concat (map (\<lambda>l. l @ [10]) ls) @ rest) = ls @ split_lines_nl rest"
  by (induction ls) (simp_all add: split_lines_append)

lemma replace_crlf_id: "13 \<notin> set t \<Longrightarrow> replace_crlf t = t"
  by (induction t rule: replace_crlf.induct) auto

lemma line_joins:
  fixes ls :: "utext list"
  assumes "ls \<noteq> []"
  shows "tl (concat (map (\<lambda>l. 10 # l) ls)) @ [10] = concat (map (\<lambda>l. l @ [10]) ls)"
proof -
  have "concat (map (\<lambda>l. 10 # l) ls) @ [10] = 10 # concat (map (\<lambda>l. l @ [10]) ls)" for ls :: "utext list"
    by (induction ls) simp_all
  from this [of ls] assms show ?thesis by (cases ls) auto
qed

lemma messages_text_batch: "messages_text float_repr clock ms = batch_content float_repr clock ms"
proof (cases "ms = []")
  case False
  then show ?thesis
    using line_joins [of "map (\<lambda>m. to_jsonl float_repr (clock m) m) ms"]
    by (simp add: messages_text_def batch_content_def Let_def comp_def)
qed (simp add: messages_text_def batch_content_def)

lemma batch_content_append:
  "batch_content float_repr clock ms @ batch_content float_repr clock ns = batch_content float_repr clock (ms @ ns)"
  by (simp add: batch_content_def)

lemma space_cps [simp]: "is_space_cp 10" "is_space_cp 13" "\<not> is_space_cp 123" "\<not> is_space_cp 125"
  by (simp_all add: is_space_cp_def)

lemma strip_text_fixed: "\<not> is_space_cp c \<Longrightarrow> \<not> is_space_cp d \<Longrightarrow> strip_text (c # t @ [d]) = c # t @ [d]"
  by (simp add: strip_text_def lstrip_text_def rstrip_text_def)

lemma strip_text_newline: "\<not> is_space_cp c \<Longrightarrow> \<not> is_space_cp d \<Longrightarrow> strip_text (c # t @ [d, 10]) = c # t @ [d]"
  by (simp add: strip_text_def lstrip_text_def rstrip_text_def)

lemma log_lines:
  assumes "\<And>l. l \<in> set ls \<Longrightarrow> \<exists>t. l = 123 # t @ [125] \<and> printable t"
  defines "body \<equiv> concat (map (\<lambda>l. l @ [10]) ls)"
  shows "filter nonblank (split_lines_nl (strip_text body)) = ls"
    and "filter nonblank (split_lines_nl (replace_crlf body)) = ls"
proof -
  have no: "10 \<notin> set l" "13 \<notin> set l" "nonblank l" if l: "l \<in> set ls" for l
    using assms(1) [OF l] by (force simp: printable_def nonblank_def strip_text_fixed)+
  have crlf: "replace_crlf body = body"
    unfolding body_def using no by (intro replace_crlf_id) auto
  have keep: "filter nonblank ls = ls" using no by (intro filter_True) auto
  have blank: "\<not> nonblank []" by (simp add: nonblank_def strip_text_def lstrip_text_def rstrip_text_def)
  have whole: "split_lines_nl body = ls @ [[]]"
    unfolding body_def using split_lines_block [of ls "[]"] no by simp
  then show "filter nonblank (split_lines_nl (replace_crlf body)) = ls" by (simp add: crlf keep blank)
  show "filter nonblank (split_lines_nl (strip_text body)) = ls"
  proof (cases "ls = []")
    case True
    then show ?thesis by (simp add: body_def blank strip_text_def lstrip_text_def rstrip_text_def)
  next
    case False
    then obtain ks l where ls: "ls = ks @ [l]" by (cases ls rule: rev_cases) auto
    then obtain t where l: "l = 123 # t @ [125]" using assms(1) by force
    obtain u where u: "concat (map (\<lambda>l. l @ [10]) ks) @ l = 123 # u @ [125]"
    proof (cases ks)
      case Nil
      then show thesis using that [of t] l by simp
    next
      case (Cons k ks')
      then obtain s where "k = 123 # s @ [125]" using assms(1) [of k] ls by auto
      then show thesis using that [of "s @ [125, 10] @ concat (map (\<lambda>l. l @ [10]) ks') @ 123 # t"] Cons l by simp
    qed
    have "body = 123 # u @ [125, 10]" unfolding body_def ls using u by simp
    then have "strip_text body = concat (map (\<lambda>l. l @ [10]) ks) @ l"
      using strip_text_newline [of 123 125 u] u by simp
    then have "split_lines_nl (strip_text body) = ks @ [l]"
      using split_lines_block [of ks l] split_lines_no_break [of l] no ls by simp
    then show ?thesis using keep ls by simp
  qed
qed

lemma read_line_record:
  assumes "readable_message float_repr m"
  shows "read_line py_str obj (to_jsonl float_repr now m) = Inr (Some (norm_message now obj m))"
  by (simp add: read_line_def to_jsonl_def loads_dumps_wf [OF message_to_dict_wf [OF assms]]
      message_dict_roundtrip [OF assms] del: dumps.simps)

lemma read_lines_records:
  "\<forall>m \<in> set ms. readable_message float_repr m \<Longrightarrow>
   read_lines py_str obj (map (\<lambda>m. to_jsonl float_repr (clock m) m) ms) = Inr (norm_messages clock obj ms)"
  by (induction ms arbitrary: obj) (simp_all add: read_line_record)

lemma readers_of_batch:
  assumes "\<forall>m \<in> set ms. readable_message float_repr m"
  shows "load_messages py_str obj (batch_content float_repr clock ms) = Inr (norm_messages clock obj ms)"
    and "read_live_messages_strict py_str obj (batch_content float_repr clock ms) = Inr (norm_messages clock obj ms)"
    and "read_archive_messages py_str obj (batch_content float_repr clock ms) = Inr (norm_messages clock obj ms)"
    and "live_message_count (batch_content float_repr clock ms) = length ms"
proof -
  let ?ls = "map (\<lambda>m. to_jsonl float_repr (clock m) m) ms"
  have shape: "\<exists>t. l = 123 # t @ [125] \<and> printable t" if "l \<in> set ?ls" for l
    using that assms record_shape by auto
  have body: "batch_content float_repr clock ms = concat (map (\<lambda>l. l @ [10]) ?ls)"
    by (simp add: batch_content_def comp_def)
  have lines: "filter nonblank (split_lines_nl (strip_text (batch_content float_repr clock ms))) = ?ls"
      "filter nonblank (split_lines_nl (replace_crlf (batch_content float_repr clock ms))) = ?ls"
    unfolding body by (rule log_lines, rule shape, assumption)+
  note read = read_lines_records [OF assms]
  show "load_messages py_str obj (batch_content float_repr clock ms) = Inr (norm_messages clock obj ms)"
    by (simp add: load_messages_def lines read)
  show "read_live_messages_strict py_str obj (batch_content float_repr clock ms) = Inr (norm_messages clock obj ms)"
    by (simp add: read_live_messages_strict_def lines read)
  show "read_archive_messages py_str obj (batch_content float_repr clock ms) = Inr (norm_messages clock obj ms)"
    by (simp add: read_archive_messages_def lines read)
  show "live_message_count (batch_content float_repr clock ms) = length ms"
    by (simp add: live_message_count_def lines)
qed

subsection \<open>Counting records\<close>

text \<open>The number of lines that are not blank, in one pass over the text.\<close>

fun count_lines :: "bool \<Rightarrow> utext \<Rightarrow> nat" where
  "count_lines seen [] = (if seen then 1 else 0)"
| "count_lines seen (c # cs) =
     (if c = 10 then (if seen then 1 else 0) + count_lines False cs else count_lines (seen \<or> \<not> is_space_cp c) cs)"

lemma nonblank_iff: "nonblank l \<longleftrightarrow> (\<exists>c \<in> set l. \<not> is_space_cp c)"
proof -
  have "strip_text l = [] \<longleftrightarrow> list_all is_space_cp l"
    by (induction l) (auto simp: strip_text_def lstrip_text_def rstrip_text_def list_all_iff dropWhile_append3)
  then show ?thesis by (auto simp: nonblank_def list_all_iff)
qed

lemma count_lines_split:
  "count_lines seen t = (if seen \<or> nonblank (hd (split_lines_nl t)) then 1 else 0) + length (filter nonblank (tl (split_lines_nl t)))"
proof (induction t arbitrary: seen)
  case (Cons c t)
  have "split_lines_nl t \<noteq> []" by (cases t) (auto split: list.splits)
  then obtain l ls where "split_lines_nl t = l # ls" by (cases "split_lines_nl t") auto
  then show ?case using Cons.IH [of False] Cons.IH [of "seen \<or> \<not> is_space_cp c"] by (auto simp: nonblank_iff)
qed (simp add: nonblank_iff)

lemma count_lines_eq: "length (filter nonblank (split_lines_nl t)) = count_lines False t"
proof -
  have "split_lines_nl t \<noteq> []" by (cases t) (auto split: list.splits)
  then show ?thesis unfolding count_lines_split by (cases "split_lines_nl t") auto
qed

lemma count_lines_spaces: "list_all is_space_cp w \<Longrightarrow> count_lines seen w = (if seen then 1 else 0)"
  by (induction w arbitrary: seen) auto

lemma count_lines_trailing: "list_all is_space_cp w \<Longrightarrow> count_lines seen (t @ w) = count_lines seen t"
  by (induction t arbitrary: seen) (simp_all add: count_lines_spaces)

lemma count_lines_leading: "count_lines False (dropWhile is_space_cp t) = count_lines False t"
  by (induction t) auto

lemma count_lines_strip: "count_lines False (strip_text t) = count_lines False t"
proof -
  let ?r = "lstrip_text t"
  have "?r = rstrip_text ?r @ rev (takeWhile is_space_cp (rev ?r))"
    by (metis rev_append rev_rev_ident rstrip_text_def takeWhile_dropWhile_id)
  moreover have "list_all is_space_cp (rev (takeWhile is_space_cp (rev ?r)))"
    by (auto simp: list_all_iff dest: set_takeWhileD)
  ultimately have "count_lines False (rstrip_text ?r) = count_lines False ?r"
    by (metis count_lines_trailing)
  then show ?thesis by (simp add: strip_text_def lstrip_text_def count_lines_leading)
qed

lemma count_lines_crlf: "count_lines seen (replace_crlf t) = count_lines seen t"
  by (induction t arbitrary: seen rule: replace_crlf.induct) (auto simp del: count_lines.simps(1))

lemma read_lines_length: "read_lines py_str obj ls = Inr ms \<Longrightarrow> length ms = length ls"
  by (induction ls arbitrary: obj ms) (auto simp: bind_res_Inr_iff)

section \<open>Properties\<close>

text \<open>A small log, for the witnesses.\<close>

definition log_sample :: "message list" where
  "log_sample =
     [\<lparr>msg_object = 4, msg_id = ''m1'', role = ''user'', parts = [TextPart [104, 10, 8232], ImagePart ''u'' (Some ''low'')],
       msg_peer_id = Some '' bob '', created_at = Some ''t1'', turn_id = None, message_kind = Some ''user_query'', source_message_ids = None\<rparr>,
      \<lparr>msg_object = 7, msg_id = ''m2'', role = ''assistant'',
       parts = [ToolPart (default_tool_part\<lparr>tool_id := ''c1'', tool_input := Some [([113], JInt 1)], duration_ms := Some (3 / 2)\<rparr>)],
       msg_peer_id = None, created_at = None, turn_id = Some ''k'', message_kind = None, source_message_ids = Some [''m1'']\<rparr>]"

text \<open>A \<open>repr\<close> that is right for the one duration of the sample.\<close>

definition log_repr :: "rat \<Rightarrow> utext" where
  "log_repr r = [49, 46, 53]"

lemma log_sample_readable: "\<forall>m \<in> set log_sample. readable_message log_repr m"
proof -
  have "parse_float (log_repr (3 / 2)) = Some (Fin (3 / 2))"
    by (simp add: log_repr_def parse_float_def parse_decimal_def strip_text_def lstrip_text_def rstrip_text_def is_space_cp_def
        cps_def split_sign_def lower_cp_def power_ten_def float_of_rat_def FLOAT_LIMIT_def is_digit_cp_def Let_def)
  moreover have "wf_json (JFloat (log_repr (3 / 2)))"
    by (simp add: log_repr_def scan_unsigned_def digit_run_def scan_frac_def scan_exp_def is_digit_cp_def Let_def)
  moreover have "strip_text (cps ''u'') \<noteq> []"
    by (simp add: cps_def strip_text_def lstrip_text_def rstrip_text_def is_space_cp_def)
  ultimately show ?thesis
    by (simp add: log_sample_def readable_message_def readable_part_def del: wf_json.simps(1))
qed

text \<open>C8: Whatever mixture of whole writes and appends produced a log, every reader of the code gives the messages that were
  written, in order and complete: the loader, the strict reader and the archive reader agree, and the counter counts them. A
  message comes back as it was, apart from the fields the reader fills in (\<open>norm_message\<close>); line breaks in its text do not split a
  record.\<close>

theorem session_log_roundtrip:
  fixes clock :: "message \<Rightarrow> string"
  assumes "\<forall>m \<in> set (ms @ ns). readable_message float_repr m"
  defines "body \<equiv> messages_text float_repr clock ms @ batch_content float_repr clock ns"
  shows "load_messages py_str obj body = Inr (norm_messages clock obj (ms @ ns))
     \<and> read_live_messages_strict py_str obj body = Inr (norm_messages clock obj (ms @ ns))
     \<and> read_archive_messages py_str obj body = Inr (norm_messages clock obj (ms @ ns))
     \<and> live_message_count body = length ms + length ns"
  using readers_of_batch [OF assms(1)] unfolding body_def messages_text_batch batch_content_append by simp

theorem session_log_roundtrip_witness:
  "load_messages (\<lambda>v. []) 9 (messages_text log_repr (\<lambda>m. ''now'') log_sample @ batch_content log_repr (\<lambda>m. ''now'') log_sample)
     = Inr (norm_messages (\<lambda>m. ''now'') 9 (log_sample @ log_sample))
   \<and> live_message_count (messages_text log_repr (\<lambda>m. ''now'') log_sample @ batch_content log_repr (\<lambda>m. ''now'') log_sample) = 4"
proof -
  have "\<forall>m \<in> set (log_sample @ log_sample). readable_message log_repr m" using log_sample_readable by simp
  from session_log_roundtrip [OF this, where clock = "\<lambda>m. ''now''" and obj = 9 and py_str = "\<lambda>v. []"]
  show ?thesis by (simp add: log_sample_def)
qed

text \<open>The strict reader drops no record: when it succeeds on any file at all, with either kind of line end and blank lines
  anywhere, it returns exactly as many messages as the counter reports, and so does the loader.\<close>

lemma strict_read_complete:
  assumes "read_live_messages_strict py_str obj body = Inr ms \<or> load_messages py_str obj body = Inr ms"
  shows "length ms = live_message_count body"
  using assms
  by (auto simp: read_live_messages_strict_def load_messages_def live_message_count_def count_lines_eq count_lines_strip
      count_lines_crlf dest!: read_lines_length split: sum.splits)

end
