(* ===== verification/Session_Policies.thy ===== *)
theory Session_Policies
  imports Py_Values "HOL-Library.List_Lexorder"
begin

text \<open>
  The policies of a session: \<open>openviking/session/auto_commit_policy.py\<close> and \<open>openviking/session/memory_policy.py\<close>. A policy
  comes as an object or as a dynamic value; the value is normalised field by field, with an exception for a shape the
  policy does not have.
\<close>

section \<open>The auto-commit policy\<close>

definition DEFAULT_PENDING_TOKEN_THRESHOLD :: int where "DEFAULT_PENDING_TOKEN_THRESHOLD = 150000"
definition DEFAULT_MESSAGE_COUNT_THRESHOLD :: int where "DEFAULT_MESSAGE_COUNT_THRESHOLD = 100"
definition DEFAULT_IDLE_TIMEOUT_SECONDS :: int where "DEFAULT_IDLE_TIMEOUT_SECONDS = 86400"
definition DEFAULT_KEEP_RECENT_COUNT :: int where "DEFAULT_KEEP_RECENT_COUNT = 0"
definition DEFAULT_MIN_COMMIT_INTERVAL_SECONDS :: int where "DEFAULT_MIN_COMMIT_INTERVAL_SECONDS = 0"
definition MAX_PENDING_TOKEN_THRESHOLD :: int where "MAX_PENDING_TOKEN_THRESHOLD = 1000000"
definition MAX_MESSAGE_COUNT_THRESHOLD :: int where "MAX_MESSAGE_COUNT_THRESHOLD = 1000"
definition MAX_IDLE_TIMEOUT_SECONDS :: int where "MAX_IDLE_TIMEOUT_SECONDS = 604800"

lemmas auto_commit_constants =
  DEFAULT_PENDING_TOKEN_THRESHOLD_def DEFAULT_MESSAGE_COUNT_THRESHOLD_def DEFAULT_IDLE_TIMEOUT_SECONDS_def
  DEFAULT_KEEP_RECENT_COUNT_def DEFAULT_MIN_COMMIT_INTERVAL_SECONDS_def MAX_PENDING_TOKEN_THRESHOLD_def
  MAX_MESSAGE_COUNT_THRESHOLD_def MAX_IDLE_TIMEOUT_SECONDS_def

record auto_commit_policy =
  pending_token_threshold :: int
  message_count_threshold :: int
  idle_timeout_seconds :: int
  ac_keep_recent_count :: int
  min_commit_interval_seconds :: int

definition default_auto_commit_policy :: auto_commit_policy where
  "default_auto_commit_policy =
     \<lparr>pending_token_threshold = DEFAULT_PENDING_TOKEN_THRESHOLD, message_count_threshold = DEFAULT_MESSAGE_COUNT_THRESHOLD,
      idle_timeout_seconds = DEFAULT_IDLE_TIMEOUT_SECONDS, ac_keep_recent_count = DEFAULT_KEEP_RECENT_COUNT,
      min_commit_interval_seconds = DEFAULT_MIN_COMMIT_INTERVAL_SECONDS\<rparr>"

definition auto_commit_keys :: "string list" where
  "auto_commit_keys = [''pending_token_threshold'', ''message_count_threshold'', ''idle_timeout_seconds'',
     ''keep_recent_count'', ''min_commit_interval_seconds'']"

definition coerce_int :: "json \<Rightarrow> int \<Rightarrow> int \<Rightarrow> int res" where
  "coerce_int v minimum maximum =
     (case py_int v of
        Inl e \<Rightarrow> Inl (if e = TypeError \<or> is_value_error e then InvalidArgumentError else e)
      | Inr parsed \<Rightarrow>
          let parsed = (if parsed < minimum then minimum else parsed)
          in Inr (if parsed > maximum then maximum else parsed))"

text \<open>\<open>data.get(key, default)\<close>.\<close>

definition get_or :: "(utext \<times> json) list \<Rightarrow> string \<Rightarrow> json \<Rightarrow> json" where
  "get_or d k fallback = (case map_of d (cps k) of Some v \<Rightarrow> v | None \<Rightarrow> fallback)"

definition extra_keys :: "(utext \<times> json) list \<Rightarrow> string list \<Rightarrow> bool" where
  "extra_keys d keys \<longleftrightarrow> list_ex (\<lambda>(k, _). k \<notin> cps ` set keys) d"

datatype 'p policy_input = PolicyObject 'p | PolicyData json

definition auto_commit_from_dict :: "auto_commit_policy policy_input \<Rightarrow> auto_commit_policy res" where
  "auto_commit_from_dict input =
     (case input of
        PolicyObject p \<Rightarrow> Inr p
      | PolicyData JNull \<Rightarrow> Inr default_auto_commit_policy
      | PolicyData (JDict d) \<Rightarrow>
          if extra_keys d auto_commit_keys then Inl InvalidArgumentError
          else
            bind_res (coerce_int (get_or d ''pending_token_threshold'' (JInt DEFAULT_PENDING_TOKEN_THRESHOLD)) 0 MAX_PENDING_TOKEN_THRESHOLD) (\<lambda>a.
            bind_res (coerce_int (get_or d ''message_count_threshold'' (JInt DEFAULT_MESSAGE_COUNT_THRESHOLD)) 0 MAX_MESSAGE_COUNT_THRESHOLD) (\<lambda>b.
            bind_res (coerce_int (get_or d ''idle_timeout_seconds'' (JInt DEFAULT_IDLE_TIMEOUT_SECONDS)) 0 MAX_IDLE_TIMEOUT_SECONDS) (\<lambda>c.
            bind_res (coerce_int (get_or d ''keep_recent_count'' (JInt DEFAULT_KEEP_RECENT_COUNT)) 0 MAX_MESSAGE_COUNT_THRESHOLD) (\<lambda>k.
            bind_res (coerce_int (get_or d ''min_commit_interval_seconds'' (JInt DEFAULT_MIN_COMMIT_INTERVAL_SECONDS)) 0 MAX_IDLE_TIMEOUT_SECONDS) (\<lambda>i.
              Inr \<lparr>pending_token_threshold = a, message_count_threshold = b, idle_timeout_seconds = c,
                   ac_keep_recent_count = k, min_commit_interval_seconds = i\<rparr>)))))
      | PolicyData _ \<Rightarrow> Inl InvalidArgumentError)"

definition auto_commit_to_dict :: "auto_commit_policy \<Rightarrow> (utext \<times> json) list" where
  "auto_commit_to_dict p =
     [(cps ''pending_token_threshold'', JInt (pending_token_threshold p)),
      (cps ''message_count_threshold'', JInt (message_count_threshold p)),
      (cps ''idle_timeout_seconds'', JInt (idle_timeout_seconds p)),
      (cps ''keep_recent_count'', JInt (ac_keep_recent_count p)),
      (cps ''min_commit_interval_seconds'', JInt (min_commit_interval_seconds p))]"

text \<open>The merge of \<open>Session.update_config\<close>: the stored policy, updated with the given fields, normalised again.\<close>

definition merge_auto_commit :: "(utext \<times> json) list option \<Rightarrow> (utext \<times> json) list \<Rightarrow> (utext \<times> json) list res" where
  "merge_auto_commit stored given =
     bind_res (auto_commit_from_dict (PolicyData (JDict
        (fold (\<lambda>(k, v). AList.update k v) given (case stored of None \<Rightarrow> [] | Some d \<Rightarrow> d)))))
       (\<lambda>p. Inr (auto_commit_to_dict p))"

section \<open>The memory policy\<close>

definition EXPERIENCE_MEMORY_TYPE :: string where "EXPERIENCE_MEMORY_TYPE = ''experiences''"
definition AGENT_EVOLUTION_MEMORY_TYPES :: "utext set" where
  "AGENT_EVOLUTION_MEMORY_TYPES = {cps ''cases'', cps ''trajectories'', cps ''experiences''}"
definition memory_policy_keys :: "string list" where
  "memory_policy_keys = [''self'', ''peer'', ''memory_types'', ''working_memory'']"
definition TRUE_STRINGS :: "utext list" where "TRUE_STRINGS = map cps [''1'', ''true'', ''yes'', ''on'']"
definition FALSE_STRINGS :: "utext list" where "FALSE_STRINGS = map cps ['''', ''0'', ''false'', ''no'', ''off'']"

text \<open>\<open>str.casefold\<close> as far as equality with the words above needs it: the ASCII letters, the long s and the
  ligature of two f.\<close>

definition casefold_cp :: "nat \<Rightarrow> utext" where
  "casefold_cp c = (if 65 \<le> c \<and> c \<le> 90 then [c + 32] else if c = 0x17F then [115] else if c = 0xFB00 then [102, 102] else [c])"

definition casefold :: "utext \<Rightarrow> utext" where
  "casefold t = concat (map casefold_cp t)"

definition parse_enabled :: "json \<Rightarrow> bool" where
  "parse_enabled v =
     (case v of
        JBool b \<Rightarrow> b
      | JStr s \<Rightarrow>
          let normalized = casefold (strip_text s)
          in if normalized \<in> set TRUE_STRINGS then True
             else if normalized \<in> set FALSE_STRINGS then False else truthy_json v
      | _ \<Rightarrow> truthy_json v)"

definition target_enabled :: "json option \<Rightarrow> bool \<Rightarrow> bool res" where
  "target_enabled data default_enabled =
     (case data of
        None \<Rightarrow> Inr default_enabled
      | Some JNull \<Rightarrow> Inr default_enabled
      | Some (JDict d) \<Rightarrow>
          if extra_keys d [''enabled''] then Inl InvalidArgumentError
          else (case map_of d (cps ''enabled'') of None \<Rightarrow> Inr default_enabled | Some v \<Rightarrow> Inr (parse_enabled v))
      | Some _ \<Rightarrow> Inl InvalidArgumentError)"

fun string_items :: "json list \<Rightarrow> utext list res" where
  "string_items [] = Inr []"
| "string_items (v # vs) =
     (case v of
        JStr s \<Rightarrow> if s = [] then Inl InvalidArgumentError else bind_res (string_items vs) (\<lambda>ss. Inr (s # ss))
      | _ \<Rightarrow> Inl InvalidArgumentError)"

definition evolution_closed :: "utext set \<Rightarrow> utext set" where
  "evolution_closed ts =
     (if cps EXPERIENCE_MEMORY_TYPE \<in> ts then ts \<union> AGENT_EVOLUTION_MEMORY_TYPES else ts - AGENT_EVOLUTION_MEMORY_TYPES)"

definition parse_memory_types :: "json option \<Rightarrow> utext set option res" where
  "parse_memory_types data =
     (case data of
        None \<Rightarrow> Inr None
      | Some JNull \<Rightarrow> Inr None
      | Some (JList vs) \<Rightarrow> bind_res (string_items vs) (\<lambda>ss. Inr (Some (evolution_closed (set ss))))
      | Some _ \<Rightarrow> Inl InvalidArgumentError)"

record memory_policy =
  self_enabled :: bool
  peer_enabled :: bool
  memory_types :: "utext set option"
  working_memory_enabled :: bool

definition default_memory_policy :: memory_policy where
  "default_memory_policy = \<lparr>self_enabled = True, peer_enabled = True, memory_types = None, working_memory_enabled = True\<rparr>"

definition memory_policy_from_dict :: "memory_policy policy_input \<Rightarrow> memory_policy res" where
  "memory_policy_from_dict input =
     (case input of
        PolicyObject p \<Rightarrow> Inr p
      | PolicyData JNull \<Rightarrow> Inr default_memory_policy
      | PolicyData (JDict d) \<Rightarrow>
          if extra_keys d memory_policy_keys then Inl InvalidArgumentError
          else
            bind_res (target_enabled (map_of d (cps ''self'')) True) (\<lambda>s.
            bind_res (target_enabled (map_of d (cps ''peer'')) True) (\<lambda>p.
            bind_res (parse_memory_types (map_of d (cps ''memory_types''))) (\<lambda>ts.
            bind_res (target_enabled (map_of d (cps ''working_memory'')) True) (\<lambda>w.
              Inr \<lparr>self_enabled = s, peer_enabled = p, memory_types = ts, working_memory_enabled = w\<rparr>))))
      | PolicyData _ \<Rightarrow> Inl InvalidArgumentError)"

definition validate_memory_types :: "memory_policy \<Rightarrow> utext set \<Rightarrow> unit res" where
  "validate_memory_types p known =
     (case memory_types p of
        None \<Rightarrow> Inr ()
      | Some ts \<Rightarrow> if ts - known \<noteq> {} then Inl InvalidArgumentError else Inr ())"

definition memory_policy_to_dict :: "memory_policy \<Rightarrow> (utext \<times> json) list" where
  "memory_policy_to_dict p =
     [(cps ''self'', JDict [(cps ''enabled'', JBool (self_enabled p))]),
      (cps ''peer'', JDict [(cps ''enabled'', JBool (peer_enabled p))])]
     @ (if working_memory_enabled p then [] else [(cps ''working_memory'', JDict [(cps ''enabled'', JBool False)])])
     @ (case memory_types p of
          None \<Rightarrow> []
        | Some ts \<Rightarrow> [(cps ''memory_types'', JList (map JStr (sorted_list_of_set ts)))])"

section \<open>Properties of the auto-commit policy\<close>

definition auto_commit_bounds :: "auto_commit_policy \<Rightarrow> bool" where
  "auto_commit_bounds p \<longleftrightarrow>
     pending_token_threshold p \<in> {0..MAX_PENDING_TOKEN_THRESHOLD} \<and> message_count_threshold p \<in> {0..MAX_MESSAGE_COUNT_THRESHOLD}
     \<and> idle_timeout_seconds p \<in> {0..MAX_IDLE_TIMEOUT_SECONDS} \<and> ac_keep_recent_count p \<in> {0..MAX_MESSAGE_COUNT_THRESHOLD}
     \<and> min_commit_interval_seconds p \<in> {0..MAX_IDLE_TIMEOUT_SECONDS}"

lemma coerce_int_bounds: "coerce_int v lo hi = Inr i \<Longrightarrow> lo \<le> hi \<Longrightarrow> lo \<le> i \<and> i \<le> hi"
  by (auto simp: coerce_int_def Let_def split: sum.splits if_splits)

lemma coerce_int_JInt: "lo \<le> i \<Longrightarrow> i \<le> hi \<Longrightarrow> coerce_int (JInt i) lo hi = Inr i"
  by (simp add: coerce_int_def)

lemma auto_commit_from_dict_bounds:
  "auto_commit_from_dict (PolicyData v) = Inr p \<Longrightarrow> auto_commit_bounds p"
  by (auto simp: auto_commit_from_dict_def auto_commit_bounds_def default_auto_commit_policy_def bind_res_Inr_iff auto_commit_constants
      dest!: coerce_int_bounds split: json.splits if_splits)

lemma get_or_to_dict:
  "get_or (auto_commit_to_dict p) ''pending_token_threshold'' x = JInt (pending_token_threshold p)"
  "get_or (auto_commit_to_dict p) ''message_count_threshold'' x = JInt (message_count_threshold p)"
  "get_or (auto_commit_to_dict p) ''idle_timeout_seconds'' x = JInt (idle_timeout_seconds p)"
  "get_or (auto_commit_to_dict p) ''keep_recent_count'' x = JInt (ac_keep_recent_count p)"
  "get_or (auto_commit_to_dict p) ''min_commit_interval_seconds'' x = JInt (min_commit_interval_seconds p)"
  by (simp_all add: get_or_def auto_commit_to_dict_def)

lemma extra_keys_to_dict: "\<not> extra_keys (auto_commit_to_dict p) auto_commit_keys"
  by (simp add: extra_keys_def auto_commit_to_dict_def auto_commit_keys_def)

lemma auto_commit_from_to_dict:
  assumes "auto_commit_bounds p"
  shows "auto_commit_from_dict (PolicyData (JDict (auto_commit_to_dict p))) = Inr p"
  using assms extra_keys_to_dict [of p]
  by (simp add: auto_commit_from_dict_def get_or_to_dict coerce_int_JInt auto_commit_bounds_def)

text \<open>C39: the auto-commit policy is normalised once. A policy built from any dynamic value is within the documented bounds, and storing
  it as a dict and reading it back gives the same policy.\<close>

theorem auto_commit_normalised:
  assumes "auto_commit_from_dict (PolicyData v) = Inr p"
  shows "auto_commit_bounds p \<and> auto_commit_from_dict (PolicyData (JDict (auto_commit_to_dict p))) = Inr p"
  using auto_commit_from_dict_bounds [OF assms] auto_commit_from_to_dict by blast

theorem auto_commit_normalised_witness:
  "auto_commit_bounds (default_auto_commit_policy\<lparr>message_count_threshold := 1000\<rparr>)"
proof -
  have "auto_commit_from_dict (PolicyData (JDict [(cps ''message_count_threshold'', JInt 5000)]))
      = Inr (default_auto_commit_policy\<lparr>message_count_threshold := 1000\<rparr>)"
    by (simp add: auto_commit_from_dict_def extra_keys_def auto_commit_keys_def get_or_def coerce_int_def
        default_auto_commit_policy_def auto_commit_constants)
  from auto_commit_normalised [OF this] show ?thesis by blast
qed

section \<open>Properties of the memory policy\<close>

lemma evolution_closed_idem [simp]: "evolution_closed (evolution_closed ts) = evolution_closed ts"
  by (auto simp: evolution_closed_def AGENT_EVOLUTION_MEMORY_TYPES_def EXPERIENCE_MEMORY_TYPE_def)

lemma string_items_JStr:
  "[] \<notin> set ss \<Longrightarrow> string_items (map JStr ss) = Inr ss"
  by (induction ss) auto

lemma string_items_Inr: "string_items vs = Inr ss \<Longrightarrow> [] \<notin> set ss"
  by (induction vs arbitrary: ss) (auto simp: bind_res_Inr_iff split: json.splits if_splits)

lemma evolution_closed_no_empty: "[] \<notin> ts \<Longrightarrow> [] \<notin> evolution_closed ts"
  by (auto simp: evolution_closed_def AGENT_EVOLUTION_MEMORY_TYPES_def cps_def)

lemma evolution_closed_finite: "finite ts \<Longrightarrow> finite (evolution_closed ts)"
  by (simp add: evolution_closed_def AGENT_EVOLUTION_MEMORY_TYPES_def)

definition memory_policy_wf :: "memory_policy \<Rightarrow> bool" where
  "memory_policy_wf p \<longleftrightarrow>
     (case memory_types p of None \<Rightarrow> True | Some ts \<Rightarrow> finite ts \<and> [] \<notin> ts \<and> evolution_closed ts = ts)"

lemma parse_memory_types_wf:
  assumes "parse_memory_types v = Inr (Some ts)"
  shows "finite ts \<and> [] \<notin> ts \<and> evolution_closed ts = ts"
proof -
  obtain vs ss where ss: "string_items vs = Inr ss" "ts = evolution_closed (set ss)"
    using assms by (auto simp: parse_memory_types_def bind_res_Inr_iff split: option.splits json.splits)
  have "[] \<notin> set ss" by (rule string_items_Inr [OF ss(1)])
  then show ?thesis unfolding ss(2) by (simp add: evolution_closed_no_empty evolution_closed_finite)
qed

lemma target_enabled_dict [simp]: "target_enabled (Some (JDict [(cps ''enabled'', JBool b)])) x = Inr b"
  by (simp add: target_enabled_def extra_keys_def parse_enabled_def)

lemma memory_policy_to_dict_get:
  "map_of (memory_policy_to_dict p) (cps ''self'') = Some (JDict [(cps ''enabled'', JBool (self_enabled p))])"
  "map_of (memory_policy_to_dict p) (cps ''peer'') = Some (JDict [(cps ''enabled'', JBool (peer_enabled p))])"
  "map_of (memory_policy_to_dict p) (cps ''working_memory'') =
     (if working_memory_enabled p then None else Some (JDict [(cps ''enabled'', JBool False)]))"
  "map_of (memory_policy_to_dict p) (cps ''memory_types'') =
     map_option (\<lambda>ts. JList (map JStr (sorted_list_of_set ts))) (memory_types p)"
  by (simp_all add: memory_policy_to_dict_def map_add_def split: option.split)

lemma extra_keys_memory_policy: "\<not> extra_keys (memory_policy_to_dict p) memory_policy_keys"
  by (simp add: extra_keys_def memory_policy_to_dict_def memory_policy_keys_def split: option.split)

lemma parse_memory_types_sorted:
  assumes "memory_policy_wf p"
  shows "parse_memory_types (map_option (\<lambda>ts. JList (map JStr (sorted_list_of_set ts))) (memory_types p)) = Inr (memory_types p)"
  using assms by (cases "memory_types p") (simp_all add: parse_memory_types_def memory_policy_wf_def string_items_JStr)

lemma memory_policy_from_to_dict:
  assumes "memory_policy_wf p"
  shows "memory_policy_from_dict (PolicyData (JDict (memory_policy_to_dict p))) = Inr p"
proof -
  have "target_enabled (if working_memory_enabled p then None else Some (JDict [(cps ''enabled'', JBool False)])) True
      = Inr (working_memory_enabled p)"
    by (simp add: target_enabled_def [of None])
  then show ?thesis
    unfolding memory_policy_from_dict_def
    by (simp add: memory_policy_to_dict_get extra_keys_memory_policy parse_memory_types_sorted [OF assms])
qed

text \<open>the memory policy that is stored is the one that runs. A policy built from any dynamic value either names the agent-evolution
  types all together or not at all, names no empty type, and is read back unchanged from the dict it is
  stored as.\<close>

lemma memory_policy_stored:
  assumes "memory_policy_from_dict (PolicyData v) = Inr p"
  shows "(case memory_types p of None \<Rightarrow> True
      | Some ts \<Rightarrow> [] \<notin> ts \<and> (AGENT_EVOLUTION_MEMORY_TYPES \<subseteq> ts \<or> AGENT_EVOLUTION_MEMORY_TYPES \<inter> ts = {}))
    \<and> memory_policy_from_dict (PolicyData (JDict (memory_policy_to_dict p))) = Inr p"
proof -
  have "memory_types p = None \<or> (\<exists>x. parse_memory_types x = Inr (memory_types p))"
    using assms by (auto simp: memory_policy_from_dict_def default_memory_policy_def bind_res_Inr_iff split: json.splits if_splits)
  then have wf: "memory_policy_wf p"
    unfolding memory_policy_wf_def using parse_memory_types_wf by (cases "memory_types p") auto
  then have "case memory_types p of None \<Rightarrow> True
      | Some ts \<Rightarrow> [] \<notin> ts \<and> (AGENT_EVOLUTION_MEMORY_TYPES \<subseteq> ts \<or> AGENT_EVOLUTION_MEMORY_TYPES \<inter> ts = {})"
    by (auto simp: memory_policy_wf_def evolution_closed_def split: option.splits if_splits)
  with memory_policy_from_to_dict [OF wf] show ?thesis by blast
qed

end
