(* ===== verification/Auto_Commit.thy ===== *)
theory Auto_Commit
  imports Session_Policies Json_Text Retrieval_Targets Identity
begin

text \<open>
  When a session is committed automatically: the idle scan and its helpers, \<open>openviking/service/session_auto_commit.py\<close>, and the
  decision and the claims of \<open>openviking/service/session_service.py\<close>. Date and time of the standard library are the record
  \<open>date_env\<close>: \<open>parse_iso\<close> gives the instant of a timestamp, \<open>iso_after\<close> the text of an instant some seconds later, each with its
  exceptions; instants are rationals. Timestamps carry an offset, as the program writes them: one without would be read in UTC by
  the scan and in local time by the service. Reading and listing of the storage are arguments.
\<close>

record date_env =
  parse_iso :: "utext \<Rightarrow> rat res"
  iso_after :: "rat \<Rightarrow> int \<Rightarrow> utext res"

section \<open>Reading the stored policy\<close>

text \<open>A stored value is \<open>JNull\<close> where the code has \<open>None\<close>.\<close>

definition resolve_policy :: "json \<Rightarrow> auto_commit_policy res" where
  "resolve_policy policy =
     auto_commit_from_dict (PolicyData (case policy of JDict d \<Rightarrow> JDict d | _ \<Rightarrow> JNull))"

definition positive_or_none :: "int \<Rightarrow> int option" where
  "positive_or_none n = (if n > 0 then Some n else None)"

definition get_idle_timeout_seconds :: "json \<Rightarrow> int option res" where
  "get_idle_timeout_seconds policy =
     (if policy = JNull then Inr None
      else bind_res (resolve_policy policy) (\<lambda>p. Inr (positive_or_none (idle_timeout_seconds p))))"

definition get_token_threshold :: "json \<Rightarrow> int option res" where
  "get_token_threshold policy =
     (if policy = JNull then Inr None
      else bind_res (resolve_policy policy) (\<lambda>p. Inr (positive_or_none (pending_token_threshold p))))"

definition get_message_count_threshold :: "json \<Rightarrow> int option res" where
  "get_message_count_threshold policy =
     (if policy = JNull then Inr None
      else bind_res (resolve_policy policy) (\<lambda>p. Inr (positive_or_none (message_count_threshold p))))"

definition get_min_commit_interval_seconds :: "json \<Rightarrow> int res" where
  "get_min_commit_interval_seconds policy =
     (if policy = JNull then Inr 0
      else bind_res (resolve_policy policy) (\<lambda>p. Inr (max 0 (min_commit_interval_seconds p))))"

definition get_keep_recent_count :: "json \<Rightarrow> int res" where
  "get_keep_recent_count policy =
     (if policy = JNull then Inr 0
      else bind_res (resolve_policy policy) (\<lambda>p. Inr (max 0 (ac_keep_recent_count p))))"

section \<open>Whether a session is idle\<close>

definition compute_next_check_at :: "date_env \<Rightarrow> json \<Rightarrow> int \<Rightarrow> utext option res" where
  "compute_next_check_at env last_message_at seconds =
     (if \<not> truthy_json last_message_at then Inr None
      else case last_message_at of
          JStr t \<Rightarrow>
            (case parse_iso env t of
               Inl _ \<Rightarrow> Inr None
             | Inr base \<Rightarrow> bind_res (iso_after env base seconds) (\<lambda>s. Inr (Some s)))
        | _ \<Rightarrow> Inr None)"

definition is_next_check_due :: "date_env \<Rightarrow> utext \<Rightarrow> rat \<Rightarrow> bool option" where
  "is_next_check_due env next_check_at now =
     (case parse_iso env next_check_at of Inl _ \<Rightarrow> None | Inr t \<Rightarrow> Some (t \<le> now))"

definition coerce_non_negative_int :: "json \<Rightarrow> int res" where
  "coerce_non_negative_int v =
     (if truthy_json v then bind_res (py_int v) (\<lambda>i. Inr (max 0 i)) else Inr 0)"

definition has_uncommitted_content :: "(utext \<times> json) list \<Rightarrow> bool res" where
  "has_uncommitted_content meta =
     bind_res (coerce_non_negative_int (get_or meta ''keep_recent_count'' (JInt 0))) (\<lambda>keep.
     bind_res (coerce_non_negative_int (get_or meta ''pending_tokens'' (JInt 0))) (\<lambda>tokens.
       if tokens > 0 then Inr True
       else bind_res (coerce_non_negative_int (get_or meta ''message_count'' (JInt 0))) (\<lambda>n. Inr (n > keep))))"

definition has_idle_uncommitted_content :: "(utext \<times> json) list \<Rightarrow> bool res" where
  "has_idle_uncommitted_content meta =
     bind_res (coerce_non_negative_int (get_or meta ''pending_tokens'' (JInt 0))) (\<lambda>tokens.
       if tokens > 0 then Inr True
       else bind_res (coerce_non_negative_int (get_or meta ''message_count'' (JInt 0))) (\<lambda>n. Inr (n > 0)))"

definition is_idle_policy_due :: "date_env \<Rightarrow> (utext \<times> json) list \<Rightarrow> rat \<Rightarrow> bool res" where
  "is_idle_policy_due env meta now =
     bind_res (get_idle_timeout_seconds (get_or meta ''auto_commit_policy'' JNull)) (\<lambda>timeout.
       case timeout of
         None \<Rightarrow> Inr False
       | Some seconds \<Rightarrow>
           bind_res (has_idle_uncommitted_content meta) (\<lambda>pending.
             if \<not> pending then Inr False
             else bind_res (compute_next_check_at env (get_or meta ''last_message_at'' (JStr [])) seconds) (\<lambda>check_at.
               case check_at of
                 None \<Rightarrow> Inr False
               | Some t \<Rightarrow> Inr (t \<noteq> [] \<and> is_next_check_due env t now = Some True))))"

section \<open>The idle scan\<close>

definition SESSION_META_SUFFIX :: string where "SESSION_META_SUFFIX = ''/.meta.json''"

definition path_parts :: "string \<Rightarrow> string list" where
  "path_parts p = filter (\<lambda>s. s \<noteq> []) (split_on (CHR ''/'') p)"

definition is_session_path :: "string list \<Rightarrow> bool" where
  "is_session_path segs \<longleftrightarrow>
     length segs \<ge> 6 \<and> segs ! 0 = ''local'' \<and> segs ! 2 = ''user'' \<and> segs ! 4 = ''sessions''"

definition session_id_from_meta_path :: "string \<Rightarrow> string" where
  "session_id_from_meta_path p =
     (if endswith p SESSION_META_SUFFIX \<and> is_session_path (path_parts p) then path_parts p ! 5 else [])"

definition account_id_from_meta_path :: "string \<Rightarrow> string" where
  "account_id_from_meta_path p =
     (if length (path_parts p) \<ge> 2 \<and> path_parts p ! 0 = ''local'' then path_parts p ! 1 else [])"

definition user_id_from_meta_path :: "string \<Rightarrow> string" where
  "user_id_from_meta_path p = (if is_session_path (path_parts p) then path_parts p ! 3 else [])"

text \<open>The session, account and user of a due session; \<open>None\<close> for a session that is skipped.\<close>

definition read_idle_candidate ::
  "date_env \<Rightarrow> (string \<Rightarrow> utext res) \<Rightarrow> rat \<Rightarrow> string \<Rightarrow> (string \<times> string \<times> string) option res" where
  "read_idle_candidate env read now meta_path =
     (case bind_res (read meta_path) loads of
        Inr (JDict meta) \<Rightarrow>
          bind_res (or_else (is_idle_policy_due env meta now) False) (\<lambda>due.
            let ids = (session_id_from_meta_path meta_path, account_id_from_meta_path meta_path, user_id_from_meta_path meta_path)
            in Inr (if \<not> due \<or> fst ids = [] \<or> fst (snd ids) = [] \<or> snd (snd ids) = [] then None else Some ids))
      | _ \<Rightarrow> Inr None)"

record dir_entry =
  de_name :: string
  de_is_dir :: bool

definition entry_names :: "(string \<Rightarrow> dir_entry list res) \<Rightarrow> string \<Rightarrow> string list" where
  "entry_names ls path =
     (case ls path of
        Inl _ \<Rightarrow> []
      | Inr es \<Rightarrow> filter (\<lambda>n. n \<noteq> []) (map (\<lambda>e. py_strip (de_name e)) (filter de_is_dir es)))"

definition session_meta_paths :: "(string \<Rightarrow> dir_entry list res) \<Rightarrow> string list" where
  "session_meta_paths ls =
     dedupe_list (concat (map (\<lambda>account.
       concat (map (\<lambda>user.
         let root = ''/local/'' @ account @ ''/user/'' @ user @ ''/sessions''
         in map (\<lambda>s. root @ ''/'' @ s @ SESSION_META_SUFFIX) (entry_names ls root))
         (entry_names ls (''/local/'' @ account @ ''/user''))))
       (filter (\<lambda>a. a \<noteq> ''_system'') (entry_names ls ''/local''))))"

function batches :: "nat \<Rightarrow> 'a list \<Rightarrow> 'a list list" where
  "batches n xs = (if xs = [] then [] else take (max 1 n) xs # batches n (drop (max 1 n) xs))"
  by pat_completeness auto
termination by (relation "measure (\<lambda>(n, xs). length xs)") auto

declare batches.simps [simp del]

text \<open>The due sessions of one batch. An exception of one session is the exception of the batch.\<close>

fun read_batch ::
  "date_env \<Rightarrow> (string \<Rightarrow> utext res) \<Rightarrow> rat \<Rightarrow> string list \<Rightarrow> (string \<times> string \<times> string) list res" where
  "read_batch env read now [] = Inr []"
| "read_batch env read now (p # ps) =
     bind_res (read_idle_candidate env read now p) (\<lambda>c.
     bind_res (read_batch env read now ps) (\<lambda>cs. Inr (case c of None \<Rightarrow> cs | Some x \<Rightarrow> x # cs)))"

text \<open>The due sessions of a batch that are handed to the scheduler, each under the identity of its directories, and the exception of
  the first identity that \<open>UserIdentifier\<close> rejects.\<close>

fun schedule_due :: "(string \<times> string \<times> string) list \<Rightarrow> (string \<times> string \<times> string) list \<times> exn option" where
  "schedule_due [] = ([], None)"
| "schedule_due (x # xs) =
     (case mk_user_identifier (fst (snd x)) (snd (snd x)) of
        Inl e \<Rightarrow> ([], Some e)
      | Inr _ \<Rightarrow> (x # fst (schedule_due xs), snd (schedule_due xs)))"

text \<open>The sessions handed to the scheduler in one scan, and the exception that ended it, if any.\<close>

fun scan_batches ::
  "date_env \<Rightarrow> (string \<Rightarrow> utext res) \<Rightarrow> rat \<Rightarrow> string list list \<Rightarrow> (string \<times> string \<times> string) list \<times> exn option" where
  "scan_batches env read now [] = ([], None)"
| "scan_batches env read now (b # bs) =
     (case read_batch env read now b of
        Inl e \<Rightarrow> ([], Some e)
      | Inr due \<Rightarrow>
          if snd (schedule_due due) \<noteq> None then schedule_due due
          else (fst (schedule_due due) @ fst (scan_batches env read now bs), snd (scan_batches env read now bs)))"

definition scan_once ::
  "date_env \<Rightarrow> (string \<Rightarrow> utext res) \<Rightarrow> (string \<Rightarrow> dir_entry list res) \<Rightarrow> nat \<Rightarrow> rat \<Rightarrow> (string \<times> string \<times> string) list \<times> exn option" where
  "scan_once env read ls batch_size now = scan_batches env read now (batches batch_size (session_meta_paths ls))"

section \<open>The decision of the session service\<close>

record commit_meta =
  cm_message_count :: json
  cm_pending_tokens :: json
  cm_keep_recent_count :: json
  cm_auto_commit_policy :: json
  cm_last_message_at :: json
  cm_last_auto_commit_at :: json

definition commit_meta_dict :: "commit_meta \<Rightarrow> (utext \<times> json) list" where
  "commit_meta_dict m =
     [(cps ''message_count'', cm_message_count m), (cps ''pending_tokens'', cm_pending_tokens m),
      (cps ''keep_recent_count'', cm_keep_recent_count m), (cps ''auto_commit_policy'', cm_auto_commit_policy m),
      (cps ''last_message_at'', cm_last_message_at m), (cps ''last_auto_commit_at'', cm_last_auto_commit_at m)]"

definition within_min_commit_interval :: "date_env \<Rightarrow> commit_meta \<Rightarrow> json \<Rightarrow> rat \<Rightarrow> bool res" where
  "within_min_commit_interval env m policy now =
     bind_res (get_min_commit_interval_seconds policy) (\<lambda>interval.
       if interval \<le> 0 \<or> \<not> truthy_json (cm_last_auto_commit_at m) then Inr False
       else
         bind_res (or_else
           (case cm_last_auto_commit_at m of
              JStr t \<Rightarrow> bind_res (parse_iso env t) (\<lambda>last. Inr (now - last < of_int interval))
            | _ \<Rightarrow> Inl TypeError) False) Inr)"

definition or_zero :: "json \<Rightarrow> json" where
  "or_zero v = (if truthy_json v then v else JInt 0)"

definition message_write_threshold_exceeded :: "commit_meta \<Rightarrow> json \<Rightarrow> bool res" where
  "message_write_threshold_exceeded m policy =
     bind_res (or_else
       (bind_res (py_int (or_zero (cm_pending_tokens m))) (\<lambda>tokens.
        bind_res (py_int (or_zero (cm_message_count m))) (\<lambda>count. Inr (Some (tokens, count))))) None) (\<lambda>counts.
       case counts of
         None \<Rightarrow> Inr False
       | Some (tokens, count) \<Rightarrow>
           bind_res (get_token_threshold policy) (\<lambda>tt.
             if (case tt of None \<Rightarrow> False | Some t \<Rightarrow> tokens > t) then Inr True
             else bind_res (get_message_count_threshold policy) (\<lambda>mt.
               Inr (case mt of None \<Rightarrow> False | Some t \<Rightarrow> count > t))))"

definition should_run_auto_commit :: "date_env \<Rightarrow> bool \<Rightarrow> commit_meta \<Rightarrow> string \<Rightarrow> rat \<Rightarrow> bool res" where
  "should_run_auto_commit env idle_enabled m reason now =
     (let policy = cm_auto_commit_policy m
      in if policy = JNull then Inr False
         else if reason = ''message_write'' then
           bind_res (has_uncommitted_content (commit_meta_dict m)) (\<lambda>pending.
             if \<not> pending then Inr False
             else bind_res (within_min_commit_interval env m policy now) (\<lambda>throttled.
               if throttled then Inr False else message_write_threshold_exceeded m policy))
         else if reason = ''idle_timeout'' then
           if \<not> idle_enabled then Inr False
           else
             bind_res (get_idle_timeout_seconds policy) (\<lambda>timeout.
               case timeout of
                 None \<Rightarrow> Inr False
               | Some seconds \<Rightarrow>
                   bind_res (has_idle_uncommitted_content (commit_meta_dict m)) (\<lambda>pending.
                     if \<not> pending then Inr False
                     else bind_res (within_min_commit_interval env m policy now) (\<lambda>throttled.
                       if throttled then Inr False
                       else bind_res (compute_next_check_at env (cm_last_message_at m) seconds) (\<lambda>check_at.
                         case check_at of
                           None \<Rightarrow> Inr False
                         | Some t \<Rightarrow> Inr (t \<noteq> [] \<and> is_next_check_due env t now = Some True)))))
         else Inr False)"

section \<open>Claims\<close>

text \<open>The claims of running automatic commits and the jobs that hold them. Both the check and the claim are made under one lock.
  A claim is account, user and session; \<open>running\<close> is what the task tracker answers for a commit task of the session.\<close>

type_synonym claim = "string \<times> string \<times> string"

record auto_state =
  auto_commit_inflight :: "claim set"
  auto_commit_jobs :: "claim list"

definition maybe_schedule_auto_commit ::
  "claim \<Rightarrow> bool res \<Rightarrow> bool res \<Rightarrow> auto_state \<Rightarrow> auto_state \<times> bool" where
  "maybe_schedule_auto_commit claim decision running st =
     (case decision of
        Inr True \<Rightarrow>
          if claim \<in> auto_commit_inflight st \<or> running \<noteq> Inr False then (st, False)
          else (st\<lparr>auto_commit_inflight := insert claim (auto_commit_inflight st),
                   auto_commit_jobs := auto_commit_jobs st @ [claim]\<rparr>, True)
      | _ \<Rightarrow> (st, False))"

text \<open>A job ends, whatever happened in it, by releasing its claim.\<close>

definition finish_auto_commit :: "claim \<Rightarrow> auto_state \<Rightarrow> auto_state" where
  "finish_auto_commit claim st =
     st\<lparr>auto_commit_inflight := auto_commit_inflight st - {claim}, auto_commit_jobs := remove1 claim (auto_commit_jobs st)\<rparr>"

inductive auto_reachable :: "auto_state \<Rightarrow> bool" where
  start: "auto_reachable \<lparr>auto_commit_inflight = {}, auto_commit_jobs = []\<rparr>"
| schedule: "auto_reachable st \<Longrightarrow> auto_reachable (fst (maybe_schedule_auto_commit claim decision running st))"
| finish: "auto_reachable st \<Longrightarrow> claim \<in> set (auto_commit_jobs st) \<Longrightarrow> auto_reachable (finish_auto_commit claim st)"

section \<open>Properties\<close>

lemma auto_reachable_inv: "auto_reachable st \<Longrightarrow> distinct (auto_commit_jobs st) \<and> auto_commit_inflight st = set (auto_commit_jobs st)"
proof (induction rule: auto_reachable.induct)
  case (schedule st claim decision running)
  then show ?case by (auto simp: maybe_schedule_auto_commit_def split: sum.splits bool.splits)
qed (auto simp: finish_auto_commit_def)

text \<open>C19: a session has at most one automatic commit at a time, and can always have the next one. In every reachable state of the
  service no session has two jobs; and a new trigger is accepted exactly if the decision is positive, the tracker reports no
  running commit, and the session has no job, so that no claim outlives its job.\<close>

theorem auto_commit_single:
  assumes "auto_reachable st"
  shows "distinct (auto_commit_jobs st)
    \<and> (snd (maybe_schedule_auto_commit claim decision running st)
         \<longleftrightarrow> decision = Inr True \<and> running = Inr False \<and> claim \<notin> set (auto_commit_jobs st))"
  using auto_reachable_inv [OF assms]
  by (auto simp: maybe_schedule_auto_commit_def split: sum.splits bool.splits)

theorem auto_commit_single_witness:
  "\<not> snd (maybe_schedule_auto_commit (''a'', ''u'', ''s'') (Inr True) (Inr False)
       (fst (maybe_schedule_auto_commit (''a'', ''u'', ''s'') (Inr True) (Inr False) \<lparr>auto_commit_inflight = {}, auto_commit_jobs = []\<rparr>)))"
proof -
  let ?st = "fst (maybe_schedule_auto_commit (''a'', ''u'', ''s'') (Inr True) (Inr False) \<lparr>auto_commit_inflight = {}, auto_commit_jobs = []\<rparr>)"
  have r: "auto_reachable ?st" by (intro auto_reachable.intros)
  have "(''a'', ''u'', ''s'') \<in> set (auto_commit_jobs ?st)" by (simp add: maybe_schedule_auto_commit_def)
  with auto_commit_single [OF r, of "(''a'', ''u'', ''s'')" "Inr True" "Inr False"] show ?thesis by blast
qed

text \<open>the service confirms what the scan found. For a policy without a minimum interval, the decision of the session service for an idle
  trigger is the decision of the scan over the same metadata at the same time, exceptions included.\<close>

lemma idle_decision_agrees:
  assumes "get_min_commit_interval_seconds (cm_auto_commit_policy m) = Inr 0"
  shows "should_run_auto_commit env True m ''idle_timeout'' now = is_idle_policy_due env (commit_meta_dict m) now"
proof -
  have d: "get_or (commit_meta_dict m) ''auto_commit_policy'' JNull = cm_auto_commit_policy m"
    "get_or (commit_meta_dict m) ''last_message_at'' (JStr []) = cm_last_message_at m"
    by (simp_all add: get_or_def commit_meta_dict_def)
  have w: "within_min_commit_interval env m (cm_auto_commit_policy m) now = Inr False"
    using assms by (simp add: within_min_commit_interval_def)
  show ?thesis
  proof (cases "cm_auto_commit_policy m = JNull")
    case True
    then show ?thesis by (simp add: should_run_auto_commit_def is_idle_policy_due_def d get_idle_timeout_seconds_def)
  next
    case False
    then show ?thesis unfolding should_run_auto_commit_def is_idle_policy_due_def Let_def d w bind_res.simps if_False
      by simp
  qed
qed

lemma concat_batches: "concat (batches n xs) = xs"
  by (induction n xs rule: batches.induct) (subst batches.simps, simp)

lemma read_batch_ok:
  "(\<And>p. p \<in> set ps \<Longrightarrow> \<exists>c. read_idle_candidate env read now p = Inr c) \<Longrightarrow>
     read_batch env read now ps = Inr (List.map_filter (\<lambda>p. case read_idle_candidate env read now p of Inr c \<Rightarrow> c | Inl _ \<Rightarrow> None) ps)"
proof (induction ps)
  case (Cons p ps)
  then obtain c where "read_idle_candidate env read now p = Inr c" by auto
  then show ?case using Cons by (auto simp: List.map_filter_simps split: option.splits)
qed (simp add: List.map_filter_simps)

lemma read_batch_mem:
  "read_batch env read now ps = Inr cs \<Longrightarrow> x \<in> set cs \<Longrightarrow> \<exists>p \<in> set ps. read_idle_candidate env read now p = Inr (Some x)"
  by (induction ps arbitrary: cs) (fastforce simp: bind_res_Inr_iff split: option.splits)+

lemma read_batch_error:
  "p \<in> set ps \<Longrightarrow> read_idle_candidate env read now p = Inl e \<Longrightarrow> \<exists>e. read_batch env read now ps = Inl e"
proof (induction ps)
  case (Cons q ps)
  show ?case
  proof (cases "read_idle_candidate env read now q")
    case (Inr c)
    then have "p \<in> set ps" using Cons.prems by auto
    with Cons Inr show ?thesis by auto
  qed auto
qed simp

definition identified :: "string \<times> string \<times> string \<Rightarrow> bool" where
  "identified x \<longleftrightarrow> (case mk_user_identifier (fst (snd x)) (snd (snd x)) of Inl _ \<Rightarrow> False | Inr _ \<Rightarrow> True)"

lemma schedule_due_mem: "x \<in> set (fst (schedule_due xs)) \<Longrightarrow> x \<in> set xs"
  by (induction xs) (auto split: sum.splits)

lemma scan_batches_error:
  assumes "p \<in> set (concat bs)" and "read_idle_candidate env read now p = Inl e" and "distinct (concat bs)"
  shows "snd (scan_batches env read now bs) \<noteq> None
    \<and> (\<forall>x \<in> set (fst (scan_batches env read now bs)).
          \<exists>q \<in> set (takeWhile (\<lambda>q. q \<noteq> p) (concat bs)). read_idle_candidate env read now q = Inr (Some x))"
  using assms(1,3)
proof (induction bs)
  case (Cons b bs)
  show ?case
  proof (cases "p \<in> set b")
    case True
    then obtain e' where "read_batch env read now b = Inl e'" using read_batch_error [OF True assms(2)] by blast
    then show ?thesis by simp
  next
    case False
    then have tw: "takeWhile (\<lambda>q. q \<noteq> p) (concat (b # bs)) = b @ takeWhile (\<lambda>q. q \<noteq> p) (concat bs)"
      by (simp, subst takeWhile_append2) auto
    from False Cons.prems have p: "p \<in> set (concat bs)" "distinct (concat bs)" by auto
    note ih = Cons.IH [OF p]
    show ?thesis
    proof (cases "read_batch env read now b")
      case (Inr due)
      have mem: "x \<in> set (fst (schedule_due due)) \<Longrightarrow> \<exists>q \<in> set b. read_idle_candidate env read now q = Inr (Some x)" for x
        by (rule read_batch_mem [OF Inr]) (rule schedule_due_mem)
      show ?thesis
      proof (cases "snd (schedule_due due)")
        case None
        with Inr have f: "fst (scan_batches env read now (b # bs)) = fst (schedule_due due) @ fst (scan_batches env read now bs)"
          "snd (scan_batches env read now (b # bs)) = snd (scan_batches env read now bs)" by simp_all
        show ?thesis unfolding f tw set_append using ih mem by blast
      next
        case (Some e)
        with Inr have f: "scan_batches env read now (b # bs) = schedule_due due" by simp
        show ?thesis unfolding f tw set_append using Some mem by blast
      qed
    qed simp
  qed
qed simp

lemma bad_policy_raises:
  assumes "read p = Inr body" and "loads body = Inr (JDict meta)" and "map_of meta (cps ''auto_commit_policy'') = Some (JDict policy)"
    and "extra_keys policy auto_commit_keys"
  shows "read_idle_candidate env read now p = Inl InvalidArgumentError"
  using assms
  by (simp add: read_idle_candidate_def is_idle_policy_due_def get_or_def get_idle_timeout_seconds_def resolve_policy_def
      auto_commit_from_dict_def)

lemma distinct_session_meta_paths: "distinct (session_meta_paths ls)"
  by (simp add: session_meta_paths_def dedupe_list_def distinct_add_new)

text \<open>one stored policy with an unknown field stops the idle commits of other sessions. If the metadata of one session can be read and its
  auto-commit policy is an object with an unknown key, every scan ends with an exception, and only sessions that are listed
  before it are handed to the scheduler, for every batch size and every content of the others.\<close>

lemma bad_policy_stops_scan:
  assumes "p \<in> set (session_meta_paths ls)" and "read p = Inr body" and "loads body = Inr (JDict meta)"
    and "map_of meta (cps ''auto_commit_policy'') = Some (JDict policy)" and "extra_keys policy auto_commit_keys"
  shows "snd (scan_once env read ls n now) \<noteq> None
    \<and> (\<forall>x \<in> set (fst (scan_once env read ls n now)).
         \<exists>q \<in> set (takeWhile (\<lambda>q. q \<noteq> p) (session_meta_paths ls)). read_idle_candidate env read now q = Inr (Some x))"
  unfolding scan_once_def
  using scan_batches_error [of p "batches n (session_meta_paths ls)" env read now, unfolded concat_batches,
      OF assms(1) bad_policy_raises [of read, OF assms(2-5)] distinct_session_meta_paths] .

section \<open>What a scan has to find\<close>

text \<open>The specification, without the scan: which sessions the storage lists, and which of them are idle. A session is idle
  when its policy has a positive idle time, it holds tokens or messages, and the idle time has passed since its last message.\<close>

definition lists_dir :: "(string \<Rightarrow> dir_entry list res) \<Rightarrow> string \<Rightarrow> string \<Rightarrow> bool" where
  "lists_dir ls path name \<longleftrightarrow>
     (\<exists>es e. ls path = Inr es \<and> e \<in> set es \<and> de_is_dir e \<and> py_strip (de_name e) = name \<and> name \<noteq> [])"

definition lists_session :: "(string \<Rightarrow> dir_entry list res) \<Rightarrow> string \<times> string \<times> string \<Rightarrow> bool" where
  "lists_session ls x \<longleftrightarrow> (case x of (s, a, u) \<Rightarrow>
     lists_dir ls ''/local'' a \<and> a \<noteq> ''_system'' \<and> lists_dir ls (''/local/'' @ a @ ''/user'') u
     \<and> lists_dir ls (''/local/'' @ a @ ''/user/'' @ u @ ''/sessions'') s)"

definition meta_path_of :: "string \<times> string \<times> string \<Rightarrow> string" where
  "meta_path_of x = (case x of (s, a, u) \<Rightarrow> ''/local/'' @ a @ ''/user/'' @ u @ ''/sessions/'' @ s @ ''/.meta.json'')"

definition idle_meta :: "date_env \<Rightarrow> (utext \<times> json) list \<Rightarrow> rat \<Rightarrow> bool" where
  "idle_meta env meta now \<longleftrightarrow>
     (\<exists>policy v n t base. map_of meta (cps ''auto_commit_policy'') = Some v \<and> v \<noteq> JNull \<and> resolve_policy v = Inr policy \<and> idle_timeout_seconds policy > 0
        \<and> coerce_non_negative_int (get_or meta ''pending_tokens'' (JInt 0)) = Inr n
        \<and> (n > 0 \<or> (\<exists>k > 0. coerce_non_negative_int (get_or meta ''message_count'' (JInt 0)) = Inr k))
        \<and> map_of meta (cps ''last_message_at'') = Some (JStr t) \<and> t \<noteq> [] \<and> parse_iso env t = Inr base
        \<and> base + of_int (idle_timeout_seconds policy) \<le> now)"

definition idle_session :: "date_env \<Rightarrow> (string \<Rightarrow> utext res) \<Rightarrow> rat \<Rightarrow> string \<times> string \<times> string \<Rightarrow> bool" where
  "idle_session env read now x \<longleftrightarrow>
     (\<exists>body meta. read (meta_path_of x) = Inr body \<and> loads body = Inr (JDict meta) \<and> idle_meta env meta now)"

text \<open>What the code relies on in \<open>datetime\<close>: the text written for a later instant is not empty and is read as that instant,
  unless the instant is out of range.\<close>

definition date_laws :: "date_env \<Rightarrow> bool" where
  "date_laws env \<longleftrightarrow>
     (\<forall>b n. case iso_after env b n of Inl e \<Rightarrow> e = OverflowError | Inr t \<Rightarrow> t \<noteq> [] \<and> parse_iso env t = Inr (b + of_int n))"


lemma get_or_JNull: "get_or m k JNull = v \<and> v \<noteq> JNull \<longleftrightarrow> map_of m (cps k) = Some v \<and> v \<noteq> JNull"
  by (auto simp: get_or_def split: option.splits)

lemma compute_next_check_at_iff:
  assumes "date_laws env" and "compute_next_check_at env v n \<noteq> Inl OverflowError"
  shows "(\<exists>t. compute_next_check_at env v n = Inr (Some t) \<and> t \<noteq> [] \<and> is_next_check_due env t now = Some True)
    \<longleftrightarrow> (\<exists>t base. v = JStr t \<and> t \<noteq> [] \<and> parse_iso env t = Inr base \<and> base + of_int n \<le> now)"
proof (cases "\<exists>t base. v = JStr t \<and> t \<noteq> [] \<and> parse_iso env t = Inr base")
  case True
  then obtain t base where v: "v = JStr t" "t \<noteq> []" "parse_iso env t = Inr base" by blast
  have law: "case iso_after env base n of Inl e \<Rightarrow> e = OverflowError | Inr t \<Rightarrow> t \<noteq> [] \<and> parse_iso env t = Inr (base + of_int n)"
    using assms(1) by (simp add: date_laws_def)
  show ?thesis
  proof (cases "iso_after env base n")
    case (Inl e)
    then show ?thesis using law v assms(2) by (simp add: compute_next_check_at_def)
  next
    case (Inr s)
    then show ?thesis using law v by (auto simp: compute_next_check_at_def is_next_check_due_def)
  qed
next
  case False
  then show ?thesis by (auto simp: compute_next_check_at_def split: json.splits sum.splits if_splits)
qed

lemma idle_content_iff:
  "has_idle_uncommitted_content meta = Inr True \<longleftrightarrow>
     (\<exists>n. coerce_non_negative_int (get_or meta ''pending_tokens'' (JInt 0)) = Inr n
        \<and> (n > 0 \<or> (\<exists>k > 0. coerce_non_negative_int (get_or meta ''message_count'' (JInt 0)) = Inr k)))"
  unfolding has_idle_uncommitted_content_def by (auto simp: bind_res_Inr_iff split: if_splits)

lemma idle_timeout_iff:
  "get_idle_timeout_seconds v = Inr (Some n) \<longleftrightarrow>
     v \<noteq> JNull \<and> (\<exists>p. resolve_policy v = Inr p \<and> idle_timeout_seconds p = n \<and> n > 0)"
  unfolding get_idle_timeout_seconds_def positive_or_none_def by (auto simp: bind_res_Inr_iff)

lemma idle_policy_due_iff:
  assumes "date_laws env" and "is_idle_policy_due env meta now \<noteq> Inl OverflowError"
  shows "is_idle_policy_due env meta now = Inr True \<longleftrightarrow> idle_meta env meta now"
proof (cases "\<exists>n. get_idle_timeout_seconds (get_or meta ''auto_commit_policy'' JNull) = Inr (Some n)
    \<and> has_idle_uncommitted_content meta = Inr True")
  case True
  then obtain n where n: "get_idle_timeout_seconds (get_or meta ''auto_commit_policy'' JNull) = Inr (Some n)"
    "has_idle_uncommitted_content meta = Inr True" by blast
  let ?v = "get_or meta ''last_message_at'' (JStr [])"
  from n have d: "is_idle_policy_due env meta now = bind_res (compute_next_check_at env ?v n) (\<lambda>check_at. case check_at of
      None \<Rightarrow> Inr False | Some t \<Rightarrow> Inr (t \<noteq> [] \<and> is_next_check_due env t now = Some True))"
    by (simp add: is_idle_policy_due_def)
  with assms(2) have "compute_next_check_at env ?v n \<noteq> Inl OverflowError" by auto
  note c = compute_next_check_at_iff [OF assms(1) this, of now]
  have "is_idle_policy_due env meta now = Inr True \<longleftrightarrow>
      (\<exists>t. compute_next_check_at env ?v n = Inr (Some t) \<and> t \<noteq> [] \<and> is_next_check_due env t now = Some True)"
    unfolding d by (auto simp: bind_res_Inr_iff split: option.splits)
  moreover have "(?v = JStr t \<and> t \<noteq> []) \<longleftrightarrow> (map_of meta (cps ''last_message_at'') = Some (JStr t) \<and> t \<noteq> [])" for t
    by (auto simp: get_or_def split: option.splits)
  moreover obtain v p where "map_of meta (cps ''auto_commit_policy'') = Some v" "v \<noteq> JNull" "resolve_policy v = Inr p"
    "idle_timeout_seconds p = n" "n > 0"
    using n(1) get_or_JNull [of meta "''auto_commit_policy''"] unfolding idle_timeout_iff by metis
  ultimately show ?thesis
    using n(2) unfolding c idle_meta_def idle_content_iff by auto
next
  case False
  have "is_idle_policy_due env meta now \<noteq> Inr True"
    using False unfolding is_idle_policy_due_def by (auto simp: bind_res_Inr_iff split: option.splits)
  moreover have "\<not> idle_meta env meta now"
  proof
    assume "idle_meta env meta now"
    then obtain policy v where "map_of meta (cps ''auto_commit_policy'') = Some v" "v \<noteq> JNull" "resolve_policy v = Inr policy"
      "idle_timeout_seconds policy > 0" "has_idle_uncommitted_content meta = Inr True"
      unfolding idle_meta_def idle_content_iff by blast
    then show False using False unfolding idle_timeout_iff by (auto simp: get_or_def)
  qed
  ultimately show ?thesis by simp
qed

lemma endswith_append: "endswith (p @ q) q"
  by (simp add: endswith_def)

lemma entry_names_iff: "n \<in> set (entry_names ls path) \<longleftrightarrow> lists_dir ls path n"
  by (cases "ls path") (auto simp: entry_names_def lists_dir_def)

lemma session_meta_paths_iff: "p \<in> set (session_meta_paths ls) \<longleftrightarrow> (\<exists>x. lists_session ls x \<and> p = meta_path_of x)"
proof -
  define U where "U a = ''/local/'' @ a @ ''/user''" for a :: string
  define R where "R a u = ''/local/'' @ a @ ''/user/'' @ u @ ''/sessions''" for a u :: string
  have session: "lists_session ls (s, a, u) \<longleftrightarrow> lists_dir ls ''/local'' a \<and> a \<noteq> ''_system'' \<and> lists_dir ls (U a) u \<and> lists_dir ls (R a u) s" for s a u
    unfolding lists_session_def prod.case U_def R_def ..
  have path: "meta_path_of (s, a, u) = R a u @ ''/'' @ s @ SESSION_META_SUFFIX" for s a u
    by (simp add: meta_path_of_def R_def SESSION_META_SUFFIX_def)
  have "session_meta_paths ls = dedupe_list (concat (map (\<lambda>a. concat (map (\<lambda>u. map (\<lambda>s. meta_path_of (s, a, u)) (entry_names ls (R a u)))
      (entry_names ls (U a)))) (filter (\<lambda>a. a \<noteq> ''_system'') (entry_names ls ''/local''))))"
    unfolding session_meta_paths_def Let_def path U_def R_def ..
  then have mem: "set (session_meta_paths ls) = (\<Union>a \<in> {a. lists_dir ls ''/local'' a \<and> a \<noteq> ''_system''}. \<Union>u \<in> {u. lists_dir ls (U a) u}.
      (\<lambda>s. meta_path_of (s, a, u)) ` {s. lists_dir ls (R a u) s})"
    by (simp add: entry_names_iff [symmetric])
  show ?thesis
  proof
    assume "p \<in> set (session_meta_paths ls)"
    then show "\<exists>x. lists_session ls x \<and> p = meta_path_of x" unfolding mem by (auto simp: session)
  next
    assume "\<exists>x. lists_session ls x \<and> p = meta_path_of x"
    then obtain s a u where x: "lists_session ls (s, a, u)" "p = meta_path_of (s, a, u)" by (metis prod_cases3)
    then show "p \<in> set (session_meta_paths ls)"
      unfolding mem x(2) by (intro UN_I [of a] UN_I [of u] imageI) (simp_all add: session)
  qed
qed

text \<open>Names of directory entries hold no separator, as every file system has it.\<close>

definition names_plain :: "(string \<Rightarrow> dir_entry list res) \<Rightarrow> bool" where
  "names_plain ls \<longleftrightarrow> (\<forall>path es. ls path = Inr es \<longrightarrow> (\<forall>e \<in> set es. CHR ''/'' \<notin> set (de_name e)))"

lemma lists_dir_plain: "names_plain ls \<Longrightarrow> lists_dir ls path n \<Longrightarrow> n \<noteq> [] \<and> CHR ''/'' \<notin> set n"
  using set_strip_by [of is_space] by (fastforce simp: names_plain_def lists_dir_def py_strip_def)

lemma lists_session_plain:
  assumes "names_plain ls" and "lists_session ls (s, a, u)"
  shows "a \<noteq> [] \<and> CHR ''/'' \<notin> set a" and "u \<noteq> [] \<and> CHR ''/'' \<notin> set u" and "s \<noteq> [] \<and> CHR ''/'' \<notin> set s"
  using assms(2) unfolding lists_session_def prod.case by (blast dest: lists_dir_plain [OF assms(1)])+

lemma meta_path_parts:
  assumes "names_plain ls" and "lists_session ls (s, a, u)"
  shows "path_parts (meta_path_of (s, a, u)) = [''local'', a, ''user'', u, ''sessions'', s, ''.meta.json'']"
proof -
  note n = lists_session_plain [OF assms]
  have "meta_path_of (s, a, u) = join_with ''/'' ['''', ''local'', a, ''user'', u, ''sessions'', s, ''.meta.json'']"
    by (simp add: meta_path_of_def)
  moreover have "split_on (CHR ''/'') (join_with ''/'' ['''', ''local'', a, ''user'', u, ''sessions'', s, ''.meta.json''])
      = ['''', ''local'', a, ''user'', u, ''sessions'', s, ''.meta.json'']"
    using n by (intro split_on_join_with) auto
  ultimately show ?thesis using n by (simp add: path_parts_def)
qed

lemma meta_path_ids:
  assumes "names_plain ls" and "lists_session ls (s, a, u)"
  shows "session_id_from_meta_path (meta_path_of (s, a, u)) = s \<and> account_id_from_meta_path (meta_path_of (s, a, u)) = a
    \<and> user_id_from_meta_path (meta_path_of (s, a, u)) = u"
proof -
  have "meta_path_of (s, a, u) = (''/local/'' @ a @ ''/user/'' @ u @ ''/sessions/'' @ s) @ SESSION_META_SUFFIX"
    by (simp add: meta_path_of_def SESSION_META_SUFFIX_def)
  then have "endswith (meta_path_of (s, a, u)) SESSION_META_SUFFIX" by (simp only: endswith_append)
  then show ?thesis
    unfolding session_id_from_meta_path_def account_id_from_meta_path_def user_id_from_meta_path_def meta_path_parts [OF assms] is_session_path_def
    by simp
qed

lemma candidate_iff:
  assumes "names_plain ls" and "date_laws env" and "lists_session ls x" and "read_idle_candidate env read now (meta_path_of x) = Inr c"
  shows "c = (if idle_session env read now x then Some x else None)"
proof -
  obtain s a u where x: "x = (s, a, u)" by (cases x)
  have ids: "session_id_from_meta_path (meta_path_of x) = s" "account_id_from_meta_path (meta_path_of x) = a" "user_id_from_meta_path (meta_path_of x) = u"
    and ne: "s \<noteq> []" "a \<noteq> []" "u \<noteq> []"
    using meta_path_ids [OF assms(1) assms(3) [unfolded x]] lists_session_plain [OF assms(1) assms(3) [unfolded x]] by (simp_all add: x)
  show ?thesis
  proof (cases "\<exists>body meta. read (meta_path_of x) = Inr body \<and> loads body = Inr (JDict meta)")
    case True
    then obtain body meta where m: "read (meta_path_of x) = Inr body" "loads body = Inr (JDict meta)" by blast
    then have r: "bind_res (or_else (is_idle_policy_due env meta now) False) (\<lambda>due. Inr (if \<not> due then None else Some (s, a, u))) = Inr c"
      using assms(4) ne unfolding read_idle_candidate_def ids by (simp add: Let_def)
    then have "is_idle_policy_due env meta now \<noteq> Inl OverflowError" by auto
    from idle_policy_due_iff [OF assms(2) this] r m show ?thesis
      by (auto simp: x idle_session_def bind_res_Inr_iff or_else_Inr_iff)
  next
    case False
    then have "c = None" using assms(4) by (auto simp: read_idle_candidate_def bind_res_Inr_iff split: sum.splits json.splits)
    with False show ?thesis by (auto simp: idle_session_def)
  qed
qed

lemma set_map_filter: "x \<in> set (List.map_filter f ps) \<longleftrightarrow> (\<exists>p \<in> set ps. f p = Some x)"
  by (induction ps) (auto simp: List.map_filter_simps split: option.splits)

abbreviation candidate :: "date_env \<Rightarrow> (string \<Rightarrow> utext res) \<Rightarrow> rat \<Rightarrow> string \<Rightarrow> (string \<times> string \<times> string) option" where
  "candidate env read now p \<equiv> (case read_idle_candidate env read now p of Inr c \<Rightarrow> c | Inl _ \<Rightarrow> None)"

lemma read_batch_raises:
  "\<not> (\<forall>p \<in> set ps. \<exists>c. read_idle_candidate env read now p = Inr c) \<Longrightarrow> \<exists>e. read_batch env read now ps = Inl e"
  using read_batch_error by (metis sum.exhaust)

lemma schedule_due_cases: "prefix (fst (schedule_due xs)) xs \<and> (snd (schedule_due xs) = None \<longleftrightarrow> list_all identified xs)
    \<and> (list_all identified xs \<longrightarrow> fst (schedule_due xs) = xs)"
  by (induction xs) (auto simp: identified_def split: sum.splits)

lemma scan_batches_cases:
  "prefix (fst (scan_batches env read now bs)) (List.map_filter (candidate env read now) (concat bs))
   \<and> (snd (scan_batches env read now bs) = None \<longleftrightarrow>
        (\<forall>p \<in> set (concat bs). \<exists>c. read_idle_candidate env read now p = Inr c \<and> (\<forall>x. c = Some x \<longrightarrow> identified x)))
   \<and> (snd (scan_batches env read now bs) = None \<longrightarrow>
        fst (scan_batches env read now bs) = List.map_filter (candidate env read now) (concat bs))"
proof (induction bs)
  case (Cons b bs)
  let ?F = "List.map_filter (candidate env read now)"
  have app: "?F (concat (b # bs)) = ?F b @ ?F (concat bs)" by (simp add: List.map_filter_def)
  show ?case
  proof (cases "\<forall>p \<in> set b. \<exists>c. read_idle_candidate env read now p = Inr c")
    case True
    then have r: "read_batch env read now b = Inr (?F b)" by (intro read_batch_ok) blast
    note sd = schedule_due_cases [of "?F b"]
    have all: "list_all identified (?F b) \<longleftrightarrow>
        (\<forall>p \<in> set b. \<exists>c. read_idle_candidate env read now p = Inr c \<and> (\<forall>x. c = Some x \<longrightarrow> identified x))"
      using True by (fastforce simp: list_all_iff set_map_filter split: sum.splits)
    show ?thesis
    proof (cases "list_all identified (?F b)")
      case True
      then have "scan_batches env read now (b # bs) = (?F b @ fst (scan_batches env read now bs), snd (scan_batches env read now bs))"
        using r sd by simp
      then show ?thesis using Cons.IH all True unfolding app by auto
    next
      case False
      then have eq: "scan_batches env read now (b # bs) = schedule_due (?F b)" using r sd by simp
      moreover have "snd (schedule_due (?F b)) \<noteq> None" using False sd by blast
      moreover have "prefix (fst (schedule_due (?F b))) (?F b @ ?F (concat bs))" using sd by (simp add: prefix_prefix)
      ultimately show ?thesis using all False unfolding app eq unfolding concat.simps set_append by blast
    qed
  next
    case False
    then obtain e where "read_batch env read now b = Inl e" using read_batch_raises by blast
    then have "scan_batches env read now (b # bs) = ([], Some e)" by simp
    then show ?thesis using False by auto
  qed
qed (simp add: List.map_filter_def)

lemma map_filter_paths:
  assumes "\<And>p x. p \<in> set ps \<Longrightarrow> f p = Some x \<Longrightarrow> g x = p"
  shows "subseq (map g (List.map_filter f ps)) ps"
  using assms
proof (induction ps)
  case (Cons p ps)
  then have "subseq (map g (List.map_filter f ps)) ps" by simp
  with Cons.prems [of p] show ?case by (cases "f p") (auto simp: List.map_filter_simps)
qed (simp add: List.map_filter_def)

text \<open>C40: otherwise the scan is exact. The dates obey the laws above and the names of directory entries hold no separator. Whatever the batch
  size, a scan hands over only sessions that the storage lists and that are idle, no session twice, and in the order of the listing. It ends without
  an exception exactly if no listed session raises and the directories of the idle ones name identities, and then it has handed over every listed idle session.\<close>

theorem idle_scan_exact:
  assumes "date_laws env" and "names_plain ls" and "scan_once env read ls n now = (xs, err)"
  shows "distinct xs \<and> subseq (map meta_path_of xs) (session_meta_paths ls)
    \<and> (\<forall>x \<in> set xs. lists_session ls x \<and> idle_session env read now x)
    \<and> (err = None \<longleftrightarrow> (\<forall>x. lists_session ls x \<longrightarrow>
          (\<exists>c. read_idle_candidate env read now (meta_path_of x) = Inr c) \<and> (idle_session env read now x \<longrightarrow> identified x)))
    \<and> (err = None \<longrightarrow> (\<forall>x. lists_session ls x \<and> idle_session env read now x \<longrightarrow> x \<in> set xs))"
proof -
  let ?ps = "session_meta_paths ls" and ?f = "candidate env read now"
  let ?F = "List.map_filter ?f ?ps"
  have f: "?f p = Some x \<longleftrightarrow> (\<exists>c. read_idle_candidate env read now p = Inr c) \<and> p = meta_path_of x \<and> lists_session ls x \<and> idle_session env read now x"
    if "p \<in> set ?ps" for p x
  proof -
    from that obtain y where y: "lists_session ls y" "p = meta_path_of y" unfolding session_meta_paths_iff by blast
    have inj: "x = y" if "lists_session ls x" "meta_path_of x = meta_path_of y"
    proof -
      obtain s a u s' a' u' where xy: "x = (s, a, u)" "y = (s', a', u')" by (metis prod_cases3)
      show ?thesis
        using meta_path_ids [OF assms(2) that(1) [unfolded xy], unfolded that(2) [unfolded xy]] meta_path_ids [OF assms(2) y(1) [unfolded xy]]
        by (simp add: xy)
    qed
    show ?thesis
    proof (cases "read_idle_candidate env read now p")
      case (Inr c)
      have c: "c = (if idle_session env read now y then Some y else None)"
        using candidate_iff [OF assms(2,1) y(1)] Inr unfolding y(2) .
      have e: "?f p = c" using Inr by simp
      show ?thesis
      proof (cases "x = y")
        case True
        then show ?thesis unfolding e c using y Inr by simp
      next
        case False
        then have "\<not> (p = meta_path_of x \<and> lists_session ls x)" using inj y(2) by blast
        with False show ?thesis unfolding e c by auto
      qed
    qed simp
  qed
  note sc = scan_batches_cases [of env read now "batches n ?ps", unfolded concat_batches]
  have xs: "xs = fst (scan_once env read ls n now)" "err = snd (scan_once env read ls n now)" using assms(3) by simp_all
  have pre: "prefix xs ?F" and none: "err = None \<longleftrightarrow> (\<forall>p \<in> set ?ps. \<exists>c. read_idle_candidate env read now p = Inr c \<and> (\<forall>x. c = Some x \<longrightarrow> identified x))"
    and full: "err = None \<Longrightarrow> xs = ?F"
    using sc unfolding xs scan_once_def by blast+
  have sub: "subseq (map meta_path_of ?F) ?ps" by (intro map_filter_paths) (simp add: f)
  moreover have "subseq (map meta_path_of xs) (map meta_path_of ?F)" using pre by (simp add: subseq_map prefix_imp_subseq)
  ultimately have order: "subseq (map meta_path_of xs) ?ps" by (metis subseq_order.trans)
  then have "distinct (map meta_path_of xs)" using distinct_session_meta_paths by (metis distinct_filter subseq_conv_nths distinct_nthsI)
  then have dist: "distinct xs" by (simp add: distinct_map)
  note F = set_map_filter [of _ ?f ?ps]
  have mem: "lists_session ls x \<and> idle_session env read now x" if "x \<in> set xs" for x
  proof -
    have "x \<in> set ?F" using that set_mono_prefix [OF pre] by auto
    then obtain p where "p \<in> set ?ps" "?f p = Some x" unfolding F ..
    then show ?thesis using f [of p x] by simp
  qed
  have all: "x \<in> set xs" if "err = None" "lists_session ls x" "idle_session env read now x" for x
  proof -
    have p: "meta_path_of x \<in> set ?ps" using that(2) unfolding session_meta_paths_iff by blast
    then have "\<exists>c. read_idle_candidate env read now (meta_path_of x) = Inr c" using none that(1) by blast
    then have "?f (meta_path_of x) = Some x" using f [OF p, of x] that(2,3) by simp
    then show ?thesis unfolding full [OF that(1)] F using p by blast
  qed
  have one: "(\<exists>c. read_idle_candidate env read now (meta_path_of x) = Inr c \<and> (\<forall>y. c = Some y \<longrightarrow> identified y)) \<longleftrightarrow>
      (\<exists>c. read_idle_candidate env read now (meta_path_of x) = Inr c) \<and> (idle_session env read now x \<longrightarrow> identified x)"
    if "lists_session ls x" for x
  proof (cases "read_idle_candidate env read now (meta_path_of x)")
    case (Inr c)
    from candidate_iff [OF assms(2,1) that Inr] show ?thesis unfolding Inr by (cases x) auto
  qed simp
  have "(\<forall>p \<in> set ?ps. \<exists>c. read_idle_candidate env read now p = Inr c \<and> (\<forall>x. c = Some x \<longrightarrow> identified x)) \<longleftrightarrow>
     (\<forall>x. lists_session ls x \<longrightarrow> (\<exists>c. read_idle_candidate env read now (meta_path_of x) = Inr c) \<and> (idle_session env read now x \<longrightarrow> identified x))"
    unfolding Ball_def session_meta_paths_iff using one by blast
  with none have "err = None \<longleftrightarrow> (\<forall>x. lists_session ls x \<longrightarrow>
      (\<exists>c. read_idle_candidate env read now (meta_path_of x) = Inr c) \<and> (idle_session env read now x \<longrightarrow> identified x))" by (rule trans)
  moreover have "\<forall>x \<in> set xs. lists_session ls x \<and> idle_session env read now x" using mem by (rule ballI)
  moreover have "err = None \<longrightarrow> (\<forall>x. lists_session ls x \<and> idle_session env read now x \<longrightarrow> x \<in> set xs)" using all by simp
  ultimately show ?thesis using dist order by (intro conjI)
qed

section \<open>A concrete scan\<close>

text \<open>Timestamps that count seconds by their length.\<close>

definition demo_dates :: date_env where
  "demo_dates = \<lparr>parse_iso = (\<lambda>t. Inr (of_nat (length t))),
     iso_after = (\<lambda>b n. if b = of_int \<lfloor>b\<rfloor> \<and> \<lfloor>b\<rfloor> + n > 0 then Inr (replicate (nat (\<lfloor>b\<rfloor> + n)) 48) else Inl OverflowError)\<rparr>"

lemma demo_dates_laws: "date_laws demo_dates"
proof -
  have "rat_of_nat (nat (\<lfloor>b\<rfloor> + n)) = b + of_int n" if "b = of_int \<lfloor>b\<rfloor>" "\<lfloor>b\<rfloor> + n > 0" for b :: rat and n
  proof -
    have "rat_of_nat (nat (\<lfloor>b\<rfloor> + n)) = of_int (\<lfloor>b\<rfloor> + n)" using that(2) by simp
    then show ?thesis using that(1) by simp
  qed
  then show ?thesis by (auto simp: date_laws_def demo_dates_def)
qed

definition demo_ls :: "string \<Rightarrow> dir_entry list res" where
  "demo_ls p =
     (if p = ''/local'' then Inr [\<lparr>de_name = ''acme'', de_is_dir = True\<rparr>]
      else if p = ''/local/acme/user'' then Inr [\<lparr>de_name = ''u'', de_is_dir = True\<rparr>]
      else if p = ''/local/acme/user/u/sessions'' then Inr [\<lparr>de_name = ''s'', de_is_dir = True\<rparr>, \<lparr>de_name = '' s'', de_is_dir = True\<rparr>]
      else Inl StoreError)"

lemma demo_names_plain: "names_plain demo_ls"
  by (auto simp: names_plain_def demo_ls_def split: if_splits)

lemma lists_dir_eval:
  "ls path = Inr es \<Longrightarrow> lists_dir ls path n \<longleftrightarrow> n \<noteq> [] \<and> n \<in> set (map (\<lambda>e. py_strip (de_name e)) (filter de_is_dir es))"
  by (auto simp: lists_dir_def)

lemma demo_lists: "lists_session demo_ls x \<longleftrightarrow> x = (''s'', ''acme'', ''u'')"
proof -
  have strip: "py_strip ''acme'' = ''acme''" "py_strip ''u'' = ''u''" "py_strip ''s'' = ''s''" "py_strip '' s'' = ''s''" by code_simp+
  have ls: "demo_ls ''/local'' = Inr [\<lparr>de_name = ''acme'', de_is_dir = True\<rparr>]"
    "demo_ls ''/local/acme/user'' = Inr [\<lparr>de_name = ''u'', de_is_dir = True\<rparr>]"
    "demo_ls ''/local/acme/user/u/sessions'' = Inr [\<lparr>de_name = ''s'', de_is_dir = True\<rparr>, \<lparr>de_name = '' s'', de_is_dir = True\<rparr>]"
    by (simp_all add: demo_ls_def)
  have a: "lists_dir demo_ls ''/local'' n \<longleftrightarrow> n = ''acme''"
    "lists_dir demo_ls ''/local/acme/user'' n \<longleftrightarrow> n = ''u''"
    "lists_dir demo_ls ''/local/acme/user/u/sessions'' n \<longleftrightarrow> n = ''s''" for n
    unfolding lists_dir_eval [where ls = demo_ls, OF ls(1)] lists_dir_eval [where ls = demo_ls, OF ls(2)] lists_dir_eval [where ls = demo_ls, OF ls(3)] by (auto simp: strip)
  show ?thesis
  proof
    assume "lists_session demo_ls x"
    then obtain s c u where x: "x = (s, c, u)" "lists_dir demo_ls ''/local'' c"
      "lists_dir demo_ls (''/local/'' @ c @ ''/user'') u" "lists_dir demo_ls (''/local/'' @ c @ ''/user/'' @ u @ ''/sessions'') s"
      by (cases x) (auto simp only: lists_session_def prod.case)
    then have "c = ''acme''" using a(1) by blast
    moreover from this have "u = ''u''" using x(3) a(2) by simp
    ultimately show "x = (''s'', ''acme'', ''u'')" using x(1,4) a(3) by simp
  next
    assume "x = (''s'', ''acme'', ''u'')"
    then show "lists_session demo_ls x" using a by (simp add: lists_session_def)
  qed
qed

definition demo_due :: "(utext \<times> json) list" where
  "demo_due = [(cps ''auto_commit_policy'', JDict []), (cps ''message_count'', JInt 3), (cps ''last_message_at'', JStr [50])]"

lemma demo_due_now: "is_idle_policy_due demo_dates demo_due 100000 = Inr True"
  by (simp add: is_idle_policy_due_def demo_due_def get_or_def get_idle_timeout_seconds_def resolve_policy_def auto_commit_from_dict_def
      extra_keys_def coerce_int_def auto_commit_constants positive_or_none_def has_idle_uncommitted_content_def
      coerce_non_negative_int_def compute_next_check_at_def is_next_check_due_def demo_dates_def)

text \<open>Two directories whose names differ only in outer space are one session, and it is handed over once.\<close>

theorem idle_scan_exact_witness:
  "scan_once demo_dates (\<lambda>_. Inr (dumps (JDict demo_due))) demo_ls 16 100000 = ([(''s'', ''acme'', ''u'')], None)"
proof -
  let ?read = "\<lambda>_. Inr (dumps (JDict demo_due))" and ?x = "(''s'', ''acme'', ''u'')"
  have l: "loads (dumps (JDict demo_due)) = Inr (JDict demo_due)"
    by (rule loads_dumps_wf) (simp add: demo_due_def)
  have "is_idle_policy_due demo_dates demo_due 100000 \<noteq> Inl OverflowError" by (simp add: demo_due_now)
  from idle_policy_due_iff [OF demo_dates_laws this] l have idle: "idle_session demo_dates ?read 100000 ?x"
    by (simp add: demo_due_now idle_session_def)
  have u: "identified ?x" by code_simp
  have c: "\<exists>c. read_idle_candidate demo_dates ?read 100000 (meta_path_of ?x) = Inr c"
    unfolding read_idle_candidate_def bind_res.simps l sum.case json.case demo_due_now or_else.simps Let_def by (rule exI, rule refl)
  obtain xs err where s: "scan_once demo_dates ?read demo_ls 16 100000 = (xs, err)" by force
  note r = idle_scan_exact [OF demo_dates_laws demo_names_plain s]
  then have e: "err = None" using c u by (simp add: demo_lists)
  have d: "distinct xs" using r by blast
  have sub: "set xs \<subseteq> {?x}" using r unfolding demo_lists by blast
  have "?x \<in> set xs" using r e idle unfolding demo_lists by blast
  with sub have m: "set xs = {?x}" by blast
  have "length xs = 1" using distinct_card [OF d] unfolding m by simp
  then obtain y where "xs = [y]" by (cases xs) auto
  with m have "xs = [?x]" by simp
  then show ?thesis using s e by simp
qed

end
