(* ===== verification/Request_Wait.thy ===== *)
theory Request_Wait
  imports Message
begin

text \<open>
  Request-scoped waiting for queue work, \<open>openviking/telemetry/request_wait_tracker.py\<close>: per telemetry id, the roots that are
  still pending in the semantic and the embedding queue and the counters of what was processed. Every method holds
  the lock for its whole body, so each is one atomic step; \<open>wait_op\<close> is a call and a history is a list of calls. The clock
  readings of \<open>wait_for_request\<close> are an argument.
\<close>

section \<open>State and operations\<close>

record wait_state =
  pending_semantic_roots :: "string set"
  pending_embedding_roots :: "string set"
  semantic_processed :: int
  semantic_requeue_count :: int
  semantic_error_count :: int
  semantic_errors :: "utext list"
  embedding_processed :: int
  embedding_context_count :: int
  embedding_requeue_count :: int
  embedding_error_count :: int
  embedding_errors :: "utext list"
  wait_created_at :: rat

definition new_wait_state :: "rat \<Rightarrow> wait_state" where
  "new_wait_state now =
     \<lparr>pending_semantic_roots = {}, pending_embedding_roots = {}, semantic_processed = 0, semantic_requeue_count = 0,
      semantic_error_count = 0, semantic_errors = [], embedding_processed = 0, embedding_context_count = 0,
      embedding_requeue_count = 0, embedding_error_count = 0, embedding_errors = [], wait_created_at = now\<rparr>"

type_synonym wait_tracker = "(string \<times> wait_state) list"

definition register_request :: "rat \<Rightarrow> string \<Rightarrow> wait_tracker \<Rightarrow> wait_tracker" where
  "register_request now tid st =
     (if tid = [] then st
      else case map_of st tid of Some _ \<Rightarrow> st | None \<Rightarrow> st @ [(tid, new_wait_state now)])"

text \<open>The guard that every other method has: nothing happens without a telemetry id or a registered state.\<close>

definition with_state :: "string \<Rightarrow> (wait_state \<Rightarrow> wait_state) \<Rightarrow> wait_tracker \<Rightarrow> wait_tracker" where
  "with_state tid f st =
     (if tid = [] then st
      else case map_of st tid of None \<Rightarrow> st | Some s \<Rightarrow> AList.update tid (f s) st)"

definition register_semantic_root :: "string \<Rightarrow> string \<Rightarrow> wait_tracker \<Rightarrow> wait_tracker" where
  "register_semantic_root tid root_id st =
     (if root_id = [] then st
      else with_state tid (\<lambda>s. s\<lparr>pending_semantic_roots := insert root_id (pending_semantic_roots s)\<rparr>) st)"

definition register_embedding_root :: "string \<Rightarrow> string \<Rightarrow> wait_tracker \<Rightarrow> wait_tracker" where
  "register_embedding_root tid root_id st =
     (if root_id = [] then st
      else with_state tid (\<lambda>s. s\<lparr>pending_embedding_roots := insert root_id (pending_embedding_roots s)\<rparr>) st)"

definition record_embedding_requeue :: "string \<Rightarrow> int \<Rightarrow> wait_tracker \<Rightarrow> wait_tracker" where
  "record_embedding_requeue tid delta st =
     with_state tid (\<lambda>s. s\<lparr>embedding_requeue_count := embedding_requeue_count s + max delta 0\<rparr>) st"

definition record_semantic_requeue :: "string \<Rightarrow> int \<Rightarrow> wait_tracker \<Rightarrow> wait_tracker" where
  "record_semantic_requeue tid delta st =
     with_state tid (\<lambda>s. s\<lparr>semantic_requeue_count := semantic_requeue_count s + max delta 0\<rparr>) st"

definition get_embedding_context_count :: "string \<Rightarrow> wait_tracker \<Rightarrow> int" where
  "get_embedding_context_count tid st =
     (if tid = [] then 0 else case map_of st tid of None \<Rightarrow> 0 | Some s \<Rightarrow> embedding_context_count s)"

definition mark_semantic_done :: "string \<Rightarrow> string \<Rightarrow> int \<Rightarrow> wait_tracker \<Rightarrow> wait_tracker" where
  "mark_semantic_done tid root_id delta st =
     with_state tid (\<lambda>s. s\<lparr>pending_semantic_roots := pending_semantic_roots s - {root_id},
                           semantic_processed := semantic_processed s + max delta 0\<rparr>) st"

definition mark_semantic_failed :: "string \<Rightarrow> string \<Rightarrow> utext \<Rightarrow> wait_tracker \<Rightarrow> wait_tracker" where
  "mark_semantic_failed tid root_id msg st =
     with_state tid (\<lambda>s. s\<lparr>pending_semantic_roots := pending_semantic_roots s - {root_id},
                           semantic_error_count := semantic_error_count s + 1,
                           semantic_errors := semantic_errors s @ (if msg \<noteq> [] then [msg] else [])\<rparr>) st"

definition mark_embedding_done :: "string \<Rightarrow> string \<Rightarrow> int \<Rightarrow> bool \<Rightarrow> wait_tracker \<Rightarrow> wait_tracker" where
  "mark_embedding_done tid root_id delta vector_written st =
     with_state tid (\<lambda>s.
       let was_pending = root_id \<in> pending_embedding_roots s
       in s\<lparr>pending_embedding_roots := pending_embedding_roots s - {root_id},
            embedding_processed := embedding_processed s + max delta 0,
            embedding_context_count := embedding_context_count s + (if vector_written \<and> was_pending then 1 else 0)\<rparr>) st"

definition mark_embedding_failed :: "string \<Rightarrow> string \<Rightarrow> utext \<Rightarrow> wait_tracker \<Rightarrow> wait_tracker" where
  "mark_embedding_failed tid root_id msg st =
     with_state tid (\<lambda>s. s\<lparr>pending_embedding_roots := pending_embedding_roots s - {root_id},
                           embedding_error_count := embedding_error_count s + 1,
                           embedding_errors := embedding_errors s @ (if msg \<noteq> [] then [msg] else [])\<rparr>) st"

definition is_complete :: "string \<Rightarrow> wait_tracker \<Rightarrow> bool" where
  "is_complete tid st =
     (if tid = [] then True
      else case map_of st tid of
          None \<Rightarrow> True
        | Some s \<Rightarrow> pending_semantic_roots s = {} \<and> pending_embedding_roots s = {})"

definition cleanup_request :: "string \<Rightarrow> wait_tracker \<Rightarrow> wait_tracker" where
  "cleanup_request tid st = (if tid = [] then st else AList.delete tid st)"

record queue_status =
  qs_processed :: int
  qs_requeue_count :: int
  qs_error_count :: int
  qs_errors :: "utext list"

definition build_queue_status :: "string \<Rightarrow> wait_tracker \<Rightarrow> queue_status \<times> queue_status" where
  "build_queue_status tid st =
     (let s = (case map_of st tid of Some s \<Rightarrow> s | None \<Rightarrow> new_wait_state 0)
      in (\<lparr>qs_processed = semantic_processed s, qs_requeue_count = semantic_requeue_count s,
            qs_error_count = semantic_error_count s, qs_errors = semantic_errors s\<rparr>,
          \<lparr>qs_processed = embedding_processed s, qs_requeue_count = embedding_requeue_count s,
            qs_error_count = embedding_error_count s, qs_errors = embedding_errors s\<rparr>))"

section \<open>Histories of calls\<close>

datatype wait_op =
    RegisterRequest rat string
  | RegisterSemantic string string
  | RegisterEmbedding string string
  | SemanticDone string string int
  | SemanticFailed string string utext
  | EmbeddingDone string string int bool
  | EmbeddingFailed string string utext
  | SemanticRequeue string int
  | EmbeddingRequeue string int
  | Cleanup string

fun apply_wait :: "wait_op \<Rightarrow> wait_tracker \<Rightarrow> wait_tracker" where
  "apply_wait (RegisterRequest now tid) st = register_request now tid st"
| "apply_wait (RegisterSemantic tid r) st = register_semantic_root tid r st"
| "apply_wait (RegisterEmbedding tid r) st = register_embedding_root tid r st"
| "apply_wait (SemanticDone tid r d) st = mark_semantic_done tid r d st"
| "apply_wait (SemanticFailed tid r m) st = mark_semantic_failed tid r m st"
| "apply_wait (EmbeddingDone tid r d v) st = mark_embedding_done tid r d v st"
| "apply_wait (EmbeddingFailed tid r m) st = mark_embedding_failed tid r m st"
| "apply_wait (SemanticRequeue tid d) st = record_semantic_requeue tid d st"
| "apply_wait (EmbeddingRequeue tid d) st = record_embedding_requeue tid d st"
| "apply_wait (Cleanup tid) st = cleanup_request tid st"

text \<open>The state after a history whose latest call comes first.\<close>

fun after :: "wait_op list \<Rightarrow> wait_tracker" where
  "after [] = []"
| "after (x # earlier) = apply_wait x (after earlier)"

text \<open>Waiting polls: the \<open>n\<close>-th check sees the state \<open>states n\<close> at the time \<open>clock n\<close>.\<close>

partial_function (option) wait_from ::
  "string \<Rightarrow> rat option \<Rightarrow> rat \<Rightarrow> (nat \<Rightarrow> wait_tracker) \<Rightarrow> (nat \<Rightarrow> rat) \<Rightarrow> nat \<Rightarrow> unit res option" where
  "wait_from tid timeout start states clock n =
     (if is_complete tid (states n) then Some (Inr ())
      else if (case timeout of None \<Rightarrow> False | Some t \<Rightarrow> clock n - start > t) then Some (Inl TimeoutError)
      else wait_from tid timeout start states clock (Suc n))"

definition wait_for_request ::
  "string \<Rightarrow> rat option \<Rightarrow> rat \<Rightarrow> (nat \<Rightarrow> wait_tracker) \<Rightarrow> (nat \<Rightarrow> rat) \<Rightarrow> unit res option" where
  "wait_for_request tid timeout start states clock =
     (if tid = [] then Some (Inr ()) else wait_from tid timeout start states clock 0)"

section \<open>What a history means\<close>

text \<open>Read from the latest call back: is the request registered, is a root of it still open, how many roots were
  indexed, and how many were announced since the request was registered.\<close>

fun live_request :: "string \<Rightarrow> wait_op list \<Rightarrow> bool" where
  "live_request tid [] = False"
| "live_request tid (x # earlier) =
     (case x of
        RegisterRequest _ t \<Rightarrow> t = tid \<and> tid \<noteq> [] \<or> live_request tid earlier
      | Cleanup t \<Rightarrow> t \<noteq> tid \<and> live_request tid earlier
      | _ \<Rightarrow> live_request tid earlier)"

fun open_semantic :: "string \<Rightarrow> string \<Rightarrow> wait_op list \<Rightarrow> bool" where
  "open_semantic tid r [] = False"
| "open_semantic tid r (x # earlier) =
     (case x of
        RegisterSemantic t q \<Rightarrow> t = tid \<and> q = r \<and> r \<noteq> [] \<and> live_request tid earlier \<or> open_semantic tid r earlier
      | SemanticDone t q _ \<Rightarrow> \<not> (t = tid \<and> q = r) \<and> open_semantic tid r earlier
      | SemanticFailed t q _ \<Rightarrow> \<not> (t = tid \<and> q = r) \<and> open_semantic tid r earlier
      | Cleanup t \<Rightarrow> t \<noteq> tid \<and> open_semantic tid r earlier
      | _ \<Rightarrow> open_semantic tid r earlier)"

fun open_embedding :: "string \<Rightarrow> string \<Rightarrow> wait_op list \<Rightarrow> bool" where
  "open_embedding tid r [] = False"
| "open_embedding tid r (x # earlier) =
     (case x of
        RegisterEmbedding t q \<Rightarrow> t = tid \<and> q = r \<and> r \<noteq> [] \<and> live_request tid earlier \<or> open_embedding tid r earlier
      | EmbeddingDone t q _ _ \<Rightarrow> \<not> (t = tid \<and> q = r) \<and> open_embedding tid r earlier
      | EmbeddingFailed t q _ \<Rightarrow> \<not> (t = tid \<and> q = r) \<and> open_embedding tid r earlier
      | Cleanup t \<Rightarrow> t \<noteq> tid \<and> open_embedding tid r earlier
      | _ \<Rightarrow> open_embedding tid r earlier)"

fun announced :: "string \<Rightarrow> wait_op list \<Rightarrow> nat" where
  "announced tid [] = 0"
| "announced tid (x # earlier) =
     (case x of
        RegisterEmbedding t _ \<Rightarrow> (if t = tid then 1 else 0) + announced tid earlier
      | Cleanup t \<Rightarrow> if t = tid then 0 else announced tid earlier
      | _ \<Rightarrow> announced tid earlier)"

section \<open>The tracker implements its history\<close>

lemmas wait_op_defs = register_request_def register_semantic_root_def register_embedding_root_def mark_semantic_done_def
  mark_semantic_failed_def mark_embedding_done_def mark_embedding_failed_def record_semantic_requeue_def
  record_embedding_requeue_def cleanup_request_def

lemma map_of_with_state:
  "map_of (with_state tid f st) t =
     (if t = tid \<and> tid \<noteq> [] then map_option f (map_of st tid) else map_of st t)"
  by (auto simp: with_state_def update_conv' split: option.splits)

lemma map_of_register_request:
  "map_of (register_request now tid st) t =
     (if t = tid \<and> tid \<noteq> [] \<and> map_of st tid = None then Some (new_wait_state now) else map_of st t)"
  by (auto simp: register_request_def map_add_def split: option.splits)

text \<open>The abstraction: the state of a request is absent exactly when it is not live, and its pending sets are the open roots.\<close>

definition represents :: "string \<Rightarrow> wait_op list \<Rightarrow> wait_state option \<Rightarrow> bool" where
  "represents tid ops s \<longleftrightarrow>
     (case s of
        None \<Rightarrow> \<not> live_request tid ops \<and> (\<forall>r. \<not> open_semantic tid r ops \<and> \<not> open_embedding tid r ops)
      | Some w \<Rightarrow> live_request tid ops \<and> pending_semantic_roots w = {r. open_semantic tid r ops}
          \<and> pending_embedding_roots w = {r. open_embedding tid r ops}
          \<and> finite (pending_embedding_roots w)
          \<and> 0 \<le> embedding_context_count w
          \<and> embedding_context_count w + int (card (pending_embedding_roots w)) \<le> int (announced tid ops))"

lemma card_insert_bound: "finite A \<Longrightarrow> int (card (insert x A)) \<le> 1 + int (card A)"
  using card_insert_le_m1 [of "Suc (card A)" A x] by (simp add: card_insert_if)

lemma card_remove_counted:
  "finite A \<Longrightarrow> (if v \<and> x \<in> A then 1 else 0) + int (card (A - {x})) \<le> int (card A)"
  using card_Suc_Diff1 [of A x] by (cases "x \<in> A") auto

lemma represents_step:
  assumes "represents tid ops (map_of st tid)" and "tid \<noteq> []"
  shows "represents tid (x # ops) (map_of (apply_wait x st) tid)"
proof (cases "map_of st tid")
  case None
  with assms show ?thesis
    by (cases x) (auto simp: represents_def wait_op_defs map_of_with_state map_of_register_request [unfolded register_request_def]
        new_wait_state_def delete_conv' map_add_def split: option.splits if_splits)
next
  case (Some w)
  show ?thesis
  proof (cases x)
    case (RegisterEmbedding t r)
    then show ?thesis using assms Some card_insert_bound [of "pending_embedding_roots w" r]
      by (auto simp: represents_def register_embedding_root_def map_of_with_state split: if_splits)
  next
    case (EmbeddingDone t r d v)
    then show ?thesis using assms Some card_remove_counted [of "pending_embedding_roots w" v r]
      by (auto simp: represents_def mark_embedding_done_def map_of_with_state Let_def split: if_splits)
  next
    case (EmbeddingFailed t r m)
    then show ?thesis using assms Some card_remove_counted [of "pending_embedding_roots w" False r]
      by (auto simp: represents_def mark_embedding_failed_def map_of_with_state split: if_splits)
  qed (use assms Some in \<open>auto simp: represents_def wait_op_defs map_of_with_state delete_conv' map_add_def
      map_of_register_request [unfolded register_request_def] split: if_splits option.splits\<close>)
qed

lemma represents_after: "tid \<noteq> [] \<Longrightarrow> represents tid ops (map_of (after ops) tid)"
  by (induction ops) (auto simp: represents_step, simp add: represents_def)

text \<open>C20: a request is complete exactly when its history says so. After any sequence of calls, in any interleaving of requests,
  \<open>is_complete\<close> answers yes exactly when no root that was announced for the live request is without a later outcome
  or cleanup, in either queue.\<close>

theorem request_complete_history:
  "is_complete tid (after ops) \<longleftrightarrow> (\<forall>r. \<not> open_semantic tid r ops \<and> \<not> open_embedding tid r ops)"
proof (cases "tid = []")
  case True
  have "\<not> live_request [] ops" by (induction ops) (auto split: wait_op.splits)
  moreover have "\<not> live_request t ops \<Longrightarrow> \<not> open_semantic t r ops \<and> \<not> open_embedding t r ops" for t r
    by (induction ops) (auto split: wait_op.splits)
  ultimately show ?thesis using True by (simp add: is_complete_def)
next
  case False
  from represents_after [OF this, of ops] False show ?thesis
    by (auto simp: is_complete_def represents_def split: option.splits)
qed

text \<open>an indexed context is counted once. After any sequence of calls the count of indexed contexts of a request, together with the
  embedding roots still pending, never exceeds the roots announced for it since its last cleanup: a repeated or late
  success of the same root is not counted again.\<close>

lemma context_count_bounded:
  "0 \<le> get_embedding_context_count tid (after ops)
    \<and> get_embedding_context_count tid (after ops) + int (card {r. open_embedding tid r ops}) \<le> int (announced tid ops)"
proof (cases "tid = []")
  case True
  have "\<not> live_request [] ops" by (induction ops) (auto split: wait_op.splits)
  moreover have "\<not> live_request t ops \<Longrightarrow> \<not> open_embedding t r ops" for t r
    by (induction ops) (auto split: wait_op.splits)
  ultimately show ?thesis using True by (simp add: get_embedding_context_count_def)
next
  case False
  from represents_after [OF this, of ops] False show ?thesis
    by (auto simp: get_embedding_context_count_def represents_def split: option.splits)
qed

section \<open>Waiting\<close>

definition wait_stops :: "string \<Rightarrow> rat option \<Rightarrow> rat \<Rightarrow> (nat \<Rightarrow> wait_tracker) \<Rightarrow> (nat \<Rightarrow> rat) \<Rightarrow> nat \<Rightarrow> bool" where
  "wait_stops tid timeout start states clock n \<longleftrightarrow>
     is_complete tid (states n) \<or> (case timeout of None \<Rightarrow> False | Some t \<Rightarrow> clock n - start > t)"

lemma wait_from_stop:
  assumes "wait_stops tid timeout start states clock m" and "n \<le> m"
    and "\<And>k. n \<le> k \<Longrightarrow> k < m \<Longrightarrow> \<not> wait_stops tid timeout start states clock k"
  shows "wait_from tid timeout start states clock n = Some (if is_complete tid (states m) then Inr () else Inl TimeoutError)"
  using assms(2,3)
proof (induction n rule: inc_induct)
  case base
  show ?case using assms(1) unfolding wait_stops_def by (subst wait_from.simps) (auto split: if_splits)
next
  case (step n)
  have "\<not> wait_stops tid timeout start states clock n" using step.prems step.hyps by simp
  then have "wait_from tid timeout start states clock n = wait_from tid timeout start states clock (Suc n)"
    unfolding wait_stops_def by (subst wait_from.simps) simp
  then show ?case using step by simp
qed

lemma wait_from_returns:
  assumes "wait_from tid timeout start states clock n = Some r"
  shows "\<exists>m. wait_stops tid timeout start states clock m"
proof (rule wait_from.raw_induct [OF _ assms, of "\<lambda>tid timeout start states clock n r.
    \<exists>m. wait_stops tid timeout start states clock m"])
  fix rec_wait tid timeout start states clock n r
  assume "\<And>tid timeout start states clock n r. rec_wait tid timeout start states clock n = Some r \<Longrightarrow>
      \<exists>m. wait_stops tid timeout start states clock m"
    and "(if is_complete tid (states n) then Some (Inr ())
      else if (case timeout of None \<Rightarrow> False | Some t \<Rightarrow> clock n - start > t) then Some (Inl TimeoutError)
      else rec_wait tid timeout start states clock (Suc n)) = Some r"
  note ih = this(1) and step = this(2)
  show "\<exists>m. wait_stops tid timeout start states clock m"
  proof (cases "wait_stops tid timeout start states clock n")
    case False
    then have "rec_wait tid timeout start states clock (Suc n) = Some r" using step by (simp add: wait_stops_def)
    then show ?thesis by (rule ih)
  qed blast
qed

text \<open>C38: waiting ends exactly when it can. \<open>wait_for_request\<close> returns exactly if at some poll the request is complete or
  the timeout is exceeded; then the first such poll decides, and completion wins over the timeout. Without a
  timeout, and with a root that never ends, it polls for ever.\<close>

theorem wait_for_request_outcome:
  "wait_for_request tid timeout start states clock =
     (if tid = [] then Some (Inr ())
      else if \<exists>n. wait_stops tid timeout start states clock n
      then Some (if is_complete tid (states (LEAST n. wait_stops tid timeout start states clock n))
                 then Inr () else Inl TimeoutError)
      else None)"
proof (cases "\<exists>n. wait_stops tid timeout start states clock n")
  case True
  let ?m = "LEAST n. wait_stops tid timeout start states clock n"
  have m: "wait_stops tid timeout start states clock ?m" using True by (rule LeastI_ex)
  have before: "\<not> wait_stops tid timeout start states clock k" if "k < ?m" for k using that by (rule not_less_Least)
  have "wait_from tid timeout start states clock 0 = Some (if is_complete tid (states ?m) then Inr () else Inl TimeoutError)"
    by (rule wait_from_stop [OF m le0]) (rule before)
  then show ?thesis unfolding wait_for_request_def if_P [OF True] by simp
next
  case False
  then have "wait_from tid timeout start states clock 0 = None"
    using wait_from_returns [of tid timeout start states clock 0] by (cases "wait_from tid timeout start states clock 0") auto
  then show ?thesis unfolding wait_for_request_def if_not_P [OF False] by simp
qed

end
