(* ===== verification/Session_Meta.thy ===== *)
theory Session_Meta
  imports Message_Json Session_Policies
begin

text \<open>
  The metadata of a session, \<open>SessionMeta\<close> of \<open>openviking/session/session.py\<close>, and its stored form. As for messages, the
  fields the code does not convert are typed here, and reading gives \<open>None\<close> where one would hold a value of another type.
\<close>

section \<open>The record and its defaults\<close>

record session_meta =
  sm_session_id :: string
  sm_created_at :: string
  sm_updated_at :: string
  sm_created_by_account_id :: string
  sm_created_by_user_id :: string
  sm_message_count :: int
  sm_total_message_count :: "int option"
  sm_commit_count :: int
  sm_memories_extracted :: "(utext \<times> int) list"
  sm_last_commit_at :: string
  sm_llm_token_usage :: "(utext \<times> int) list"
  sm_embedding_token_usage :: "(utext \<times> int) list"
  sm_pending_tokens :: int
  sm_keep_recent_count :: int
  sm_retention_mode :: string
  sm_keep_recent_turn_count :: int
  sm_retained_message_token_budget :: int
  sm_min_raw_tail_steps :: int
  sm_memory_policy :: "(utext \<times> json) list option"
  sm_auto_commit_policy :: "(utext \<times> json) list option"
  sm_last_message_at :: string
  sm_last_auto_commit_at :: string
  sm_event_search_tags :: "utext list option"

definition LLM_USAGE_KEYS :: "utext list" where
  "LLM_USAGE_KEYS = map cps [''prompt_tokens'', ''completion_tokens'', ''total_tokens'', ''cached_tokens'', ''reasoning_tokens'']"

definition EMBEDDING_USAGE_KEYS :: "utext list" where
  "EMBEDDING_USAGE_KEYS = [cps ''total_tokens'']"

definition default_memory_counts :: "(utext \<times> int) list" where
  "default_memory_counts = [(cps ''total'', 0)]"

definition new_session_meta :: "string \<Rightarrow> string \<Rightarrow> string \<Rightarrow> string \<Rightarrow> session_meta" where
  "new_session_meta session_id now account_id user_id =
     \<lparr>sm_session_id = session_id, sm_created_at = now, sm_updated_at = [], sm_created_by_account_id = account_id,
      sm_created_by_user_id = user_id, sm_message_count = 0, sm_total_message_count = Some 0, sm_commit_count = 0,
      sm_memories_extracted = default_memory_counts, sm_last_commit_at = [],
      sm_llm_token_usage = map (\<lambda>k. (k, 0)) LLM_USAGE_KEYS, sm_embedding_token_usage = map (\<lambda>k. (k, 0)) EMBEDDING_USAGE_KEYS,
      sm_pending_tokens = 0, sm_keep_recent_count = 0, sm_retention_mode = [], sm_keep_recent_turn_count = 0,
      sm_retained_message_token_budget = 0, sm_min_raw_tail_steps = 1, sm_memory_policy = None, sm_auto_commit_policy = None,
      sm_last_message_at = [], sm_last_auto_commit_at = [], sm_event_search_tags = None\<rparr>"

section \<open>The stored form\<close>

definition json_counts :: "(utext \<times> int) list \<Rightarrow> json" where
  "json_counts d = JDict (map (\<lambda>(k, n). (k, JInt n)) d)"

definition dict_or_null :: "(utext \<times> json) list option \<Rightarrow> json" where
  "dict_or_null d = (case d of None \<Rightarrow> JNull | Some e \<Rightarrow> JDict e)"

definition session_meta_to_dict :: "session_meta \<Rightarrow> (utext \<times> json) list" where
  "session_meta_to_dict m =
     [(cps ''session_id'', jstr (sm_session_id m)), (cps ''created_at'', jstr (sm_created_at m)),
      (cps ''updated_at'', jstr (sm_updated_at m)), (cps ''created_by_account_id'', jstr (sm_created_by_account_id m)),
      (cps ''created_by_user_id'', jstr (sm_created_by_user_id m)), (cps ''message_count'', JInt (sm_message_count m)),
      (cps ''commit_count'', JInt (sm_commit_count m)), (cps ''memories_extracted'', json_counts (sm_memories_extracted m)),
      (cps ''last_commit_at'', jstr (sm_last_commit_at m)), (cps ''llm_token_usage'', json_counts (sm_llm_token_usage m)),
      (cps ''embedding_token_usage'', json_counts (sm_embedding_token_usage m)), (cps ''pending_tokens'', JInt (sm_pending_tokens m)),
      (cps ''keep_recent_count'', JInt (sm_keep_recent_count m)), (cps ''retention_mode'', jstr (sm_retention_mode m)),
      (cps ''keep_recent_turn_count'', JInt (sm_keep_recent_turn_count m)),
      (cps ''retained_message_token_budget'', JInt (sm_retained_message_token_budget m)),
      (cps ''min_raw_tail_steps'', JInt (sm_min_raw_tail_steps m)), (cps ''memory_policy'', dict_or_null (sm_memory_policy m)),
      (cps ''auto_commit_policy'', dict_or_null (sm_auto_commit_policy m)), (cps ''last_message_at'', jstr (sm_last_message_at m)),
      (cps ''last_auto_commit_at'', jstr (sm_last_auto_commit_at m))]
     @ given ''total_message_count'' (map_option JInt (sm_total_message_count m))
     @ given ''event_search_tags'' (map_option (\<lambda>ts. JList (map JStr ts)) (sm_event_search_tags m))"

text \<open>\<open>int(value or 0)\<close>.\<close>

definition int_or_zero :: "json \<Rightarrow> int res" where
  "int_or_zero v = (if truthy_json v then py_int v else Inr 0)"

fun count_memories :: "(utext \<times> json) list \<Rightarrow> (utext \<times> int) list \<Rightarrow> (utext \<times> int) list res" where
  "count_memories [] acc = Inr acc"
| "count_memories ((k, v) # d) acc =
     bind_res (or_else (int_or_zero v) 0) (\<lambda>n. count_memories d (AList.update k n acc))"

definition non_negative_field :: "(utext \<times> json) list \<Rightarrow> string \<Rightarrow> int \<Rightarrow> int res" where
  "non_negative_field d k fallback = bind_res (int_or_zero (get_or d k (JInt fallback))) (\<lambda>n. Inr (max 0 n))"

definition usage_counts :: "utext list \<Rightarrow> (utext \<times> json) list \<Rightarrow> (utext \<times> int) list option" where
  "usage_counts ks d =
     option_list (map (\<lambda>k. map_option (Pair k) (case map_of d k of None \<Rightarrow> Some 0 | Some v \<Rightarrow> json_int v)) ks)"

definition json_texts :: "json \<Rightarrow> utext list option" where
  "json_texts v = (case v of JList vs \<Rightarrow> option_list (map json_text vs) | _ \<Rightarrow> None)"

definition dict_of :: "json \<Rightarrow> (utext \<times> json) list res" where
  "dict_of v = (case v of JDict d \<Rightarrow> Inr d | _ \<Rightarrow> Inl AttributeError)"

definition json_str_text :: "utext \<Rightarrow> string option" where
  "json_str_text t = json_str (JStr t)"

text \<open>\<open>data.get("created_by_account_id", "") or data.get("account_id", "")\<close>.\<close>

definition creator_account :: "(utext \<times> json) list \<Rightarrow> string option" where
  "creator_account d =
     (let v = get_or d ''created_by_account_id'' (JStr [])
      in if truthy_json v then json_str v else field json_str d ''account_id'' [])"

definition session_meta_from_dict :: "(json \<Rightarrow> utext) \<Rightarrow> (utext \<times> json) list \<Rightarrow> session_meta option res" where
  "session_meta_from_dict py_str d =
     bind_res (dict_of (get_or d ''memories_extracted'' (JDict []))) (\<lambda>memories.
     bind_res (count_memories memories default_memory_counts) (\<lambda>counts.
     bind_res (dict_of (get_or d ''llm_token_usage'' (JDict []))) (\<lambda>llm.
     bind_res (dict_of (get_or d ''embedding_token_usage'' (JDict []))) (\<lambda>embedding.
     bind_res (non_negative_field d ''pending_tokens'' 0) (\<lambda>pending.
     bind_res (non_negative_field d ''keep_recent_count'' 0) (\<lambda>keep.
     bind_res (non_negative_field d ''keep_recent_turn_count'' 0) (\<lambda>turns.
     bind_res (non_negative_field d ''retained_message_token_budget'' 0) (\<lambda>budget.
     bind_res (non_negative_field d ''min_raw_tail_steps'' 1) (\<lambda>tail.
       Inr (Option.bind (field json_str d ''session_id'' []) (\<lambda>f1. Option.bind (field json_str d ''created_at'' []) (\<lambda>f2.
            Option.bind (field json_str d ''updated_at'' []) (\<lambda>f3. Option.bind (creator_account d) (\<lambda>f5.
            Option.bind (field json_str d ''created_by_user_id'' []) (\<lambda>f6. Option.bind (field json_int d ''message_count'' 0) (\<lambda>f7.
            Option.bind (opt_field json_int d ''total_message_count'') (\<lambda>f8. Option.bind (field json_int d ''commit_count'' 0) (\<lambda>f9.
            Option.bind (field json_str d ''last_commit_at'' []) (\<lambda>f10. Option.bind (usage_counts LLM_USAGE_KEYS llm) (\<lambda>f11.
            Option.bind (usage_counts EMBEDDING_USAGE_KEYS embedding) (\<lambda>f12.
            Option.bind (json_str_text (str_or_empty py_str (map_of d (cps ''retention_mode'')))) (\<lambda>f13.
            Option.bind (opt_field json_dict d ''memory_policy'') (\<lambda>f14. Option.bind (opt_field json_dict d ''auto_commit_policy'') (\<lambda>f15.
            Option.bind (field json_str d ''last_message_at'' []) (\<lambda>f16. Option.bind (field json_str d ''last_auto_commit_at'' []) (\<lambda>f17.
            Option.bind (opt_field json_texts d ''event_search_tags'') (\<lambda>f18.
              Some \<lparr>sm_session_id = f1, sm_created_at = f2, sm_updated_at = f3, sm_created_by_account_id = f5,
                    sm_created_by_user_id = f6, sm_message_count = f7, sm_total_message_count = f8, sm_commit_count = f9,
                    sm_memories_extracted = counts, sm_last_commit_at = f10, sm_llm_token_usage = f11,
                    sm_embedding_token_usage = f12, sm_pending_tokens = pending, sm_keep_recent_count = keep,
                    sm_retention_mode = f13, sm_keep_recent_turn_count = turns, sm_retained_message_token_budget = budget,
                    sm_min_raw_tail_steps = tail, sm_memory_policy = f14, sm_auto_commit_policy = f15,
                    sm_last_message_at = f16, sm_last_auto_commit_at = f17, sm_event_search_tags = f18\<rparr>)))))))))))))))))))))))))))"

section \<open>Reading back\<close>

definition session_meta_wf :: "session_meta \<Rightarrow> bool" where
  "session_meta_wf m \<longleftrightarrow>
     0 \<le> sm_pending_tokens m \<and> 0 \<le> sm_keep_recent_count m \<and> 0 \<le> sm_keep_recent_turn_count m
     \<and> 0 \<le> sm_retained_message_token_budget m \<and> 0 \<le> sm_min_raw_tail_steps m
     \<and> map fst (sm_llm_token_usage m) = LLM_USAGE_KEYS \<and> map fst (sm_embedding_token_usage m) = EMBEDDING_USAGE_KEYS
     \<and> distinct (map fst (sm_memories_extracted m)) \<and> take 1 (map fst (sm_memories_extracted m)) = [cps ''total'']
     \<and> wf_json (dict_or_null (sm_memory_policy m)) \<and> wf_json (dict_or_null (sm_auto_commit_policy m))"

subsection \<open>Counts\<close>

lemma option_list_length: "option_list xs = Some ys \<Longrightarrow> xs = map Some ys"
  by (induction xs arbitrary: ys) (auto simp: bind_eq_Some_conv)

lemma option_list_Some [simp]: "option_list (map Some ys) = Some ys"
  by (induction ys) simp_all

lemma usage_counts_keys:
  assumes "usage_counts ks d = Some us"
  shows "map fst us = ks"
proof -
  have "map Some us = map (\<lambda>k. map_option (Pair k) (case map_of d k of None \<Rightarrow> Some 0 | Some v \<Rightarrow> json_int v)) ks"
    using option_list_length [OF assms [unfolded usage_counts_def]] by simp
  then show ?thesis
  proof (induction ks arbitrary: us)
    case (Cons k ks)
    then obtain u us' where us: "us = u # us'" by (cases us) auto
    with Cons show ?case by (auto simp: eq_commute [of "Some _"])
  qed simp
qed

lemma usage_counts_json:
  assumes "map fst us = ks" and "distinct ks"
  shows "usage_counts ks (map (\<lambda>(k, n). (k, JInt n)) us) = Some us"
proof -
  have "map_of (map (\<lambda>(k, n). (k, JInt n)) us) k = map_option JInt (map_of us k)" for k
    by (induction us) auto
  moreover have "map_of us (fst u) = Some (snd u)" if "u \<in> set us" for u
    using that assms by (cases u) auto
  ultimately have "map (\<lambda>k. map_option (Pair k) (case map_of (map (\<lambda>(k, n). (k, JInt n)) us) k of None \<Rightarrow> Some 0 | Some v \<Rightarrow> json_int v)) ks
      = map Some us"
    unfolding assms(1) [symmetric] by (simp add: comp_def)
  then show ?thesis by (simp add: usage_counts_def)
qed

lemma int_or_zero_JInt [simp]: "int_or_zero (JInt n) = Inr n"
  by (simp add: int_or_zero_def)

lemma count_memories_json:
  assumes "distinct (map fst (acc @ ms))"
  shows "count_memories (map (\<lambda>(k, n). (k, JInt n)) ms) acc = Inr (acc @ ms)"
  using assms
proof (induction ms arbitrary: acc)
  case (Cons kn ms)
  obtain k n where kn: "kn = (k, n)" by force
  have "k \<notin> fst ` set acc" using Cons.prems kn by auto
  then have "AList.update k n acc = acc @ [(k, n)]" by (induction acc) auto
  with Cons kn show ?case by simp
qed simp

lemma count_memories_default:
  assumes "distinct (map fst ms)" and "take 1 (map fst ms) = [cps ''total'']"
  shows "count_memories (map (\<lambda>(k, n). (k, JInt n)) ms) default_memory_counts = Inr ms"
proof -
  obtain n ms' where ms: "ms = (cps ''total'', n) # ms'" using assms(2) by (cases ms) auto
  have "count_memories (map (\<lambda>(k, n). (k, JInt n)) ms') [(cps ''total'', n)] = Inr ([(cps ''total'', n)] @ ms')"
    by (rule count_memories_json) (use assms(1) ms in simp)
  then show ?thesis by (simp add: ms default_memory_counts_def)
qed

lemma count_memories_wf:
  "count_memories d acc = Inr ms \<Longrightarrow> distinct (map fst acc) \<Longrightarrow> take 1 (map fst acc) = [t] \<Longrightarrow>
     distinct (map fst ms) \<and> take 1 (map fst ms) = [t]"
proof (induction d acc rule: count_memories.induct)
  case (2 k v d acc)
  then obtain n where n: "or_else (int_or_zero v) 0 = Inr n" "count_memories d (AList.update k n acc) = Inr ms"
    by (auto simp: bind_res_Inr_iff)
  have "take 1 (map fst (AList.update k n acc)) = [t]" using "2.prems"(3) by (cases acc) auto
  with "2.IH" [OF n] distinct_update [of acc k n] "2.prems"(2) show ?case by blast
qed simp

subsection \<open>Fields\<close>

lemma to_dict_lookup:
  fixes m
  defines "d \<equiv> session_meta_to_dict m"
  shows "map_of d (cps ''session_id'') = Some (jstr (sm_session_id m))"
    "map_of d (cps ''created_at'') = Some (jstr (sm_created_at m))"
    "map_of d (cps ''updated_at'') = Some (jstr (sm_updated_at m))"
    "map_of d (cps ''created_by_account_id'') = Some (jstr (sm_created_by_account_id m))"
    "map_of d (cps ''created_by_user_id'') = Some (jstr (sm_created_by_user_id m))"
    "map_of d (cps ''account_id'') = None"
    "map_of d (cps ''message_count'') = Some (JInt (sm_message_count m))"
    "map_of d (cps ''commit_count'') = Some (JInt (sm_commit_count m))"
    "map_of d (cps ''memories_extracted'') = Some (json_counts (sm_memories_extracted m))"
    "map_of d (cps ''last_commit_at'') = Some (jstr (sm_last_commit_at m))"
    "map_of d (cps ''llm_token_usage'') = Some (json_counts (sm_llm_token_usage m))"
    "map_of d (cps ''embedding_token_usage'') = Some (json_counts (sm_embedding_token_usage m))"
    "map_of d (cps ''pending_tokens'') = Some (JInt (sm_pending_tokens m))"
    "map_of d (cps ''keep_recent_count'') = Some (JInt (sm_keep_recent_count m))"
    "map_of d (cps ''retention_mode'') = Some (jstr (sm_retention_mode m))"
    "map_of d (cps ''keep_recent_turn_count'') = Some (JInt (sm_keep_recent_turn_count m))"
    "map_of d (cps ''retained_message_token_budget'') = Some (JInt (sm_retained_message_token_budget m))"
    "map_of d (cps ''min_raw_tail_steps'') = Some (JInt (sm_min_raw_tail_steps m))"
    "map_of d (cps ''memory_policy'') = Some (dict_or_null (sm_memory_policy m))"
    "map_of d (cps ''auto_commit_policy'') = Some (dict_or_null (sm_auto_commit_policy m))"
    "map_of d (cps ''last_message_at'') = Some (jstr (sm_last_message_at m))"
    "map_of d (cps ''last_auto_commit_at'') = Some (jstr (sm_last_auto_commit_at m))"
    "map_of d (cps ''total_message_count'') = map_option JInt (sm_total_message_count m)"
    "map_of d (cps ''event_search_tags'') = map_option (\<lambda>ts. JList (map JStr ts)) (sm_event_search_tags m)"
  unfolding d_def session_meta_to_dict_def by (simp_all del: map_of_append)

lemma field_lookup:
  "map_of d (cps k) = Some (JInt i) \<Longrightarrow> field json_int d k x = Some i"
  "map_of d (cps k) = Some (JInt i) \<Longrightarrow> non_negative_field d k n = Inr (max 0 i)"
  "map_of d (cps k) = Some (dict_or_null e) \<Longrightarrow> opt_field json_dict d k = Some e"
  "map_of d (cps k) = Some (json_counts c) \<Longrightarrow> dict_of (get_or d k y) = Inr (map (\<lambda>(k, n). (k, JInt n)) c)"
  "map_of d (cps k) = map_option (\<lambda>ts. JList (map JStr ts)) t \<Longrightarrow> opt_field json_texts d k = Some t"
  "map_of d (cps k) = Some (jstr s) \<Longrightarrow> str_or_empty py_str (map_of d (cps k)) = cps s"
proof -
  have ts: "option_list (map json_text (map JStr ts)) = Some ts" for ts by (rule option_list_map) simp
  show "map_of d (cps k) = map_option (\<lambda>ts. JList (map JStr ts)) t \<Longrightarrow> opt_field json_texts d k = Some t"
    by (cases t) (simp_all add: opt_field_def json_texts_def ts del: map_map)
  show "map_of d (cps k) = Some (jstr s) \<Longrightarrow> str_or_empty py_str (map_of d (cps k)) = cps s"
    by (cases s) (simp_all add: str_or_empty_def str_of_def jstr_def cps_def)
qed (auto simp: field_def non_negative_field_def get_or_def opt_field_def dict_or_null_def dict_of_def json_counts_def split: option.splits)

lemma json_str_text_cps [simp]: "json_str_text (cps s) = Some s"
  using json_str_jstr [of s] by (simp add: json_str_text_def jstr_def)

lemma session_meta_from_to_dict:
  assumes "session_meta_wf m"
  shows "session_meta_from_dict py_str (session_meta_to_dict m) = Inr (Some m)"
proof -
  define d where "d = session_meta_to_dict m"
  note lookup = to_dict_lookup [of m, folded d_def]
  have creator: "creator_account d = Some (sm_created_by_account_id m)"
  proof (cases "sm_created_by_account_id m")
    case Nil
    then have "get_or d ''created_by_account_id'' (JStr []) = JStr []" by (simp add: get_or_def lookup jstr_def)
    then show ?thesis by (simp add: creator_account_def field_def lookup Nil)
  next
    case (Cons c cs)
    then have "get_or d ''created_by_account_id'' (JStr []) = jstr (c # cs)" by (simp add: get_or_def lookup)
    moreover have "truthy_json (jstr (c # cs))" by (simp add: jstr_def)
    ultimately show ?thesis by (simp add: creator_account_def Cons)
  qed
  have keys: "distinct LLM_USAGE_KEYS" "distinct EMBEDDING_USAGE_KEYS" by (simp_all add: LLM_USAGE_KEYS_def EMBEDDING_USAGE_KEYS_def)
  have total: "opt_field json_int d ''total_message_count'' = Some (sm_total_message_count m)"
    by (rule opt_field_simps(1)) (rule lookup)
  have counts: "count_memories (map (\<lambda>(k, n). (k, JInt n)) (sm_memories_extracted m)) default_memory_counts = Inr (sm_memories_extracted m)"
    "usage_counts LLM_USAGE_KEYS (map (\<lambda>(k, n). (k, JInt n)) (sm_llm_token_usage m)) = Some (sm_llm_token_usage m)"
    "usage_counts EMBEDDING_USAGE_KEYS (map (\<lambda>(k, n). (k, JInt n)) (sm_embedding_token_usage m)) = Some (sm_embedding_token_usage m)"
    using assms keys by (simp_all add: count_memories_default usage_counts_json session_meta_wf_def)
  show ?thesis
    unfolding d_def [symmetric] session_meta_from_dict_def creator total field_lookup(6) [OF lookup(15)]
      field_lookup(4) [OF lookup(9)] field_lookup(4) [OF lookup(11)] field_lookup(4) [OF lookup(12)]
      field_lookup(2) [OF lookup(13)] field_lookup(2) [OF lookup(14)] field_lookup(2) [OF lookup(16)] field_lookup(2) [OF lookup(17)]
      field_lookup(2) [OF lookup(18)] field_lookup(3) [OF lookup(19)] field_lookup(3) [OF lookup(20)] field_lookup(5) [OF lookup(24)]
    using assms by (simp add: lookup field_lookup(1) counts session_meta_wf_def max_def)
qed

subsection \<open>What is read is well formed\<close>

lemma wf_member: "wf_json (JDict d) \<Longrightarrow> map_of d k = Some v \<Longrightarrow> wf_json v"
  by (auto dest: map_of_SomeD)

lemma opt_dict_wf:
  assumes "opt_field json_dict d k = Some e" and "wf_json (JDict d)"
  shows "wf_json (dict_or_null e)"
proof (cases e)
  case (Some x)
  with assms(1) have "map_of d (cps k) = Some (JDict x)"
    by (auto simp: opt_field_def json_dict_def split: option.splits if_splits json.splits)
  from wf_member [OF assms(2) this] show ?thesis by (simp add: dict_or_null_def Some)
qed (simp add: dict_or_null_def)

lemma non_negative_field_ge: "non_negative_field d k x = Inr n \<Longrightarrow> 0 \<le> n"
  by (auto simp: non_negative_field_def bind_res_Inr_iff)

lemma session_meta_from_dict_wf:
  assumes "session_meta_from_dict py_str d = Inr (Some m)" and "wf_json (JDict d)"
  shows "session_meta_wf m"
proof -
  note f = assms(1) [unfolded session_meta_from_dict_def bind_res_Inr_iff bind_eq_Some_conv sum.inject]
  have "count_memories ms default_memory_counts = Inr c \<Longrightarrow> distinct (map fst c) \<and> take 1 (map fst c) = [cps ''total'']" for ms c
    by (erule count_memories_wf) (simp_all add: default_memory_counts_def)
  with f opt_dict_wf [OF _ assms(2)] show ?thesis
    by (auto simp: session_meta_wf_def usage_counts_keys non_negative_field_ge)
qed

lemma given_dict_wf: "wf_json (json_counts c) \<longleftrightarrow> distinct (map fst c)"
  by (auto simp: json_counts_def comp_def case_prod_beta)

lemma session_meta_to_dict_wf:
  assumes "session_meta_wf m"
  shows "wf_json (JDict (session_meta_to_dict m))"
proof (rule wf_dictI)
  show "distinct (map fst (session_meta_to_dict m))"
    unfolding session_meta_to_dict_def append_Cons append_Nil key_list given_keys by (simp add: given_keys del: set_append)
  have "wf_json (json_counts (sm_memories_extracted m))" "wf_json (json_counts (sm_llm_token_usage m))"
    "wf_json (json_counts (sm_embedding_token_usage m))" "wf_json (dict_or_null (sm_memory_policy m))"
    "wf_json (dict_or_null (sm_auto_commit_policy m))"
    using assms by (simp_all add: session_meta_wf_def given_dict_wf LLM_USAGE_KEYS_def EMBEDDING_USAGE_KEYS_def)
  moreover have "opt_wf (map_option (\<lambda>ts. JList (map JStr ts)) (sm_event_search_tags m))"
    by (auto simp: opt_wf_def)
  moreover have "opt_wf (map_option JInt (sm_total_message_count m))" by simp
  ultimately show "values_wf (session_meta_to_dict m)"
    by (simp add: session_meta_to_dict_def del: wf_json.simps(2-3))
qed

section \<open>Properties\<close>

text \<open>The text of \<open>.meta.json\<close>, and reading it.\<close>

definition session_meta_text :: "session_meta \<Rightarrow> utext" where
  "session_meta_text m = dumps (JDict (session_meta_to_dict m))"

definition read_session_meta :: "(json \<Rightarrow> utext) \<Rightarrow> utext \<Rightarrow> session_meta option res" where
  "read_session_meta py_str body = bind_res (loads body) (\<lambda>v. bind_res (dict_of v) (session_meta_from_dict py_str))"

lemma read_session_meta_text:
  assumes "session_meta_wf m"
  shows "read_session_meta py_str (session_meta_text m) = Inr (Some m)"
  using assms
  by (simp add: read_session_meta_def session_meta_text_def loads_dumps_wf [OF session_meta_to_dict_wf] dict_of_def
      session_meta_from_to_dict del: dumps.simps)


definition meta_sample :: "(utext \<times> json) list" where
  "meta_sample = [(cps ''session_id'', jstr ''s1''), (cps ''account_id'', jstr ''acme''), (cps ''pending_tokens'', JInt (- 5)),
     (cps ''memories_extracted'', JDict [(cps ''events'', JStr (cps ''x'')), (cps ''total'', JInt 2)])]"


end
