(* ===== verification/Session_State.thy ===== *)
theory Session_State
  imports Session_Meta Retention
begin

text \<open>
  The counters a live session keeps beside its messages, \<open>_rebuild_pending_tokens\<close>, \<open>_apply_appended_messages_to_state\<close> and
  \<open>_remember_retention_policy\<close> of \<open>Session\<close> in \<open>openviking/session/session.py\<close>. The clock is an argument.
\<close>

definition RETENTION_MODE_TURN_BUDGET :: string where
  "RETENTION_MODE_TURN_BUDGET = ''turn_budget''"

record session =
  ses_messages :: "message list"
  ses_meta :: session_meta
  ses_compression_index :: nat
  ses_total_turns :: int
  ses_total_tokens :: int

section \<open>Writes that may fail\<close>

text \<open>A write is done, raises or is cut off by a crash, with or without effect; when the events run out every write is done.\<close>

datatype io_event = IoOk | IoRaises bool | IoCrash bool

datatype run_end = Completed "io_event list" | Raised "io_event list" | Crashed

datatype 'a outcome = Returned 'a | Failed exn | Died

fun run_writes :: "('s \<Rightarrow> 's) list \<Rightarrow> io_event list \<Rightarrow> 's \<Rightarrow> 's \<times> run_end" where
  "run_writes [] evs st = (st, Completed evs)"
| "run_writes (w # ws) [] st = run_writes ws [] (w st)"
| "run_writes (w # ws) (IoOk # evs) st = run_writes ws evs (w st)"
| "run_writes (w # ws) (IoRaises applied # evs) st = (if applied then w st else st, Raised evs)"
| "run_writes (w # ws) (IoCrash applied # evs) st = (if applied then w st else st, Crashed)"

lemma run_writes_prefix:
  "\<exists>j \<le> length ws. fst (run_writes ws evs st) = fold (\<lambda>w. w) (take j ws) st
     \<and> (\<forall>es. snd (run_writes ws evs st) = Completed es \<longrightarrow> j = length ws)"
proof (induction ws evs st rule: run_writes.induct)
  case (2 w ws st)
  then obtain j where "j \<le> length ws" "fst (run_writes ws [] (w st)) = fold (\<lambda>w. w) (take j ws) (w st)"
    "\<forall>es. snd (run_writes ws [] (w st)) = Completed es \<longrightarrow> j = length ws" by blast
  then show ?case by (intro exI [of _ "Suc j"]) simp
next
  case (3 w ws evs st)
  then obtain j where "j \<le> length ws" "fst (run_writes ws evs (w st)) = fold (\<lambda>w. w) (take j ws) (w st)"
    "\<forall>es. snd (run_writes ws evs (w st)) = Completed es \<longrightarrow> j = length ws" by blast
  then show ?case by (intro exI [of _ "Suc j"]) simp
next
  case (4 w ws applied evs st)
  show ?case by (intro exI [of _ "if applied then 1 else 0"]) simp
next
  case (5 w ws applied evs st)
  show ?case by (intro exI [of _ "if applied then 1 else 0"]) simp
qed simp

lemma run_writes_inv:
  assumes "\<And>w t. w \<in> set ws \<Longrightarrow> P t \<Longrightarrow> P (w t)" and "P st"
  shows "P (fst (run_writes ws evs st))"
  using assms by (induction ws evs st rule: run_writes.induct) auto

lemma run_writes_plain [simp]: "run_writes ws [] st = (fold (\<lambda>w. w) ws st, Completed [])"
  by (induction ws arbitrary: st) simp_all

section \<open>Archives\<close>

datatype archive_state = ArchivePending | ArchiveCompleted | ArchiveFailed

fun dedup_messages :: "string set \<Rightarrow> message list \<Rightarrow> message list" where
  "dedup_messages seen [] = []"
| "dedup_messages seen (m # ms) =
     (if msg_id m \<in> seen then dedup_messages seen ms else m # dedup_messages (insert (msg_id m) seen) ms)"

section \<open>Pending tokens\<close>

text \<open>The tokens that the next commit would archive, as \<open>_rebuild_pending_tokens\<close> computes them from the messages.\<close>

definition pending_of :: "session_meta \<Rightarrow> message list \<Rightarrow> int" where
  "pending_of m ms =
     (if sm_retention_mode m = RETENTION_MODE_TURN_BUDGET \<and> sm_keep_recent_turn_count m > 0
         \<and> sm_retained_message_token_budget m > 0
      then let plan = plan_retention ms (sm_keep_recent_turn_count m) (sm_retained_message_token_budget m) (sm_min_raw_tail_steps m);
               retained_ids = map msg_id (retained_messages plan)
           in max 0 (message_tokens (filter (\<lambda>x. msg_id x \<notin> set retained_ids) (archive_messages plan)))
      else let keep = max 0 (sm_keep_recent_count m); total = int (length ms)
           in max 0 (if keep \<le> 0 then message_tokens ms
                     else if total > keep then message_tokens (take (nat (total - keep)) ms) else 0))"

definition rebuild_pending_tokens :: "session \<Rightarrow> session" where
  "rebuild_pending_tokens s =
     s\<lparr>ses_meta := (ses_meta s)\<lparr>sm_pending_tokens := pending_of (ses_meta s) (ses_messages s)\<rparr>\<rparr>"

text \<open>One round of the loop of \<open>_apply_appended_messages_to_state\<close>. After the append, the message \<open>keep + 1\<close> from the end has
  left the window that a commit keeps.\<close>

definition append_message :: "message \<Rightarrow> session \<Rightarrow> session" where
  "append_message msg s =
     (let ms = ses_messages s @ [msg]; m = ses_meta s; keep = sm_keep_recent_count m;
          added = (if sm_retention_mode m = RETENTION_MODE_TURN_BUDGET then 0
                   else if keep \<le> 0 then estimated_tokens msg
                   else if int (length ms) > keep then estimated_tokens (ms ! nat (int (length ms) - (keep + 1)))
                   else 0)
      in s\<lparr>ses_messages := ms,
           ses_total_turns := ses_total_turns s + (if is_user_query msg then 1 else 0),
           ses_total_tokens := ses_total_tokens s + estimated_tokens msg,
           ses_meta := m\<lparr>sm_pending_tokens := sm_pending_tokens m + added\<rparr>\<rparr>)"

definition apply_appended_messages :: "string \<Rightarrow> message list \<Rightarrow> session \<Rightarrow> session" where
  "apply_appended_messages now msgs s =
     (let s = fold append_message msgs s;
          s = (if sm_retention_mode (ses_meta s) = RETENTION_MODE_TURN_BUDGET then rebuild_pending_tokens s else s);
          m = ses_meta s
      in s\<lparr>ses_meta := m\<lparr>sm_message_count := int (length (ses_messages s)),
                         sm_total_message_count := map_option (\<lambda>n. n + int (length msgs)) (sm_total_message_count m),
                         sm_last_message_at := (if msgs = [] then sm_last_message_at m else now)\<rparr>\<rparr>)"

definition remember_retention_policy :: "int \<Rightarrow> string option \<Rightarrow> int \<Rightarrow> int \<Rightarrow> int \<Rightarrow> session_meta \<Rightarrow> session_meta" where
  "remember_retention_policy keep_recent_count mode turns budget tail m =
     m\<lparr>sm_keep_recent_count := keep_recent_count, sm_retention_mode := (case mode of None \<Rightarrow> [] | Some x \<Rightarrow> x),
       sm_keep_recent_turn_count := turns, sm_retained_message_token_budget := budget, sm_min_raw_tail_steps := tail\<rparr>"

section \<open>The counter and its definition\<close>

lemma pending_of_keep:
  assumes "sm_retention_mode m \<noteq> RETENTION_MODE_TURN_BUDGET"
  shows "pending_of m ms = message_tokens (take (length ms - nat (sm_keep_recent_count m)) ms)"
proof (cases "sm_keep_recent_count m \<le> 0")
  case True
  then show ?thesis using assms by (simp add: pending_of_def Let_def)
next
  case False
  then show ?thesis using assms by (auto simp: pending_of_def Let_def nat_diff_distrib)
qed

lemma pending_of_same_policy:
  assumes "sm_retention_mode m' = sm_retention_mode m" "sm_keep_recent_count m' = sm_keep_recent_count m"
    "sm_keep_recent_turn_count m' = sm_keep_recent_turn_count m"
    "sm_retained_message_token_budget m' = sm_retained_message_token_budget m" "sm_min_raw_tail_steps m' = sm_min_raw_tail_steps m"
  shows "pending_of m' ms = pending_of m ms"
  using assms by (simp add: pending_of_def)

lemma message_tokens_take_Suc: "n < length ms \<Longrightarrow> message_tokens (take (Suc n) ms) = message_tokens (take n ms) + estimated_tokens (ms ! n)"
  by (simp add: take_Suc_conv_app_nth)

lemma append_message_sel:
  "ses_messages (append_message x s) = ses_messages s @ [x]"
  "sm_retention_mode (ses_meta (append_message x s)) = sm_retention_mode (ses_meta s)"
  "sm_keep_recent_count (ses_meta (append_message x s)) = sm_keep_recent_count (ses_meta s)"
  "sm_total_message_count (ses_meta (append_message x s)) = sm_total_message_count (ses_meta s)"
  by (simp_all add: append_message_def Let_def)

lemma append_message_pending:
  assumes "sm_retention_mode (ses_meta s) \<noteq> RETENTION_MODE_TURN_BUDGET"
    and "sm_pending_tokens (ses_meta s) = pending_of (ses_meta s) (ses_messages s)"
  shows "sm_pending_tokens (ses_meta (append_message x s)) = pending_of (ses_meta (append_message x s)) (ses_messages (append_message x s))"
proof -
  let ?ms = "ses_messages s" and ?k = "sm_keep_recent_count (ses_meta s)"
  have new: "pending_of (ses_meta (append_message x s)) (ses_messages (append_message x s)) =
      message_tokens (take (Suc (length ?ms) - nat ?k) (?ms @ [x]))"
    using assms(1) by (simp add: pending_of_keep append_message_sel)
  have old: "sm_pending_tokens (ses_meta s) = message_tokens (take (length ?ms - nat ?k) ?ms)"
    using assms by (simp add: pending_of_keep)
  have fresh: "sm_pending_tokens (ses_meta (append_message x s)) = sm_pending_tokens (ses_meta s) +
      (if ?k \<le> 0 then estimated_tokens x
       else if int (Suc (length ?ms)) > ?k then estimated_tokens ((?ms @ [x]) ! nat (int (Suc (length ?ms)) - (?k + 1))) else 0)"
    using assms(1) by (simp add: append_message_def Let_def)
  show ?thesis
  proof (cases "?k \<le> 0 \<or> int (Suc (length ?ms)) \<le> ?k")
    case True
    then show ?thesis unfolding new fresh old by auto
  next
    case False
    then have k: "nat ?k \<le> length ?ms" "0 < nat ?k" by auto
    then have n: "Suc (length ?ms) - nat ?k = Suc (length ?ms - nat ?k)" "nat (int (Suc (length ?ms)) - (?k + 1)) = length ?ms - nat ?k"
      by auto
    have "message_tokens (take (Suc (length ?ms - nat ?k)) (?ms @ [x])) =
        message_tokens (take (length ?ms - nat ?k) ?ms) + estimated_tokens ((?ms @ [x]) ! (length ?ms - nat ?k))"
      by (subst message_tokens_take_Suc) simp_all
    with False show ?thesis unfolding new fresh old n by simp
  qed
qed

lemma fold_append_message:
  "ses_messages (fold append_message msgs s) = ses_messages s @ msgs"
  "sm_retention_mode (ses_meta (fold append_message msgs s)) = sm_retention_mode (ses_meta s)"
  "sm_total_message_count (ses_meta (fold append_message msgs s)) = sm_total_message_count (ses_meta s)"
  by (induction msgs arbitrary: s) (simp_all add: append_message_sel)

lemma fold_append_pending:
  assumes "sm_retention_mode (ses_meta s) \<noteq> RETENTION_MODE_TURN_BUDGET"
    and "sm_pending_tokens (ses_meta s) = pending_of (ses_meta s) (ses_messages s)"
  shows "sm_pending_tokens (ses_meta (fold append_message msgs s)) =
    pending_of (ses_meta (fold append_message msgs s)) (ses_messages (fold append_message msgs s))"
  using assms
proof (induction msgs arbitrary: s)
  case (Cons x msgs)
  have "sm_retention_mode (ses_meta (append_message x s)) \<noteq> RETENTION_MODE_TURN_BUDGET" using Cons.prems(1) by (simp add: append_message_sel)
  from Cons.IH [OF this append_message_pending [OF Cons.prems]] show ?case by simp
qed simp

text \<open>C27: the counter of pending tokens that appending maintains in constant time per message is the one a reload computes from all
  messages. If it was right, it is right after any batch of appended messages, in every retention mode; the message counts follow
  the messages.\<close>

theorem pending_tokens_incremental:
  fixes now :: string and msgs :: "message list" and s :: session
  assumes "sm_pending_tokens (ses_meta s) = pending_of (ses_meta s) (ses_messages s)"
  defines "t \<equiv> apply_appended_messages now msgs s"
  shows "ses_messages t = ses_messages s @ msgs
    \<and> sm_pending_tokens (ses_meta t) = pending_of (ses_meta t) (ses_messages t)
    \<and> rebuild_pending_tokens t = t
    \<and> sm_message_count (ses_meta t) = int (length (ses_messages t))
    \<and> sm_total_message_count (ses_meta t) = map_option (\<lambda>n. n + int (length msgs)) (sm_total_message_count (ses_meta s))"
proof -
  have ms: "ses_messages t = ses_messages s @ msgs"
    by (simp add: t_def apply_appended_messages_def Let_def rebuild_pending_tokens_def fold_append_message)
  have pending: "sm_pending_tokens (ses_meta t) = pending_of (ses_meta t) (ses_messages t)"
  proof (cases "sm_retention_mode (ses_meta s) = RETENTION_MODE_TURN_BUDGET")
    case True
    then show ?thesis
      by (simp add: t_def apply_appended_messages_def Let_def rebuild_pending_tokens_def fold_append_message pending_of_def)
  next
    case False
    note p = fold_append_pending [OF False assms(1), of msgs]
    then show ?thesis using False
      by (simp add: t_def apply_appended_messages_def Let_def fold_append_message pending_of_def)
  qed
  have "rebuild_pending_tokens t = t" unfolding rebuild_pending_tokens_def pending [symmetric] by simp
  then show ?thesis using ms pending
    by (auto simp: t_def apply_appended_messages_def Let_def rebuild_pending_tokens_def fold_append_message)
qed

definition state_sample :: session where
  "state_sample =
     \<lparr>ses_messages = [], ses_meta = (new_session_meta ''s'' ''t0'' ''acme'' ''alice'')\<lparr>sm_keep_recent_count := 1\<rparr>,
      ses_compression_index = 0, ses_total_turns = 0, ses_total_tokens = 0\<rparr>"

theorem pending_tokens_incremental_witness:
  "sm_pending_tokens (ses_meta (apply_appended_messages ''t1'' (demo_messages @ demo_messages) state_sample))
     = message_tokens (butlast (demo_messages @ demo_messages))"
proof -
  have start: "sm_pending_tokens (ses_meta state_sample) = pending_of (ses_meta state_sample) (ses_messages state_sample)"
    by (simp add: state_sample_def new_session_meta_def pending_of_def)
  have mode: "sm_retention_mode (ses_meta (apply_appended_messages ''t1'' ms state_sample)) \<noteq> RETENTION_MODE_TURN_BUDGET"
    "sm_keep_recent_count (ses_meta (apply_appended_messages ''t1'' ms state_sample)) = 1" for ms
  proof -
    have k: "sm_keep_recent_count (ses_meta (fold append_message ms s)) = sm_keep_recent_count (ses_meta s)" for ms s
      by (induction ms arbitrary: s) (simp_all add: append_message_sel)
    show "sm_retention_mode (ses_meta (apply_appended_messages ''t1'' ms state_sample)) \<noteq> RETENTION_MODE_TURN_BUDGET"
      "sm_keep_recent_count (ses_meta (apply_appended_messages ''t1'' ms state_sample)) = 1"
      by (simp_all add: apply_appended_messages_def Let_def fold_append_message k state_sample_def new_session_meta_def
          RETENTION_MODE_TURN_BUDGET_def)
  qed
  have "ses_messages state_sample = []" by (simp add: state_sample_def)
  with pending_tokens_incremental [OF start, of "''t1''" "demo_messages @ demo_messages"] mode
  show ?thesis by (simp add: pending_of_keep butlast_conv_take)
qed

end
