(* ===== verification/Session_Files.thy ===== *)
theory Session_Files
  imports Session_State Session_Log
begin

text \<open>
  A session object and its files: \<open>Session.__init__\<close>, \<open>load\<close>, \<open>ensure_exists\<close>, \<open>update_config\<close> and \<open>_append_messages_authoritatively\<close> of
  \<open>openviking/session/session.py\<close>. The files are kept as texts. An operation under the path lock is one atomic step; a missing file is
  \<open>None\<close>, other failures of reading are not modelled, writes fail as the events say. The result \<open>None\<close> stands for stored values of
  types that the records cannot hold.
\<close>

section \<open>Files and environment\<close>

record session_files =
  sf_log :: "utext option"
  sf_meta :: "utext option"
  sf_history :: "string list option"
  sf_root :: bool

record file_env =
  fe_now :: string
  fe_clock :: "message \<Rightarrow> string"
  fe_float_repr :: "rat \<Rightarrow> utext"
  fe_py_str :: "json \<Rightarrow> utext"
  fe_object :: nat

definition new_session :: "string \<Rightarrow> string \<Rightarrow> string \<Rightarrow> string \<Rightarrow> session" where
  "new_session session_id now account_id user_id =
     \<lparr>ses_messages = [], ses_meta = new_session_meta session_id now account_id user_id, ses_compression_index = 0,
      ses_total_turns = 0, ses_total_tokens = 0\<rparr>"

definition write_log :: "utext \<Rightarrow> session_files \<Rightarrow> session_files" where
  "write_log body fs = fs\<lparr>sf_log := Some body\<rparr>"

definition append_log :: "utext \<Rightarrow> session_files \<Rightarrow> session_files" where
  "append_log body fs = fs\<lparr>sf_log := map_option (\<lambda>old. old @ body) (sf_log fs)\<rparr>"

definition write_meta :: "session_meta \<Rightarrow> session_files \<Rightarrow> session_files" where
  "write_meta m fs = fs\<lparr>sf_meta := Some (session_meta_text m)\<rparr>"

text \<open>\<open>_save_meta\<close>: the time is stamped before the write.\<close>

definition save_session :: "file_env \<Rightarrow> io_event list \<Rightarrow> session \<Rightarrow> session_files \<Rightarrow> session \<times> session_files \<times> unit outcome" where
  "save_session env evs s fs =
     (let m = (ses_meta s)\<lparr>sm_updated_at := fe_now env\<rparr>; r = run_writes [write_meta m] evs fs
      in (s\<lparr>ses_meta := m\<rparr>, fst r, case snd r of Completed _ \<Rightarrow> Returned () | Raised _ \<Rightarrow> Failed StoreError | Crashed \<Rightarrow> Died))"

section \<open>Loading\<close>

text \<open>The number of an entry \<open>archive_(\d+)\<close> of the history.\<close>

definition archive_number :: "string \<Rightarrow> nat option" where
  "archive_number name =
     (if startswith name ''archive_''
      then let ds = map of_char (drop 8 name) in if ds \<noteq> [] \<and> list_all is_digit_cp ds
             then Some (foldl (\<lambda>n d. 10 * n + (d - 48)) 0 ds) else None
      else None)"

definition load_index :: "session \<Rightarrow> string list option \<Rightarrow> nat" where
  "load_index s history =
     (case List.map_filter archive_number (case history of None \<Rightarrow> [] | Some names \<Rightarrow> names) of
        [] \<Rightarrow> ses_compression_index s
      | n # ns \<Rightarrow> fold max ns n)"

definition load_log :: "file_env \<Rightarrow> session \<Rightarrow> session_files \<Rightarrow> message list option res" where
  "load_log env s fs =
     (case sf_log fs of
        None \<Rightarrow> Inr (Some (ses_messages s))
      | Some body \<Rightarrow> bind_res (load_messages (fe_py_str env) (fe_object env) body) (\<lambda>ms. Inr (option_list ms)))"

definition load_meta :: "file_env \<Rightarrow> session \<Rightarrow> session_files \<Rightarrow> (session_meta \<times> nat) option res" where
  "load_meta env s fs =
     (case sf_meta fs of
        Some body \<Rightarrow> bind_res (read_session_meta (fe_py_str env) body) (\<lambda>m. Inr (map_option (\<lambda>m. (m, nat (max 0 (sm_commit_count m)))) m))
      | None \<Rightarrow>
          let i = load_index s (sf_history fs)
          in Inr (Some ((ses_meta s)\<lparr>sm_commit_count := int i, sm_total_message_count := None\<rparr>, i)))"

definition normalise_policy :: "session_meta \<Rightarrow> session_meta res" where
  "normalise_policy m =
     (case sm_auto_commit_policy m of
        None \<Rightarrow> Inr m
      | Some d \<Rightarrow> bind_res (auto_commit_from_dict (PolicyData (JDict d)))
                    (\<lambda>p. Inr (m\<lparr>sm_auto_commit_policy := Some (auto_commit_to_dict p)\<rparr>)))"

definition fill_creator :: "string \<Rightarrow> string \<Rightarrow> session_meta \<Rightarrow> session_meta" where
  "fill_creator account_id user_id m =
     m\<lparr>sm_created_by_account_id := (if sm_created_by_account_id m = [] then account_id else sm_created_by_account_id m),
       sm_created_by_user_id := (if sm_created_by_user_id m = [] then user_id else sm_created_by_user_id m)\<rparr>"

definition load_session :: "file_env \<Rightarrow> string \<Rightarrow> string \<Rightarrow> session \<Rightarrow> session_files \<Rightarrow> session option res" where
  "load_session env account_id user_id s fs =
     bind_res (load_log env s fs) (\<lambda>loaded.
     bind_res (load_meta env s fs) (\<lambda>meta.
       (case (loaded, meta) of
          (Some ms, Some (m, i)) \<Rightarrow>
            bind_res (normalise_policy (fill_creator account_id user_id (m\<lparr>sm_message_count := int (length ms)\<rparr>))) (\<lambda>m.
              Inr (Some (rebuild_pending_tokens (s\<lparr>ses_messages := ms, ses_meta := m, ses_compression_index := i\<rparr>))))
        | _ \<Rightarrow> Inr None)))"

section \<open>Operations\<close>

definition ensure_exists :: "file_env \<Rightarrow> io_event list \<Rightarrow> session \<Rightarrow> session_files \<Rightarrow> session \<times> session_files \<times> unit outcome" where
  "ensure_exists env evs s fs =
     (if sf_root fs then (s, fs, Returned ())
      else
        let r = run_writes [\<lambda>fs. fs\<lparr>sf_root := True\<rparr>, write_log []] evs fs
        in case snd r of
             Completed evs \<Rightarrow> save_session env evs s (fst r)
           | Raised _ \<Rightarrow> (s, fst r, Failed StoreError)
           | Crashed \<Rightarrow> (s, fst r, Died))"

definition update_config :: "file_env \<Rightarrow> io_event list \<Rightarrow> utext list option \<Rightarrow> (utext \<times> json) list option \<Rightarrow> bool
    \<Rightarrow> session \<Rightarrow> session_files \<Rightarrow> (session \<times> session_files \<times> unit outcome) option" where
  "update_config env evs tags given_policy update_policy s fs =
     (let stored = (case sf_meta fs of None \<Rightarrow> Inr (Some (ses_meta s)) | Some body \<Rightarrow> read_session_meta (fe_py_str env) body)
      in case stored of
           Inl e \<Rightarrow> Some (s, fs, Failed e)
         | Inr None \<Rightarrow> None
         | Inr (Some m) \<Rightarrow>
             (let m = (case tags of None \<Rightarrow> m | Some ts \<Rightarrow> m\<lparr>sm_event_search_tags := Some ts\<rparr>)
              in case (if update_policy \<or> given_policy \<noteq> None
                       then (case given_policy of
                               None \<Rightarrow> Inr (m\<lparr>sm_auto_commit_policy := None\<rparr>)
                             | Some d \<Rightarrow> bind_res (merge_auto_commit (sm_auto_commit_policy m) d)
                                           (\<lambda>p. Inr (m\<lparr>sm_auto_commit_policy := Some p\<rparr>)))
                       else Inr m) of
                   Inl e \<Rightarrow> Some (s\<lparr>ses_meta := m\<rparr>, fs, Failed e)
                 | Inr m \<Rightarrow> Some (save_session env evs (s\<lparr>ses_meta := m\<rparr>) fs)))"

text \<open>The state that an append starts from: the log and the metadata as stored, in-memory metadata if they cannot be read.\<close>

definition reload_for_append :: "file_env \<Rightarrow> session \<Rightarrow> session_files \<Rightarrow> session option res" where
  "reload_for_append env s fs =
     bind_res (case sf_log fs of
                 None \<Rightarrow> Inr (Some [])
               | Some body \<Rightarrow> bind_res (read_live_messages_strict (fe_py_str env) (fe_object env) body) (\<lambda>ms. Inr (option_list ms)))
       (\<lambda>live. Inr
          (case (live, case sf_meta fs of None \<Rightarrow> Some (ses_meta s)
                       | Some body \<Rightarrow> (case read_session_meta (fe_py_str env) body of Inl _ \<Rightarrow> Some (ses_meta s) | Inr m \<Rightarrow> m)) of
             (Some ms, Some m) \<Rightarrow> Some (s\<lparr>ses_messages := ms, ses_meta := m\<rparr>)
           | _ \<Rightarrow> None))"

definition append_messages :: "file_env \<Rightarrow> io_event list \<Rightarrow> message list \<Rightarrow> session \<Rightarrow> session_files
    \<Rightarrow> (session \<times> session_files \<times> unit outcome) option" where
  "append_messages env evs msgs s fs =
     (if msgs = [] then Some (s, fs, Returned ())
      else
        case reload_for_append env s fs of
          Inl e \<Rightarrow> Some (s, fs, Failed e)
        | Inr None \<Rightarrow> None
        | Inr (Some s) \<Rightarrow>
            (let s = apply_appended_messages (fe_now env) msgs s;
                 body = batch_content (fe_float_repr env) (fe_clock env) msgs;
                 r = run_writes [if sf_log fs = None then write_log body else append_log body] evs fs
             in Some (case snd r of
                  Completed evs \<Rightarrow> save_session env evs s (fst r)
                | Raised _ \<Rightarrow> (s, fst r, Failed StoreError)
                | Crashed \<Rightarrow> (s, fst r, Died))))"

section \<open>What is stored is what is loaded\<close>

definition stored_messages :: "file_env \<Rightarrow> message list \<Rightarrow> message list" where
  "stored_messages env ms = map the (norm_messages (fe_clock env) (fe_object env) ms)"

lemma option_list_norm: "option_list (norm_messages clock obj ms) = Some (map the (norm_messages clock obj ms))"
  by (induction ms arbitrary: obj) simp_all

lemma norm_part_tokens [simp]: "part_token_text (norm_part p) = part_token_text p"
  by (cases p) (simp_all add: norm_part_def)

lemma norm_message_tokens [simp]: "estimated_tokens (norm_message now obj m) = estimated_tokens m"
  by (simp add: estimated_tokens_def parts_text_def norm_message_def comp_def)

lemma stored_tokens: "message_tokens (take k (map the (norm_messages clock obj ms))) = message_tokens (take k ms)"
proof (induction ms arbitrary: k obj)
  case (Cons m ms)
  then show ?case by (cases k) simp_all
qed simp

lemma norm_messages_length [simp]: "length (norm_messages clock obj ms) = length ms"
  by (induction ms arbitrary: obj) simp_all

lemma length_stored [simp]: "length (stored_messages env ms) = length ms"
  by (simp add: stored_messages_def)

lemma pending_of_stored:
  "sm_retention_mode m \<noteq> RETENTION_MODE_TURN_BUDGET \<Longrightarrow> pending_of m (stored_messages env ms) = pending_of m ms"
  "sm_retention_mode m \<noteq> RETENTION_MODE_TURN_BUDGET \<Longrightarrow> pending_of m (stored_messages env ms @ ns) = pending_of m (ms @ ns)"
  by (simp_all add: pending_of_keep stored_messages_def stored_tokens)

lemma fold_append_meta: "\<exists>x. ses_meta (fold append_message msgs s) = (ses_meta s)\<lparr>sm_pending_tokens := x\<rparr>"
proof (induction msgs arbitrary: s)
  case Nil
  show ?case by (intro exI [of _ "sm_pending_tokens (ses_meta s)"]) simp
next
  case (Cons a msgs)
  obtain x where "ses_meta (fold append_message msgs (append_message a s)) = (ses_meta (append_message a s))\<lparr>sm_pending_tokens := x\<rparr>"
    using Cons by blast
  moreover obtain y where "ses_meta (append_message a s) = (ses_meta s)\<lparr>sm_pending_tokens := y\<rparr>"
    by (simp add: append_message_def Let_def)
  ultimately show ?case by (intro exI [of _ x]) simp
qed

lemma apply_appended_keep:
  assumes mode: "sm_retention_mode (ses_meta s) \<noteq> RETENTION_MODE_TURN_BUDGET"
    and start: "sm_pending_tokens (ses_meta s) = pending_of (ses_meta s) (ses_messages s)"
  shows "ses_messages (apply_appended_messages now msgs s) = ses_messages s @ msgs"
    and "ses_meta (apply_appended_messages now msgs s) = (ses_meta s)\<lparr>sm_pending_tokens := pending_of (ses_meta s) (ses_messages s @ msgs),
      sm_message_count := int (length (ses_messages s @ msgs)),
      sm_total_message_count := map_option (\<lambda>n. n + int (length msgs)) (sm_total_message_count (ses_meta s)),
      sm_last_message_at := (if msgs = [] then sm_last_message_at (ses_meta s) else now)\<rparr>"
proof -
  obtain x where x: "ses_meta (fold append_message msgs s) = (ses_meta s)\<lparr>sm_pending_tokens := x\<rparr>"
    using fold_append_meta by blast
  have "x = pending_of (ses_meta (fold append_message msgs s)) (ses_messages s @ msgs)"
    using fold_append_pending [OF assms, of msgs] by (simp add: x fold_append_message)
  also have "\<dots> = pending_of (ses_meta s) (ses_messages s @ msgs)" by (rule pending_of_same_policy) (simp_all add: x)
  finally have p: "x = pending_of (ses_meta s) (ses_messages s @ msgs)" .
  show "ses_messages (apply_appended_messages now msgs s) = ses_messages s @ msgs"
    using mode by (simp add: apply_appended_messages_def Let_def fold_append_message)
  show "ses_meta (apply_appended_messages now msgs s) = (ses_meta s)\<lparr>sm_pending_tokens := pending_of (ses_meta s) (ses_messages s @ msgs),
      sm_message_count := int (length (ses_messages s @ msgs)),
      sm_total_message_count := map_option (\<lambda>n. n + int (length msgs)) (sm_total_message_count (ses_meta s)),
      sm_last_message_at := (if msgs = [] then sm_last_message_at (ses_meta s) else now)\<rparr>"
    using mode by (simp add: apply_appended_messages_def Let_def fold_append_message x p)
qed

text \<open>Files as the code writes them: a log of readable messages, and well-formed metadata with a right counter and a policy in stored form.\<close>

definition files_hold :: "file_env \<Rightarrow> message list \<Rightarrow> session_meta \<Rightarrow> session_files \<Rightarrow> bool" where
  "files_hold env ms m fs \<longleftrightarrow>
     (\<forall>x \<in> set ms. readable_message (fe_float_repr env) x)
     \<and> sf_log fs = Some (messages_text (fe_float_repr env) (fe_clock env) ms) \<and> sf_meta fs = Some (session_meta_text m)
     \<and> session_meta_wf m \<and> sm_message_count m = int (length ms) \<and> sm_pending_tokens m = pending_of m ms
     \<and> sm_retention_mode m \<noteq> RETENTION_MODE_TURN_BUDGET \<and> normalise_policy m = Inr m
     \<and> sm_created_by_account_id m \<noteq> [] \<and> sm_created_by_user_id m \<noteq> []"

lemma normalise_policy_same:
  "sm_auto_commit_policy m' = sm_auto_commit_policy m \<Longrightarrow> normalise_policy m = Inr m \<Longrightarrow> normalise_policy m' = Inr m'"
  by (auto simp: normalise_policy_def bind_res_Inr_iff split: option.splits) (metis session_meta.surjective session_meta.update_convs(20)
      session_meta.select_convs(20) option.inject)

lemma load_of_files:
  assumes "files_hold env ms m fs"
  shows "load_session env account_id user_id s fs =
    Inr (Some (s\<lparr>ses_messages := stored_messages env ms, ses_meta := m, ses_compression_index := nat (max 0 (sm_commit_count m))\<rparr>))"
proof -
  note h = assms [unfolded files_hold_def]
  have log: "load_log env s fs = Inr (Some (stored_messages env ms))"
    using h readers_of_batch(1) [of ms "fe_float_repr env"]
    by (simp add: load_log_def messages_text_batch stored_messages_def option_list_norm)
  have meta: "load_meta env s fs = Inr (Some (m, nat (max 0 (sm_commit_count m))))"
    using h by (simp add: load_meta_def read_session_meta_text)
  have same: "fill_creator account_id user_id (m\<lparr>sm_message_count := int (length ms)\<rparr>) = m"
    using h by (simp add: fill_creator_def)
  have pend: "m\<lparr>sm_pending_tokens := pending_of m (stored_messages env ms)\<rparr> = m"
    using h by (simp add: pending_of_stored)
  have policy: "normalise_policy m = Inr m" using h by blast
  show ?thesis by (simp add: load_session_def log meta same policy rebuild_pending_tokens_def pend)
qed

lemma reload_of_files:
  assumes "files_hold env ms m fs"
  shows "reload_for_append env s fs = Inr (Some (s\<lparr>ses_messages := stored_messages env ms, ses_meta := m\<rparr>))"
proof -
  note h = assms [unfolded files_hold_def]
  have "read_live_messages_strict (fe_py_str env) (fe_object env) (messages_text (fe_float_repr env) (fe_clock env) ms)
      = Inr (norm_messages (fe_clock env) (fe_object env) ms)"
    unfolding messages_text_batch by (rule readers_of_batch(2)) (use h in blast)
  with h show ?thesis by (simp add: reload_for_append_def read_session_meta_text option_list_norm stored_messages_def)
qed

text \<open>The metadata after an append.\<close>

definition appended_meta :: "file_env \<Rightarrow> message list \<Rightarrow> message list \<Rightarrow> session_meta \<Rightarrow> session_meta" where
  "appended_meta env old msgs m =
     m\<lparr>sm_pending_tokens := pending_of m (old @ msgs), sm_message_count := int (length (old @ msgs)),
       sm_total_message_count := map_option (\<lambda>n. n + int (length msgs)) (sm_total_message_count m),
       sm_last_message_at := fe_now env, sm_updated_at := fe_now env\<rparr>"

lemma append_of_files:
  assumes h: "files_hold env old m fs" and msgs: "msgs \<noteq> []" "\<forall>x \<in> set msgs. readable_message (fe_float_repr env) x"
    and run: "append_messages env [] msgs s fs = Some (s', fs', out)"
  shows "out = Returned ()" and "ses_meta s' = appended_meta env old msgs m" and "files_hold env (old @ msgs) (appended_meta env old msgs m) fs'"
    and "ses_messages s' = stored_messages env old @ msgs"
proof -
  note f = h [unfolded files_hold_def]
  let ?s = "s\<lparr>ses_messages := stored_messages env old, ses_meta := m\<rparr>"
  let ?a = "apply_appended_messages (fe_now env) msgs ?s"
  let ?body = "batch_content (fe_float_repr env) (fe_clock env) msgs"
  have mode: "sm_retention_mode (ses_meta ?s) \<noteq> RETENTION_MODE_TURN_BUDGET"
    and start: "sm_pending_tokens (ses_meta ?s) = pending_of (ses_meta ?s) (ses_messages ?s)"
    using f by (simp_all add: pending_of_stored)
  have log: "sf_log fs = Some (messages_text (fe_float_repr env) (fe_clock env) old)" using f by blast
  have run': "append_messages env [] msgs s fs = Some (save_session env [] ?a (append_log ?body fs))"
    by (simp add: append_messages_def msgs(1) reload_of_files [OF h] Let_def log)
  have meta: "(ses_meta ?a)\<lparr>sm_updated_at := fe_now env\<rparr> = appended_meta env old msgs m"
    using f msgs(1) unfolding apply_appended_keep(2) [OF mode start] by (simp add: appended_meta_def pending_of_stored)
  have out: "s' = ?a\<lparr>ses_meta := appended_meta env old msgs m\<rparr>" "fs' = write_meta (appended_meta env old msgs m) (append_log ?body fs)"
    "out = Returned ()"
    using run unfolding run' save_session_def Let_def meta by simp_all
  then show "out = Returned ()" "ses_meta s' = appended_meta env old msgs m" "ses_messages s' = stored_messages env old @ msgs"
    using apply_appended_keep(1) [OF mode start] by simp_all
  have same: "pending_of (appended_meta env old msgs m) = pending_of m"
    by (rule ext) (rule pending_of_same_policy; simp add: appended_meta_def)
  have whole: "messages_text (fe_float_repr env) (fe_clock env) old @ ?body = messages_text (fe_float_repr env) (fe_clock env) (old @ msgs)"
    by (simp add: messages_text_batch batch_content_append)
  have "normalise_policy (appended_meta env old msgs m) = Inr (appended_meta env old msgs m)"
    by (rule normalise_policy_same [of _ m]) (use f in \<open>simp_all add: appended_meta_def\<close>)
  moreover have "session_meta_wf (appended_meta env old msgs m)"
    using f by (auto simp: session_meta_wf_def appended_meta_def pending_of_keep)
  moreover have "sf_log fs' = Some (messages_text (fe_float_repr env) (fe_clock env) (old @ msgs))"
    "sf_meta fs' = Some (session_meta_text (appended_meta env old msgs m))"
    using log whole by (simp_all add: out(2) write_meta_def append_log_def)
  ultimately show "files_hold env (old @ msgs) (appended_meta env old msgs m) fs'"
    using f msgs(2) unfolding files_hold_def same by (simp add: appended_meta_def ball_Un)
qed


definition files_env_sample :: file_env where
  "files_env_sample = \<lparr>fe_now = ''t2'', fe_clock = (\<lambda>m. ''t1''), fe_float_repr = log_repr, fe_py_str = (\<lambda>v. []), fe_object = 0\<rparr>"

definition files_meta_sample :: session_meta where
  "files_meta_sample = (let m = new_session_meta ''s'' ''t0'' ''acme'' ''u''
     in m\<lparr>sm_message_count := 2, sm_pending_tokens := pending_of m log_sample\<rparr>)"

definition files_sample :: session_files where
  "files_sample = \<lparr>sf_log = Some (messages_text log_repr (\<lambda>m. ''t1'') log_sample), sf_meta = Some (session_meta_text files_meta_sample),
     sf_history = None, sf_root = True\<rparr>"

lemma files_sample_hold: "files_hold files_env_sample log_sample files_meta_sample files_sample"
proof -
  have p: "pending_of files_meta_sample = pending_of (new_session_meta ''s'' ''t0'' ''acme'' ''u'')"
    by (rule ext) (rule pending_of_same_policy; simp add: files_meta_sample_def Let_def)
  have mode: "sm_retention_mode (new_session_meta ''s'' ''t0'' ''acme'' ''u'') \<noteq> RETENTION_MODE_TURN_BUDGET"
    by (simp add: new_session_meta_def RETENTION_MODE_TURN_BUDGET_def)
  have "session_meta_wf files_meta_sample"
    using mode by (simp add: session_meta_wf_def files_meta_sample_def Let_def pending_of_keep)
      (simp add: new_session_meta_def LLM_USAGE_KEYS_def EMBEDDING_USAGE_KEYS_def default_memory_counts_def dict_or_null_def)
  moreover have "length log_sample = 2" by (simp add: log_sample_def)
  ultimately show ?thesis
    using log_sample_readable mode unfolding files_hold_def p
    by (simp add: files_sample_def files_env_sample_def)
      (simp add: files_meta_sample_def Let_def new_session_meta_def normalise_policy_def)
qed


section \<open>Appends of several workers\<close>

text \<open>A run of appends: which worker, which messages, which events of the writes. Every worker has a session object of its own, which may be stale.\<close>

fun run_appends :: "file_env \<Rightarrow> (nat \<times> message list \<times> io_event list) list \<Rightarrow> (nat \<Rightarrow> session) \<Rightarrow> session_files
    \<Rightarrow> ((nat \<Rightarrow> session) \<times> session_files \<times> unit outcome list) option" where
  "run_appends env [] ws fs = Some (ws, fs, [])"
| "run_appends env ((w, msgs, evs) # ops) ws fs =
     (case append_messages env evs msgs (ws w) fs of
        None \<Rightarrow> None
      | Some (s, fs, out) \<Rightarrow>
          map_option (\<lambda>(ws, fs, outs). (ws, fs, out # outs)) (run_appends env ops (ws(w := s)) fs))"

lemma reload_ok:
  assumes "\<forall>x \<in> set ms. readable_message (fe_float_repr env) x"
    and "sf_log fs = Some (messages_text (fe_float_repr env) (fe_clock env) ms)"
  shows "\<exists>r. reload_for_append env s fs = Inr r"
  using readers_of_batch(2) [OF assms(1), of "fe_py_str env" "fe_object env" "fe_clock env"] assms(2)
  by (simp add: reload_for_append_def messages_text_batch)

lemma save_session_log: "sf_log (fst (snd (save_session env evs s fs))) = sf_log fs"
  unfolding save_session_def Let_def fst_conv snd_conv
  by (rule run_writes_inv [where P = "\<lambda>t. sf_log t = sf_log fs"]) (auto simp: write_meta_def)

text \<open>One append adds its whole batch or nothing, and the whole batch if it returns.\<close>

lemma append_log_step:
  assumes old: "\<forall>x \<in> set old. readable_message (fe_float_repr env) x"
    and log: "sf_log fs = Some (messages_text (fe_float_repr env) (fe_clock env) old)"
    and run: "append_messages env evs msgs s fs = Some (s', fs', out)"
  shows "\<exists>k. (out = Returned () \<longrightarrow> k) \<and> sf_log fs' = Some (messages_text (fe_float_repr env) (fe_clock env) (old @ (if k then msgs else [])))"
proof (cases "msgs = []")
  case True
  then show ?thesis using run log by (intro exI [of _ True]) (simp add: append_messages_def)
next
  case False
  obtain t where t: "reload_for_append env s fs = Inr (Some t)"
    using reload_ok [OF old log, of s] run False by (auto simp: append_messages_def split: option.splits)
  let ?a = "apply_appended_messages (fe_now env) msgs t"
  let ?w = "append_log (batch_content (fe_float_repr env) (fe_clock env) msgs)"
  have out: "(s', fs', out) = (case snd (run_writes [?w] evs fs) of
      Completed es \<Rightarrow> save_session env es ?a (fst (run_writes [?w] evs fs))
    | Raised es \<Rightarrow> (?a, fst (run_writes [?w] evs fs), Failed StoreError)
    | Crashed \<Rightarrow> (?a, fst (run_writes [?w] evs fs), Died))"
    using run False by (simp add: append_messages_def t log Let_def split: run_end.splits)
  obtain j where j: "j \<le> 1" "fst (run_writes [?w] evs fs) = fold (\<lambda>w. w) (take j [?w]) fs"
    "\<And>es. snd (run_writes [?w] evs fs) = Completed es \<Longrightarrow> j = 1"
    using run_writes_prefix [of "[?w]" evs fs] by auto
  have "sf_log fs' = sf_log (fst (run_writes [?w] evs fs))"
    using out save_session_log [of env _ ?a "fst (run_writes [?w] evs fs)"] by (auto split: run_end.splits) (metis fst_conv snd_conv)
  moreover have "sf_log (fst (run_writes [?w] evs fs)) = Some (messages_text (fe_float_repr env) (fe_clock env) (old @ (if j = 1 then msgs else [])))"
    using j(1,2) log by (cases j) (auto simp: append_log_def messages_text_batch batch_content_append)
  moreover have "out = Returned () \<longrightarrow> j = 1" using out j(3) by (auto split: run_end.splits)
  ultimately show ?thesis by metis
qed

text \<open>The messages of the batches that are kept.\<close>

definition kept_messages :: "bool list \<Rightarrow> (nat \<times> message list \<times> io_event list) list \<Rightarrow> message list" where
  "kept_messages kept ops = concat (map (\<lambda>(k, w, msgs, evs). if k then msgs else []) (zip kept ops))"

lemma run_appends_log:
  assumes "run_appends env ops ws fs = Some (ws', fs', outs)"
    and "\<forall>x \<in> set old. readable_message (fe_float_repr env) x"
    and "\<forall>(w, msgs, evs) \<in> set ops. \<forall>x \<in> set msgs. readable_message (fe_float_repr env) x"
    and "sf_log fs = Some (messages_text (fe_float_repr env) (fe_clock env) old)"
  shows "\<exists>kept. length kept = length ops \<and> list_all2 (\<lambda>out k. out = Returned () \<longrightarrow> k) outs kept
    \<and> sf_log fs' = Some (messages_text (fe_float_repr env) (fe_clock env) (old @ kept_messages kept ops))"
  using assms
proof (induction env ops ws fs arbitrary: old outs rule: run_appends.induct)
  case (1 env ws fs)
  then show ?case by (simp add: kept_messages_def)
next
  case (2 env w msgs evs ops ws fs)
  obtain s fs1 out where a: "append_messages env evs msgs (ws w) fs = Some (s, fs1, out)"
    using "2.prems"(1) by (auto split: option.splits)
  obtain outs' where r: "run_appends env ops (ws(w := s)) fs1 = Some (ws', fs', outs')" "outs = out # outs'"
    using "2.prems"(1) a by auto
  obtain k where k: "out = Returned () \<longrightarrow> k"
    "sf_log fs1 = Some (messages_text (fe_float_repr env) (fe_clock env) (old @ (if k then msgs else [])))"
    using append_log_step [OF "2.prems"(2,4) a] by blast
  have "\<forall>x \<in> set (old @ (if k then msgs else [])). readable_message (fe_float_repr env) x"
    using "2.prems"(2,3) by auto
  from "2.IH" [OF a refl refl r(1) this _ k(2)] "2.prems"(3)
  obtain kept where "length kept = length ops" "list_all2 (\<lambda>out k. out = Returned () \<longrightarrow> k) outs' kept"
    "sf_log fs' = Some (messages_text (fe_float_repr env) (fe_clock env) ((old @ (if k then msgs else [])) @ kept_messages kept ops))"
    by auto
  then show ?case using k(1) by (intro exI [of _ "k # kept"]) (simp add: r(2) kept_messages_def)
qed



end
