(* ===== verification/Session_Checkpoints.thy ===== *)
theory Session_Checkpoints
  imports Session_Files Retrieval_Targets
begin

text \<open>
  What a reader of a session gets besides the live log: the states of the archives and which of them a completion covers, the checkpoints of
  partly archived turns (their records, the requests and the budget of a new one, the effective ones of the history, their insertion), and the
  assembled context under a token budget, of \<open>openviking/session/session.py\<close>. An archive is given by the contents of its files, \<open>None\<close> for a
  missing one; the overview is given as read, since the reader of front matter is not part of this model. Message ids in stored JSON are Latin-1.
\<close>

section \<open>Archives and their states\<close>

record archive_view =
  av_id :: string
  av_uri :: string
  av_index :: nat
  av_done :: "utext option"
  av_failed :: "utext option"
  av_overview :: "utext res"
  av_meta :: "(utext \<times> json) list"
  av_log :: "utext option"

record archive_scan =
  sc_id :: string
  sc_uri :: string
  sc_index :: nat
  sc_state :: archive_state
  sc_overview :: utext
  sc_done :: "(utext \<times> json) list"
  sc_failed :: "(utext \<times> json) list"

text \<open>A marker whose content is unreadable or no object counts with empty content.\<close>

definition marker_dict :: "utext \<Rightarrow> (utext \<times> json) list" where
  "marker_dict body = (case loads (if body = [] then cps ''{}'' else body) of Inr (JDict d) \<Rightarrow> d | _ \<Rightarrow> [])"

definition scan_archive :: "archive_view \<Rightarrow> archive_scan res" where
  "scan_archive v =
     (let base = \<lparr>sc_id = av_id v, sc_uri = av_uri v, sc_index = av_index v, sc_state = ArchivePending, sc_overview = [],
                  sc_done = [], sc_failed = []\<rparr>
      in case av_done v of
           Some body \<Rightarrow>
             (let done_dict = marker_dict body
              in if map_of done_dict (cps ''working_memory_enabled'') = Some (JBool True)
                 then bind_res (av_overview v) (\<lambda>overview.
                        if strip_text overview = []
                        then Inr (base\<lparr>sc_state := ArchiveFailed, sc_done := done_dict,
                               sc_failed := [(cps ''stage'', jstr ''archive_overview''),
                                             (cps ''error'', jstr ''required overview is missing or unreadable'')]\<rparr>)
                        else Inr (base\<lparr>sc_state := ArchiveCompleted, sc_overview := overview, sc_done := done_dict\<rparr>))
                 else Inr (base\<lparr>sc_state := ArchiveCompleted, sc_done := done_dict\<rparr>))
         | None \<Rightarrow>
             (case av_failed v of
                Some body \<Rightarrow> Inr (base\<lparr>sc_state := ArchiveFailed, sc_failed := marker_dict body\<rparr>)
              | None \<Rightarrow> Inr base))"

fun scan_all :: "archive_view list \<Rightarrow> archive_scan list res" where
  "scan_all [] = Inr []"
| "scan_all (v # vs) = bind_res (scan_archive v) (\<lambda>s. bind_res (scan_all vs) (\<lambda>ss. Inr (s # ss)))"

definition scan_archive_states :: "archive_view list \<Rightarrow> archive_scan list res" where
  "scan_archive_states vs = scan_all (sort_key av_index vs)"

definition coverage_index :: "(utext \<times> json) list \<Rightarrow> string \<Rightarrow> nat \<Rightarrow> nat" where
  "coverage_index d key index =
     (case Option.bind (Option.bind (map_of d (cps key)) json_str) archive_number of None \<Rightarrow> index | Some n \<Rightarrow> n)"

definition coverage_range :: "archive_scan \<Rightarrow> nat \<times> nat" where
  "coverage_range s =
     (let i = sc_index s; a = coverage_index (sc_done s) ''coverage_start_archive'' i;
          b = coverage_index (sc_done s) ''coverage_end_archive'' i
      in (max 1 (min (min a b) i), min i (max a b)))"

definition existing_state :: "archive_scan list \<Rightarrow> string \<Rightarrow> archive_scan option" where
  "existing_state ss i = map_of (rev (map (\<lambda>s. (sc_id s, s)) ss)) i"

definition explicit_covered :: "archive_scan list \<Rightarrow> archive_scan \<Rightarrow> string list" where
  "explicit_covered ss s =
     (case map_of (sc_done s) (cps ''covered_failed_archives'') of
        Some (JList vs) \<Rightarrow>
          filter (\<lambda>i. case existing_state ss i of None \<Rightarrow> False
                      | Some t \<Rightarrow> sc_index t \<le> sc_index s \<and> sc_state t = ArchiveFailed) (List.map_filter json_str vs)
      | _ \<Rightarrow> [])"

definition covered_archive_ids :: "archive_scan list \<Rightarrow> string set" where
  "covered_archive_ids ss =
     set (concat (map (\<lambda>s. if sc_state s \<noteq> ArchiveCompleted then []
        else map sc_id (filter (\<lambda>c. fst (coverage_range s) \<le> sc_index c \<and> sc_index c \<le> snd (coverage_range s) \<and> sc_state c \<noteq> ArchivePending) ss)
             @ explicit_covered ss s) ss))"

text \<open>The raw messages of the archives that are neither covered nor completed; an archive without a log is skipped.\<close>

fun read_logs :: "(json \<Rightarrow> utext) \<Rightarrow> nat \<Rightarrow> utext option list \<Rightarrow> message list option res" where
  "read_logs py_str obj [] = Inr (Some [])"
| "read_logs py_str obj (None # bodies) = read_logs py_str obj bodies"
| "read_logs py_str obj (Some body # bodies) =
     bind_res (read_archive_messages py_str obj body) (\<lambda>ms.
     bind_res (read_logs py_str (obj + length ms) bodies) (\<lambda>rest.
       Inr (Option.bind (option_list ms) (\<lambda>ms. map_option (\<lambda>r. ms @ r) rest))))"

definition log_at :: "archive_view list \<Rightarrow> string \<Rightarrow> utext option" where
  "log_at vs u = Option.bind (map_of (map (\<lambda>v. (av_uri v, av_log v)) vs) u) id"

definition meta_at :: "archive_view list \<Rightarrow> string \<Rightarrow> (utext \<times> json) list" where
  "meta_at vs u = (case map_of (map (\<lambda>v. (av_uri v, av_meta v)) vs) u of None \<Rightarrow> [] | Some d \<Rightarrow> d)"

definition uncovered_archives :: "archive_scan list \<Rightarrow> archive_scan list" where
  "uncovered_archives ss = filter (\<lambda>s. sc_id s \<notin> covered_archive_ids ss \<and> sc_state s \<noteq> ArchiveCompleted) ss"

definition uncovered_archive_messages :: "(json \<Rightarrow> utext) \<Rightarrow> nat \<Rightarrow> archive_view list \<Rightarrow> message list option res" where
  "uncovered_archive_messages py_str obj vs =
     bind_res (scan_archive_states vs) (\<lambda>ss.
     bind_res (read_logs py_str obj (map (\<lambda>s. log_at vs (sc_uri s)) (uncovered_archives ss))) (\<lambda>ms.
       Inr (map_option (dedup_messages {}) ms)))"

text \<open>Completed archives, the newest first.\<close>

record archive_ref =
  ar_id :: string
  ar_uri :: string
  ar_index :: nat

definition completed_archive_refs :: "string option \<Rightarrow> nat option \<Rightarrow> archive_scan list \<Rightarrow> archive_ref list" where
  "completed_archive_refs exclude before ss =
     map (\<lambda>s. \<lparr>ar_id = sc_id s, ar_uri = sc_uri s, ar_index = sc_index s\<rparr>)
       (filter (\<lambda>s. \<not> (case exclude of None \<Rightarrow> False | Some e \<Rightarrow> rstrip_by (\<lambda>c. c = CHR ''/'') e \<noteq> [] \<and> sc_uri s = rstrip_by (\<lambda>c. c = CHR ''/'') e)
                    \<and> (case before of None \<Rightarrow> True | Some b \<Rightarrow> sc_index s < b) \<and> sc_state s = ArchiveCompleted) (rev ss))"

section \<open>Checkpoint records\<close>

definition CUMULATIVE_CHECKPOINT_VERSION :: int where
  "CUMULATIVE_CHECKPOINT_VERSION = 2"

record checkpoint_record =
  cr_sources :: "string list"
  cr_abstract :: utext
  cr_version :: int

definition string_ids :: "json list \<Rightarrow> string list" where
  "string_ids vs = filter (\<lambda>s. s \<noteq> []) (List.map_filter json_str vs)"

definition checkpoint_version :: "(utext \<times> json) list \<Rightarrow> int res" where
  "checkpoint_version d =
     (case py_int (get_or d ''checkpoint_version'' (JInt 1)) of
        Inr n \<Rightarrow> Inr (max 1 n)
      | Inl e \<Rightarrow> if e = TypeError \<or> is_value_error e then Inr 1 else Inl e)"

definition checkpoint_of :: "string set \<Rightarrow> json \<Rightarrow> (string \<times> checkpoint_record) option res" where
  "checkpoint_of anchors v =
     (case v of
        JDict d \<Rightarrow>
          (case (Option.bind (map_of d (cps ''turn_anchor_message_id'')) json_str, map_of d (cps ''source_message_ids''),
                 Option.bind (map_of d (cps ''abstract'')) json_text) of
             (Some a, Some (JList sources), Some t) \<Rightarrow>
               if a \<notin> anchors \<or> sources = [] \<or> strip_text t = [] \<or> string_ids sources = [] then Inr None
               else bind_res (checkpoint_version d) (\<lambda>n.
                      Inr (Some (a, \<lparr>cr_sources = string_ids sources, cr_abstract = strip_text t, cr_version = n\<rparr>)))
           | _ \<Rightarrow> Inr None)
      | _ \<Rightarrow> Inr None)"

fun group_checkpoints :: "string set \<Rightarrow> json list \<Rightarrow> (string \<times> checkpoint_record list) list
    \<Rightarrow> (string \<times> checkpoint_record list) list res" where
  "group_checkpoints anchors [] grouped = Inr grouped"
| "group_checkpoints anchors (v # vs) grouped =
     bind_res (checkpoint_of anchors v) (\<lambda>r.
       case r of
         None \<Rightarrow> group_checkpoints anchors vs grouped
       | Some (a, c) \<Rightarrow>
           group_checkpoints anchors vs
             (AList.update a ((case map_of grouped a of None \<Rightarrow> [] | Some cs \<Rightarrow> cs) @ [c]) grouped))"

definition checkpoint_records_for_anchors :: "(utext \<times> json) list \<Rightarrow> string set \<Rightarrow> (string \<times> checkpoint_record list) list res" where
  "checkpoint_records_for_anchors meta anchors =
     (case map_of meta (cps ''checkpoints'') of Some (JList vs) \<Rightarrow> group_checkpoints anchors vs [] | _ \<Rightarrow> Inr [])"

definition cumulative_records :: "checkpoint_record list \<Rightarrow> checkpoint_record list" where
  "cumulative_records cs = filter (\<lambda>c. cr_version c \<ge> CUMULATIVE_CHECKPOINT_VERSION) cs"

fun join_paragraphs :: "utext list \<Rightarrow> utext" where
  "join_paragraphs [] = []"
| "join_paragraphs [t] = t"
| "join_paragraphs (t # ts) = t @ [10, 10] @ join_paragraphs ts"

section \<open>Effective checkpoints of the history\<close>

record checkpoint_chunk =
  cc_sources :: "string list"
  cc_abstract :: utext
  cc_archive_id :: string
  cc_archive_uri :: string

record checkpoint_history =
  ch_base :: "checkpoint_chunk option"
  ch_legacy :: "checkpoint_chunk list"
  ch_resolved :: bool

definition chunk_of :: "archive_ref \<Rightarrow> checkpoint_record \<Rightarrow> checkpoint_chunk" where
  "chunk_of r c = \<lparr>cc_sources = cr_sources c, cc_abstract = cr_abstract c, cc_archive_id = ar_id r, cc_archive_uri = ar_uri r\<rparr>"

definition add_records :: "archive_ref \<Rightarrow> checkpoint_record list \<Rightarrow> checkpoint_history \<Rightarrow> checkpoint_history" where
  "add_records r cs h =
     (if cumulative_records cs \<noteq> [] then h\<lparr>ch_base := Some (chunk_of r (last (cumulative_records cs))), ch_resolved := True\<rparr>
      else h\<lparr>ch_legacy := ch_legacy h @
             [\<lparr>cc_sources = dedupe_list (concat (map cr_sources cs)), cc_abstract = join_paragraphs (map cr_abstract cs),
               cc_archive_id = ar_id r, cc_archive_uri = ar_uri r\<rparr>]\<rparr>)"

definition unresolved_anchors :: "(string \<times> checkpoint_history) list \<Rightarrow> string set" where
  "unresolved_anchors hs = set (map fst (filter (\<lambda>(a, h). \<not> ch_resolved h) hs))"

fun scan_checkpoints :: "(string \<Rightarrow> (utext \<times> json) list) \<Rightarrow> archive_ref list \<Rightarrow> (string \<times> checkpoint_history) list
    \<Rightarrow> (string \<times> checkpoint_history) list res" where
  "scan_checkpoints metas [] hs = Inr hs"
| "scan_checkpoints metas (r # rs) hs =
     (if unresolved_anchors hs = {} then Inr hs
      else bind_res (checkpoint_records_for_anchors (metas (ar_uri r)) (unresolved_anchors hs)) (\<lambda>grouped.
             scan_checkpoints metas rs
               (map (\<lambda>(a, h). (a, case map_of grouped a of None \<Rightarrow> h | Some cs \<Rightarrow> add_records r cs h)) hs)))"

fun merge_chunks :: "checkpoint_chunk list \<Rightarrow> string list \<times> utext list \<Rightarrow> string list \<times> utext list" where
  "merge_chunks [] acc = acc"
| "merge_chunks (c # cs) (sources, abstracts) =
     (let fresh = filter (\<lambda>s. s \<notin> set sources) (cc_sources c)
      in if fresh = [] then merge_chunks cs (sources, abstracts)
         else merge_chunks cs (sources @ fresh, abstracts @ [cc_abstract c]))"

definition snapshot_of :: "checkpoint_history \<Rightarrow> checkpoint_chunk option" where
  "snapshot_of h =
     (let chunks = (case ch_base h of None \<Rightarrow> [] | Some b \<Rightarrow> [b]) @ rev (ch_legacy h); merged = merge_chunks chunks ([], [])
      in case (if ch_legacy h \<noteq> [] then Some (hd (ch_legacy h)) else ch_base h) of
           None \<Rightarrow> None
         | Some newest \<Rightarrow>
             if fst merged = [] \<or> snd merged = [] then None
             else Some \<lparr>cc_sources = fst merged, cc_abstract = join_paragraphs (snd merged), cc_archive_id = cc_archive_id newest,
                        cc_archive_uri = cc_archive_uri newest\<rparr>)"

definition effective_checkpoints :: "archive_view list \<Rightarrow> nat option \<Rightarrow> string list \<Rightarrow> (string \<times> checkpoint_chunk) list res" where
  "effective_checkpoints vs before anchors =
     (if anchors = [] then Inr []
      else
        bind_res (scan_archive_states vs) (\<lambda>ss.
        bind_res (scan_checkpoints (meta_at vs) (completed_archive_refs None before ss)
          (map (\<lambda>a. (a, \<lparr>ch_base = None, ch_legacy = [], ch_resolved = False\<rparr>)) anchors))
        (\<lambda>hs. Inr (List.map_filter (\<lambda>(a, h). map_option (Pair a) (snapshot_of h)) hs))))"

section \<open>Requests for new checkpoints\<close>

record checkpoint_request =
  rq_anchor :: string
  rq_sources :: "string list"
  rq_budget :: int
  rq_active_tokens :: int
  rq_previous_abstract :: utext
  rq_previous_sources :: "string list"

text \<open>The index of a message is its last position, as in a dict built from left to right; so is the turn that owns it.\<close>

definition message_order :: "message list \<Rightarrow> string \<Rightarrow> nat option" where
  "message_order ms i = map_of (rev (zip (map msg_id ms) [0..<length ms])) i"

definition owner_anchor :: "message list \<Rightarrow> string \<Rightarrow> string option" where
  "owner_anchor ms i =
     Option.bind (map_of (rev (concat (map (\<lambda>t. map (\<lambda>m. (msg_id m, map_option msg_id (anchor t))) (turn_messages t)) (build_turns ms)))) i) id"

definition message_by_id :: "message list \<Rightarrow> string \<Rightarrow> message option" where
  "message_by_id ms i = map_of (rev (map (\<lambda>m. (msg_id m, m)) ms)) i"

definition plan_sources :: "message list \<Rightarrow> (utext \<times> json) list \<Rightarrow> (string \<times> string list) res" where
  "plan_sources ms plan =
     (case Option.bind (map_of plan (cps ''turn_anchor_message_id'')) json_str of
        None \<Rightarrow> Inl ValueError
      | Some a \<Rightarrow>
          if a = [] then Inl ValueError
          else
            (case map_of plan (cps ''checkpoint_source_message_ids'') of
               Some (JList raw) \<Rightarrow>
                 let sources = string_ids raw
                 in if raw = [] \<or> length sources \<noteq> length raw \<or> \<not> set (a # sources) \<subseteq> set (map msg_id ms)
                       \<or> list_ex (\<lambda>s. (case message_by_id ms s of None \<Rightarrow> False | Some m \<Rightarrow> is_user_query m) \<or> owner_anchor ms s \<noteq> Some a) sources
                    then Inl ValueError else Inr (a, sources)
             | _ \<Rightarrow> Inl ValueError))"

text \<open>The requests collected so far: for each anchor the sources, and the budget and the tokens of the newest plan.\<close>

fun collect_plans :: "message list \<Rightarrow> (utext \<times> json) list list \<Rightarrow> (string \<times> string list \<times> int \<times> int) list
    \<Rightarrow> (string \<times> string list \<times> int \<times> int) list res" where
  "collect_plans ms [] acc = Inr acc"
| "collect_plans ms (meta # metas) acc =
     (case map_of meta (cps ''retention_plan'') of
        Some (JDict plan) \<Rightarrow>
          if \<not> (case map_of plan (cps ''partial_turn'') of None \<Rightarrow> False | Some v \<Rightarrow> truthy_json v) then collect_plans ms metas acc
          else
            bind_res (plan_sources ms plan) (\<lambda>(a, sources).
            bind_res (non_negative_field plan ''retained_message_token_budget'' 0) (\<lambda>budget.
            bind_res (non_negative_field plan ''estimated_active_tokens'' 0) (\<lambda>active.
              collect_plans ms metas
                (AList.update a (dedupe_list ((case map_of acc a of None \<Rightarrow> [] | Some (old, _) \<Rightarrow> old) @ sources), budget, active) acc))))
      | _ \<Rightarrow> collect_plans ms metas acc)"

definition order_of :: "message list \<Rightarrow> string \<Rightarrow> nat" where
  "order_of ms i = (case message_order ms i of None \<Rightarrow> 0 | Some n \<Rightarrow> n)"

definition archive_ids_of_phase2 :: "string list \<Rightarrow> string \<Rightarrow> string list" where
  "archive_ids_of_phase2 covered current =
     sort_key (\<lambda>i. the (archive_number i)) (dedupe_list (filter (\<lambda>i. archive_number i \<noteq> None) (covered @ [current])))"

definition collect_checkpoint_requests :: "archive_view list \<Rightarrow> string \<Rightarrow> string \<Rightarrow> nat \<Rightarrow> string list
    \<Rightarrow> message list \<Rightarrow> checkpoint_request list res" where
  "collect_checkpoint_requests vs archive_root current index covered ms =
     bind_res (collect_plans ms (map (\<lambda>i. meta_at vs (archive_root @ ''/'' @ i)) (archive_ids_of_phase2 covered current)) []) (\<lambda>merged.
       let requests = sort_key (\<lambda>r. Min (set (map (order_of ms) (rq_sources r))))
             (map (\<lambda>(a, sources, budget, active). \<lparr>rq_anchor = a, rq_sources = sort_key (order_of ms) sources, rq_budget = budget,
                     rq_active_tokens = active, rq_previous_abstract = [], rq_previous_sources = []\<rparr>) merged)
       in bind_res (effective_checkpoints vs (Some index) (map rq_anchor requests)) (\<lambda>previous.
            Inr (map (\<lambda>r. case map_of previous (rq_anchor r) of
                        None \<Rightarrow> r
                      | Some c \<Rightarrow> r\<lparr>rq_previous_abstract := cc_abstract c, rq_previous_sources := cc_sources c\<rparr>) requests)))"

section \<open>New checkpoint records\<close>

definition checkpoint_budget :: "checkpoint_request \<Rightarrow> int" where
  "checkpoint_budget r =
     (if rq_budget r > 0
      then let available = rq_budget r - rq_active_tokens r in if available > 0 then min 1024 available else min 256 (rq_budget r)
      else 1024)"

definition checkpoint_json :: "checkpoint_request \<Rightarrow> utext \<Rightarrow> json" where
  "checkpoint_json r abstract =
     JDict [(cps ''checkpoint_version'', JInt CUMULATIVE_CHECKPOINT_VERSION), (cps ''turn_anchor_message_id'', jstr (rq_anchor r)),
            (cps ''source_message_ids'', JList (map jstr (dedupe_list (rq_previous_sources r @ rq_sources r)))),
            (cps ''abstract'', JStr abstract), (cps ''estimated_tokens'', JInt (estimate_text_tokens abstract))]"

definition fit_summary :: "checkpoint_request \<Rightarrow> utext \<Rightarrow> utext" where
  "fit_summary r summary = truncate_text_to_token_budget (strip_text summary) (max 1 (checkpoint_budget r)) default_marker (3/4)"

fun build_records :: "(checkpoint_request \<times> utext) list \<Rightarrow> json list res" where
  "build_records [] = Inr []"
| "build_records ((r, summary) # rest) =
     (if strip_text summary = [] \<or> fit_summary r summary = [] then Inl ValueError
      else bind_res (build_records rest) (\<lambda>vs. Inr (checkpoint_json r (fit_summary r summary) # vs)))"

definition build_checkpoint_records :: "checkpoint_request list \<Rightarrow> utext list \<Rightarrow> json list res" where
  "build_checkpoint_records requests summaries =
     (if length summaries \<noteq> length requests then Inl ValueError else build_records (zip requests summaries))"

section \<open>Insertion\<close>

definition checkpoint_message :: "nat \<Rightarrow> message \<Rightarrow> checkpoint_chunk \<Rightarrow> message" where
  "checkpoint_message obj m c =
     \<lparr>msg_object = obj, msg_id = ''checkpoint_'' @ cc_archive_id c @ ''_'' @ msg_id m, role = ''assistant'',
      parts = [ContextPart (cc_archive_uri c) ''memory'' (cc_abstract c)], msg_peer_id = None, created_at = created_at m,
      turn_id = turn_id m, message_kind = Some ''checkpoint'', source_message_ids = Some (cc_sources c)\<rparr>"

fun insert_checkpoints :: "nat \<Rightarrow> (string \<times> checkpoint_chunk) list \<Rightarrow> message list \<Rightarrow> message list" where
  "insert_checkpoints obj cands [] = []"
| "insert_checkpoints obj cands (m # ms) =
     (case map_of cands (msg_id m) of
        Some c \<Rightarrow> if cc_abstract c = [] then m # insert_checkpoints obj cands ms
                  else m # checkpoint_message obj m c # insert_checkpoints (Suc obj) cands ms
      | None \<Rightarrow> m # insert_checkpoints obj cands ms)"

definition insert_terminal_checkpoints :: "archive_view list \<Rightarrow> nat \<Rightarrow> archive_ref option
    \<Rightarrow> message list \<Rightarrow> message list res" where
  "insert_terminal_checkpoints vs obj terminal ms =
     (case terminal of
        None \<Rightarrow> Inr ms
      | Some t \<Rightarrow>
          if ms = [] then Inr ms
          else
            bind_res (checkpoint_records_for_anchors (meta_at vs (ar_uri t)) (set (map msg_id ms))) (\<lambda>grouped.
              let newest = List.map_filter (\<lambda>(a, cs). if cumulative_records cs = [] then None
                             else Some (a, chunk_of t (last (cumulative_records cs)))) grouped;
                  legacy = map fst (filter (\<lambda>(a, cs). cumulative_records cs = []) grouped)
              in bind_res (effective_checkpoints vs (Some (Suc (ar_index t))) legacy) (\<lambda>older.
                   Inr (insert_checkpoints obj (older @ newest) ms))))"

section \<open>The context of a reader\<close>

definition view_state :: "archive_view \<Rightarrow> archive_state" where
  "view_state v = (if av_done v \<noteq> None then ArchiveCompleted else if av_failed v \<noteq> None then ArchiveFailed else ArchivePending)"

definition overview_tokens :: "archive_view \<Rightarrow> utext \<Rightarrow> int" where
  "overview_tokens v overview =
     (let estimate = estimate_text_tokens overview
      in case py_int (get_or (av_meta v) ''overview_tokens'' (JInt estimate)) of Inr n \<Rightarrow> max estimate n | Inl e \<Rightarrow> estimate)"

record reader_context =
  rx_latest :: "(utext \<times> int) option"
  rx_total :: nat
  rx_failed :: nat
  rx_messages :: "message list"

text \<open>The newest archive that is not pending, if any: its overview when it is completed and readable, else one failed archive.\<close>

definition latest_archive :: "archive_view option \<Rightarrow> ((utext \<times> int) option \<times> nat) res" where
  "latest_archive terminal =
     (case terminal of
        None \<Rightarrow> Inr (None, 0)
      | Some v \<Rightarrow>
          if view_state v = ArchiveCompleted
          then bind_res (av_overview v) (\<lambda>body.
                 let overview = strip_text body
                 in if overview = [] then Inr (None, 1) else Inr (Some (overview, overview_tokens v overview), 0))
          else Inr (None, 1))"

definition collect_context :: "(json \<Rightarrow> utext) \<Rightarrow> nat \<Rightarrow> archive_view list \<Rightarrow> message list \<Rightarrow> reader_context option res" where
  "collect_context py_str obj vs live =
     (let refs = sort_key (\<lambda>v. - int (av_index v)) vs;
          newer = takeWhile (\<lambda>v. view_state v = ArchivePending) refs;
          terminal = (case dropWhile (\<lambda>v. view_state v = ArchivePending) refs of [] \<Rightarrow> None | v # _ \<Rightarrow> Some v)
      in bind_res (latest_archive terminal) (\<lambda>(latest, failed).
         bind_res (read_logs py_str obj (map av_log (rev newer))) (\<lambda>raw.
           case raw of
             None \<Rightarrow> Inr None
           | Some ms \<Rightarrow>
               let merged = dedup_messages {} (ms @ live);
                   completed = (case terminal of None \<Rightarrow> None
                     | Some v \<Rightarrow> if view_state v = ArchiveCompleted
                                 then Some \<lparr>ar_id = av_id v, ar_uri = av_uri v, ar_index = av_index v\<rparr> else None)
               in bind_res (insert_terminal_checkpoints vs (obj + length ms) completed merged) (\<lambda>shown.
                    Inr (Some \<lparr>rx_latest = latest, rx_total = length vs, rx_failed = failed, rx_messages = shown\<rparr>)))))"

record context_response =
  cx_overview :: utext
  cx_messages :: "message list"
  cx_estimated :: int
  cx_total :: int
  cx_included :: int
  cx_dropped :: int
  cx_failed :: int
  cx_active :: int
  cx_archive :: int

definition get_session_context :: "(json \<Rightarrow> utext) \<Rightarrow> nat \<Rightarrow> archive_view list \<Rightarrow> message list \<Rightarrow> int \<Rightarrow> context_response option res" where
  "get_session_context py_str obj vs live token_budget =
     (if token_budget < 0 then Inl ValueError
      else
        bind_res (collect_context py_str obj vs live) (\<lambda>c. Inr (map_option (\<lambda>c.
          let fitted = fit_active_messages_to_budget (rx_messages c) token_budget;
              message_cost = ab_estimated_tokens fitted;
              remaining = max 0 (token_budget - message_cost);
              included = (case rx_latest c of Some (shown, n) \<Rightarrow> if n \<le> remaining then Some (shown, n) else None | None \<Rightarrow> None);
              archive_cost = (case included of None \<Rightarrow> 0 | Some (shown, n) \<Rightarrow> n)
          in \<lparr>cx_overview = (case included of None \<Rightarrow> [] | Some (shown, n) \<Rightarrow> shown), cx_messages = ab_messages fitted,
              cx_estimated = message_cost + archive_cost, cx_total = int (rx_total c), cx_included = 0,
              cx_dropped = max 0 (int (rx_total c) - int (rx_failed c)), cx_failed = int (rx_failed c),
              cx_active = message_cost, cx_archive = archive_cost\<rparr>) c)))"

definition get_context_for_search :: "(json \<Rightarrow> utext) \<Rightarrow> nat \<Rightarrow> archive_view list \<Rightarrow> message list \<Rightarrow> int
    \<Rightarrow> (utext \<times> message list) option res" where
  "get_context_for_search py_str obj vs live max_messages =
     bind_res (collect_context py_str obj vs live) (\<lambda>c. Inr (map_option (\<lambda>c.
       (case rx_latest c of None \<Rightarrow> [] | Some (shown, n) \<Rightarrow> shown,
        if max_messages > 0 then drop (length (rx_messages c) - nat max_messages) (rx_messages c) else [])) c))"

section \<open>Coverage never hides a pending archive\<close>

lemma existing_state_distinct:
  assumes "distinct (map sc_id ss)" and "s \<in> set ss"
  shows "existing_state ss (sc_id s) = Some s"
proof -
  have "distinct (map fst (rev (map (\<lambda>s. (sc_id s, s)) ss)))" using assms(1) by (simp add: rev_map [symmetric] comp_def)
  moreover have "(sc_id s, s) \<in> set (rev (map (\<lambda>s. (sc_id s, s)) ss))" using assms(2) by auto
  ultimately show ?thesis unfolding existing_state_def by (rule map_of_is_SomeI)
qed

lemma covered_iff:
  "i \<in> covered_archive_ids ss \<longleftrightarrow> (\<exists>c \<in> set ss. sc_state c = ArchiveCompleted
     \<and> ((\<exists>t \<in> set ss. sc_id t = i \<and> fst (coverage_range c) \<le> sc_index t \<and> sc_index t \<le> snd (coverage_range c) \<and> sc_state t \<noteq> ArchivePending)
        \<or> i \<in> set (explicit_covered ss c)))"
  by (auto simp: covered_archive_ids_def split: if_splits)

lemma covered_not_pending:
  assumes "distinct (map sc_id ss)" and "s \<in> set ss" and "sc_id s \<in> covered_archive_ids ss"
  shows "sc_state s \<noteq> ArchivePending" and "\<exists>c \<in> set ss. sc_state c = ArchiveCompleted \<and> sc_index s \<le> sc_index c"
proof -
  have inj: "t = s" if "t \<in> set ss" "sc_id t = sc_id s" for t
    using assms(1,2) that by (auto simp: distinct_map dest: inj_onD)
  obtain c where c: "c \<in> set ss" "sc_state c = ArchiveCompleted"
    "(\<exists>t \<in> set ss. sc_id t = sc_id s \<and> sc_index t \<le> snd (coverage_range c) \<and> sc_state t \<noteq> ArchivePending)
     \<or> sc_id s \<in> set (explicit_covered ss c)"
    using assms(3) unfolding covered_iff by blast
  have "sc_state s \<noteq> ArchivePending \<and> sc_index s \<le> sc_index c"
  proof (cases "sc_id s \<in> set (explicit_covered ss c)")
    case True
    then show ?thesis
      using existing_state_distinct [OF assms(1,2)] by (auto simp: explicit_covered_def split: option.splits json.splits)
  next
    case False
    then show ?thesis using c(3) inj by (auto simp: coverage_range_def Let_def)
  qed
  with c(1,2) show "sc_state s \<noteq> ArchivePending" "\<exists>c \<in> set ss. sc_state c = ArchiveCompleted \<and> sc_index s \<le> sc_index c" by auto
qed

lemma scan_all_map: "scan_all vs = Inr ss \<Longrightarrow> list_all2 (\<lambda>v s. scan_archive v = Inr s) vs ss"
  by (induction vs arbitrary: ss) (auto simp: bind_res_Inr_iff)

lemma scan_archive_sel: "scan_archive v = Inr s \<Longrightarrow> sc_id s = av_id v \<and> sc_uri s = av_uri v \<and> sc_index s = av_index v"
  by (auto simp: scan_archive_def Let_def bind_res_Inr_iff split: option.splits if_splits)

lemma scan_archive_pending: "av_done v = None \<Longrightarrow> av_failed v = None \<Longrightarrow> scan_archive v = Inr s \<Longrightarrow> sc_state s = ArchivePending"
  by (auto simp: scan_archive_def)

lemma scan_states_sel:
  assumes "scan_archive_states vs = Inr ss"
  shows "map sc_id ss = map av_id (sort_key av_index vs)"
    and "v \<in> set vs \<Longrightarrow> \<exists>s \<in> set ss. scan_archive v = Inr s"
proof -
  have all: "list_all2 (\<lambda>v s. scan_archive v = Inr s) (sort_key av_index vs) ss"
    using scan_all_map assms by (simp add: scan_archive_states_def)
  then show "map sc_id ss = map av_id (sort_key av_index vs)" by (induction rule: list_all2_induct) (auto simp: scan_archive_sel)
  assume "v \<in> set vs"
  then obtain i where "i < length (sort_key av_index vs)" "sort_key av_index vs ! i = v" by (metis in_set_conv_nth set_sort)
  with all have "i < length ss" "scan_archive v = Inr (ss ! i)" by (auto simp: list_all2_conv_all_nth)
  then show "\<exists>s \<in> set ss. scan_archive v = Inr s" by (meson nth_mem)
qed

lemma read_logs_contains:
  assumes "read_logs py_str obj bodies = Inr (Some ms)" and "Some body \<in> set bodies"
  shows "\<exists>obj' xs. read_archive_messages py_str obj' body = Inr (map Some xs) \<and> set xs \<subseteq> set ms"
  using assms
proof (induction py_str obj bodies arbitrary: ms rule: read_logs.induct)
  case (3 py_str obj b bodies)
  obtain ys zs rest where r: "read_archive_messages py_str obj b = Inr ys" "read_logs py_str (obj + length ys) bodies = Inr (Some rest)"
    "option_list ys = Some zs" "ms = zs @ rest"
    using "3.prems"(1) by (auto simp: bind_res_Inr_iff bind_eq_Some_conv)
  show ?case
  proof (cases "b = body")
    case True
    then show ?thesis using r option_list_length [OF r(3)] by auto
  next
    case False
    with "3.prems"(2) "3.IH" [OF r(1,2)] r(4) show ?thesis by auto
  qed
qed auto

lemma dedup_messages_ids: "msg_id ` set (dedup_messages seen ms) = msg_id ` set ms - seen"
  by (induction ms arbitrary: seen) auto

text \<open>C25: no marker can hide the messages of a pending archive. Whatever the completion markers of other archives claim to cover, the raw
  messages of an archive that is neither completed nor failed are among the uncovered ones; and what is covered lies at or before a
  completed archive.\<close>

theorem pending_never_covered:
  assumes "distinct (map av_id vs)" and "distinct (map av_uri vs)" and "scan_archive_states vs = Inr ss" and "v \<in> set vs"
    and "av_done v = None" and "av_failed v = None" and "av_log v = Some body"
    and "uncovered_archive_messages py_str obj vs = Inr (Some ms)"
  shows "av_id v \<notin> covered_archive_ids ss
    \<and> (\<exists>obj' xs. read_archive_messages py_str obj' body = Inr (map Some xs) \<and> msg_id ` set xs \<subseteq> msg_id ` set ms)
    \<and> (\<forall>s \<in> set ss. sc_id s \<in> covered_archive_ids ss \<longrightarrow> (\<exists>c \<in> set ss. sc_state c = ArchiveCompleted \<and> sc_index s \<le> sc_index c))"
proof -
  have "distinct (map sc_id ss)" unfolding scan_states_sel(1) [OF assms(3)] using assms(1) by (simp add: distinct_map)
  note covered = covered_not_pending [OF this]
  obtain s where s: "s \<in> set ss" "scan_archive v = Inr s" using scan_states_sel(2) [OF assms(3,4)] by blast
  have sel: "sc_id s = av_id v" "sc_uri s = av_uri v" using scan_archive_sel [OF s(2)] by simp_all
  have pending: "sc_state s = ArchivePending" by (rule scan_archive_pending [OF assms(5,6) s(2)])
  then have free: "sc_id s \<notin> covered_archive_ids ss" using covered(1) s(1) by blast
  obtain raw where raw: "read_logs py_str obj (map (\<lambda>s. log_at vs (sc_uri s)) (uncovered_archives ss)) = Inr (Some raw)"
    "ms = dedup_messages {} raw"
    using assms(3,8) by (auto simp: uncovered_archive_messages_def bind_res_Inr_iff)
  have "log_at vs (av_uri v) = Some body"
  proof -
    have "map_of (map (\<lambda>v. (av_uri v, av_log v)) vs) (av_uri v) = Some (Some body)"
      by (rule map_of_is_SomeI) (use assms(2,4,7) in \<open>auto simp: comp_def image_iff intro!: bexI [of _ v]\<close>)
    then show ?thesis by (simp add: log_at_def)
  qed
  moreover have "s \<in> set (uncovered_archives ss)" using s(1) free pending by (simp add: uncovered_archives_def)
  ultimately have "Some body \<in> set (map (\<lambda>s. log_at vs (sc_uri s)) (uncovered_archives ss))" using sel(2) by force
  from read_logs_contains [OF raw(1) this] obtain obj' xs where "read_archive_messages py_str obj' body = Inr (map Some xs)" "set xs \<subseteq> set raw"
    by blast
  moreover from this(2) have "msg_id ` set xs \<subseteq> msg_id ` set ms" unfolding raw(2) dedup_messages_ids by auto
  ultimately show ?thesis using free sel(1) covered(2) by auto
qed

section \<open>Checkpoints are carried to the reader\<close>

lemma strip_text_nonempty: "strip_text t = [] \<longleftrightarrow> (\<forall>c \<in> set t. is_space_cp c)"
proof -
  have "c \<in> set (dropWhile is_space_cp t)" if "c \<in> set t" "\<not> is_space_cp c" for c
    using that by (induction t) auto
  then show ?thesis
    by (auto simp: strip_text_def lstrip_text_def rstrip_text_def dropWhile_eq_Nil_conv dest: set_dropWhileD)
qed

lemma strip_text_ends:
  assumes "strip_text t \<noteq> []"
  shows "\<not> is_space_cp (hd (strip_text t)) \<and> \<not> is_space_cp (last (strip_text t))"
proof -
  define u where "u = dropWhile is_space_cp t"
  have s: "strip_text t = rev (dropWhile is_space_cp (rev u))" by (simp add: strip_text_def lstrip_text_def rstrip_text_def u_def)
  then have d: "dropWhile is_space_cp (rev u) \<noteq> []" using assms by simp
  obtain v where v: "u = strip_text t @ v" unfolding s by (metis rev_append rev_rev_ident takeWhile_dropWhile_id)
  have "u \<noteq> []" using v assms by simp
  then have "\<not> is_space_cp (hd u)" unfolding u_def using hd_dropWhile by (metis dropWhile_eq_Nil_conv)
  moreover have "hd u = hd (strip_text t)" using v assms by (metis hd_append2)
  moreover have "\<not> is_space_cp (last (strip_text t))" unfolding s last_rev using hd_dropWhile d by (metis dropWhile_eq_Nil_conv)
  ultimately show ?thesis by simp
qed

lemma fit_summary_nonblank:
  assumes "strip_text summary \<noteq> []" and "fit_summary r summary \<noteq> []"
  shows "strip_text (fit_summary r summary) \<noteq> []"
proof -
  let ?t = "strip_text summary"
  have ends: "\<not> is_space_cp (hd ?t)" "\<not> is_space_cp (last ?t)"
    using assms(1) strip_text_ends by blast+
  have split: "fit_summary r summary = ?t \<or> (\<exists>h m t. fit_summary r summary = h @ m @ t \<and> prefix h ?t \<and> suffix t ?t \<and> (m = default_marker \<or> m = []))"
    using truncate_split [of ?t "max 1 (checkpoint_budget r)" default_marker "3/4"] unfolding fit_summary_def by metis
  have "\<exists>c \<in> set (fit_summary r summary). \<not> is_space_cp c"
  proof (cases "fit_summary r summary = ?t")
    case True
    then show ?thesis using ends(1) assms(1) by (metis hd_in_set)
  next
    case False
    then obtain h m t where f: "fit_summary r summary = h @ m @ t" "prefix h ?t" "suffix t ?t" "m = default_marker \<or> m = []"
      using split by blast
    have "h \<noteq> [] \<or> m = default_marker \<or> t \<noteq> []" using f(1,4) assms(2) by auto
    moreover have "hd h = hd ?t" if "h \<noteq> []" using that f(2) by (auto simp: prefix_def)
    moreover have "last t = last ?t" if "t \<noteq> []" using that f(3) by (auto simp: suffix_def)
    moreover have "8230 \<in> set default_marker" "\<not> is_space_cp 8230" by (simp_all add: default_marker_def is_space_cp_def)
    ultimately show ?thesis using ends unfolding f(1) by (metis Un_iff hd_in_set last_in_set set_append)
  qed
  then show ?thesis by (simp add: strip_text_nonempty)
qed

lemma update_fresh: "k \<notin> fst ` set xs \<Longrightarrow> AList.update k v xs = xs @ [(k, v)]"
  by (induction xs) auto

definition request_sources :: "checkpoint_request \<Rightarrow> string list" where
  "request_sources r = dedupe_list (rq_previous_sources r @ rq_sources r)"

definition request_record :: "checkpoint_request \<times> utext \<Rightarrow> string \<times> checkpoint_record" where
  "request_record p = (rq_anchor (fst p), \<lparr>cr_sources = request_sources (fst p), cr_abstract = strip_text (fit_summary (fst p) (snd p)),
     cr_version = CUMULATIVE_CHECKPOINT_VERSION\<rparr>)"

lemma string_ids_jstr: "[] \<notin> set xs \<Longrightarrow> string_ids (map jstr xs) = xs"
  by (induction xs) (auto simp: string_ids_def List.map_filter_simps)

lemma checkpoint_of_json:
  assumes "request_sources r \<noteq> []" and "[] \<notin> set (request_sources r)" and "strip_text (fit_summary r s) \<noteq> []"
  shows "checkpoint_of anchors (checkpoint_json r (fit_summary r s)) = Inr (if rq_anchor r \<in> anchors then Some (request_record (r, s)) else None)"
proof -
  define d where "d = [(cps ''checkpoint_version'', JInt CUMULATIVE_CHECKPOINT_VERSION), (cps ''turn_anchor_message_id'', jstr (rq_anchor r)),
    (cps ''source_message_ids'', JList (map jstr (request_sources r))), (cps ''abstract'', JStr (fit_summary r s)),
    (cps ''estimated_tokens'', JInt (estimate_text_tokens (fit_summary r s)))]"
  have look: "map_of d (cps ''turn_anchor_message_id'') = Some (jstr (rq_anchor r))"
    "map_of d (cps ''source_message_ids'') = Some (JList (map jstr (request_sources r)))"
    "map_of d (cps ''abstract'') = Some (JStr (fit_summary r s))" "map_of d (cps ''checkpoint_version'') = Some (JInt CUMULATIVE_CHECKPOINT_VERSION)"
    by (simp_all add: d_def cps_def)
  have version: "checkpoint_version d = Inr CUMULATIVE_CHECKPOINT_VERSION"
    by (simp add: checkpoint_version_def get_or_def look CUMULATIVE_CHECKPOINT_VERSION_def)
  have "checkpoint_json r (fit_summary r s) = JDict d" by (simp add: checkpoint_json_def d_def request_sources_def)
  then show ?thesis
    using assms string_ids_jstr [OF assms(2)]
    by (simp add: checkpoint_of_def look version json_text_def request_record_def)
qed


lemma build_records_map:
  assumes "build_records ps = Inr recs"
  shows "recs = map (\<lambda>(r, s). checkpoint_json r (fit_summary r s)) ps \<and> (\<forall>(r, s) \<in> set ps. strip_text (fit_summary r s) \<noteq> [])"
  using assms
proof (induction ps arbitrary: recs rule: build_records.induct)
  case (2 r summary rest)
  then obtain vs where vs: "strip_text summary \<noteq> []" "fit_summary r summary \<noteq> []" "build_records rest = Inr vs"
    "recs = checkpoint_json r (fit_summary r summary) # vs"
    by (auto simp: bind_res_Inr_iff split: if_splits)
  with "2.IH" [of vs] fit_summary_nonblank [OF vs(1,2)] show ?case by auto
qed simp

lemma build_records_nonblank: "build_records ps = Inr recs \<Longrightarrow> (r, s) \<in> set ps \<Longrightarrow> strip_text s \<noteq> [] \<and> strip_text (fit_summary r s) \<noteq> []"
  by (induction ps arbitrary: recs rule: build_records.induct)
    (auto simp: bind_res_Inr_iff fit_summary_nonblank split: if_splits)

lemma fit_summary_bound: "estimate_text_tokens (fit_summary r s) \<le> max 1 (checkpoint_budget r)"
  using truncate_split [of "strip_text s" "max 1 (checkpoint_budget r)" default_marker "3/4"] by (simp add: fit_summary_def)

lemma group_requests:
  assumes "distinct (map (\<lambda>p. rq_anchor (fst p)) ps)" and "\<forall>p \<in> set ps. rq_anchor (fst p) \<notin> fst ` set acc"
    and "\<forall>(r, s) \<in> set ps. request_sources r \<noteq> [] \<and> [] \<notin> set (request_sources r) \<and> strip_text (fit_summary r s) \<noteq> []"
  shows "group_checkpoints anchors (map (\<lambda>(r, s). checkpoint_json r (fit_summary r s)) ps) acc =
    Inr (acc @ map (\<lambda>p. (fst (request_record p), [snd (request_record p)])) (filter (\<lambda>p. rq_anchor (fst p) \<in> anchors) ps))"
  using assms
proof (induction ps arbitrary: acc)
  case (Cons p ps)
  obtain r s where p: "p = (r, s)" by (cases p)
  have one: "checkpoint_of anchors (checkpoint_json r (fit_summary r s)) = Inr (if rq_anchor r \<in> anchors then Some (request_record (r, s)) else None)"
    using Cons.prems(3) p by (intro checkpoint_of_json) auto
  show ?case
  proof (cases "rq_anchor r \<in> anchors")
    case True
    let ?acc = "acc @ [(rq_anchor r, [snd (request_record (r, s))])]"
    have new: "rq_anchor r \<notin> fst ` set acc" using Cons.prems(2) p by simp
    then have acc: "AList.update (rq_anchor r) ((case map_of acc (rq_anchor r) of None \<Rightarrow> [] | Some cs \<Rightarrow> cs) @ [snd (request_record (r, s))]) acc = ?acc"
      by (simp add: update_fresh map_of_eq_None_iff [THEN iffD2])
    have "rq_anchor (fst q) \<noteq> rq_anchor r" if "q \<in> set ps" for q
      using Cons.prems(1) that unfolding p by (auto simp: image_iff)
    then have "\<forall>p \<in> set ps. rq_anchor (fst p) \<notin> fst ` set ?acc" using Cons.prems(2) by auto
    from Cons.IH [OF _ this] Cons.prems(1,3) acc True show ?thesis by (simp add: p one request_record_def)
  next
    case False
    with Cons.IH [of acc] Cons.prems show ?thesis by (simp add: p one)
  qed
qed simp

lemma map_of_filter_keys: "P k \<Longrightarrow> map_of (map (\<lambda>p. (f p, g p)) (filter (\<lambda>p. P (f p)) ps)) k = map_of (map (\<lambda>p. (f p, g p)) ps) k"
  by (induction ps) auto

lemma insert_checkpoints_cong:
  assumes "\<And>m. m \<in> set ms \<Longrightarrow> map_of c (msg_id m) = map_of d (msg_id m)"
  shows "insert_checkpoints obj c ms = insert_checkpoints obj d ms"
  using assms by (induction ms arbitrary: obj) (simp_all split: option.splits)

text \<open>The inserted list is cut into one piece per message.\<close>

lemma insert_checkpoints_pieces:
  "\<exists>pieces. insert_checkpoints obj c ms = concat pieces
     \<and> list_all2 (\<lambda>m piece. case map_of c (msg_id m) of
          Some k \<Rightarrow> if cc_abstract k = [] then piece = [m] else \<exists>n. piece = [m, checkpoint_message n m k]
        | None \<Rightarrow> piece = [m]) ms pieces"
proof (induction ms arbitrary: obj)
  case (Cons m ms)
  show ?case
  proof (cases "\<exists>k. map_of c (msg_id m) = Some k \<and> cc_abstract k \<noteq> []")
    case True
    with Cons.IH [of "Suc obj"] obtain k pieces where "map_of c (msg_id m) = Some k" "cc_abstract k \<noteq> []"
      "insert_checkpoints (Suc obj) c ms = concat pieces" "list_all2 (\<lambda>m piece. case map_of c (msg_id m) of
          Some k \<Rightarrow> if cc_abstract k = [] then piece = [m] else \<exists>n. piece = [m, checkpoint_message n m k]
        | None \<Rightarrow> piece = [m]) ms pieces" by blast
    then show ?thesis by (intro exI [of _ "[m, checkpoint_message obj m k] # pieces"]) auto
  next
    case False
    with Cons.IH [of obj] obtain pieces where
      "insert_checkpoints obj c ms = concat pieces" "list_all2 (\<lambda>m piece. case map_of c (msg_id m) of
          Some k \<Rightarrow> if cc_abstract k = [] then piece = [m] else \<exists>n. piece = [m, checkpoint_message n m k]
        | None \<Rightarrow> piece = [m]) ms pieces" by blast
    with False show ?thesis by (intro exI [of _ "[m] # pieces"]) (auto split: option.split)
  qed
qed simp

lemma strip_text_id: "t = [] \<or> \<not> is_space_cp (hd t) \<and> \<not> is_space_cp (last t) \<Longrightarrow> strip_text t = t"
proof -
  assume t: "t = [] \<or> \<not> is_space_cp (hd t) \<and> \<not> is_space_cp (last t)"
  show ?thesis
  proof (cases "t = []")
    case False
    with t have "dropWhile is_space_cp t = t" "dropWhile is_space_cp (rev t) = rev t"
      by (simp_all add: dropWhile_eq_self_iff hd_rev)
    then show ?thesis by (simp add: strip_text_def lstrip_text_def rstrip_text_def)
  qed (simp add: strip_text_def lstrip_text_def rstrip_text_def)
qed

lemma fit_summary_fits:
  assumes "strip_text s \<noteq> []" and "estimate_text_tokens (strip_text s) \<le> max 1 (checkpoint_budget r)"
  shows "strip_text (fit_summary r s) = strip_text s"
proof -
  have "fit_summary r s = strip_text s"
    using truncate_split [of "strip_text s" "max 1 (checkpoint_budget r)" default_marker "3/4"] assms(2) by (simp add: fit_summary_def)
  then show ?thesis using strip_text_ends [OF assms(1)] by (simp add: strip_text_id)
qed

lemma map_filter_all: "(\<And>x. f (g x) = Some (h x)) \<Longrightarrow> List.map_filter f (map g xs) = map h xs"
  by (induction xs) (simp_all add: List.map_filter_simps)

text \<open>The candidate that a reader builds from a request and its summary.\<close>

definition carried :: "archive_ref \<Rightarrow> checkpoint_request \<times> utext \<Rightarrow> string \<times> checkpoint_chunk" where
  "carried t p = (rq_anchor (fst p), \<lparr>cc_sources = request_sources (fst p), cc_abstract = strip_text (fit_summary (fst p) (snd p)),
     cc_archive_id = ar_id t, cc_archive_uri = ar_uri t\<rparr>)"

text \<open>C23: the checkpoints of a completed archive reach the reader. Let the records built for requests with different anchors and non-empty
  source identifiers be stored with the newest completed archive. Then what the reader shows is the list of messages cut into one piece per message: a message
  that is no anchor stands alone; an anchor is followed at once by exactly one message, an assistant message of kind \<open>checkpoint\<close> without a peer, named
  after the archive and the anchor, with the time and turn of the anchor, whose sources are those of the previous checkpoint and the new ones, each once,
  and whose only part is a memory part of the archive with the summary, whole if it fits the budget of the request and otherwise as cut to that budget.\<close>

theorem checkpoint_carried:
  assumes "build_checkpoint_records rs summaries = Inr recs" and "distinct (map rq_anchor rs)"
    and "\<forall>r \<in> set rs. request_sources r \<noteq> [] \<and> [] \<notin> set (request_sources r)"
    and "map_of (meta_at vs (ar_uri t)) (cps ''checkpoints'') = Some (JList recs)" and "ms \<noteq> []"
  shows "\<exists>pieces. insert_terminal_checkpoints vs obj (Some t) ms = Inr (concat pieces)
    \<and> list_all2 (\<lambda>m piece.
        if msg_id m \<in> rq_anchor ` set rs
        then \<exists>i < length rs. \<exists>c sources abstract. rq_anchor (rs ! i) = msg_id m \<and> piece = [m, c]
          \<and> msg_id c = ''checkpoint_'' @ ar_id t @ ''_'' @ msg_id m \<and> role c = ''assistant'' \<and> message_kind c = Some ''checkpoint''
          \<and> msg_peer_id c = None \<and> created_at c = created_at m \<and> turn_id c = turn_id m
          \<and> source_message_ids c = Some sources \<and> distinct sources
          \<and> set sources = set (rq_previous_sources (rs ! i)) \<union> set (rq_sources (rs ! i))
          \<and> parts c = [ContextPart (ar_uri t) ''memory'' abstract] \<and> abstract \<noteq> []
          \<and> (if estimate_text_tokens (strip_text (summaries ! i)) \<le> max 1 (checkpoint_budget (rs ! i))
             then abstract = strip_text (summaries ! i)
             else abstract = strip_text (fit_summary (rs ! i) (summaries ! i))
               \<and> estimate_text_tokens (fit_summary (rs ! i) (summaries ! i)) \<le> max 1 (checkpoint_budget (rs ! i)))
        else piece = [m]) ms pieces"
proof -
  let ?ps = "zip rs summaries" and ?ids = "set (map msg_id ms)"
  have len: "length summaries = length rs" and built: "build_records ?ps = Inr recs"
    using assms(1) by (auto simp: build_checkpoint_records_def split: if_splits)
  note recs = build_records_map [OF built]
  have distinct: "distinct (map (\<lambda>p. rq_anchor (fst p)) ?ps)"
    using assms(2) len by (metis (no_types, lifting) map_fst_zip map_map comp_apply map_eq_conv)
  have ok: "\<forall>(r, s) \<in> set ?ps. request_sources r \<noteq> [] \<and> [] \<notin> set (request_sources r) \<and> strip_text (fit_summary r s) \<noteq> []"
    using recs assms(3) by (auto dest: set_zip_leftD)
  let ?kept = "filter (\<lambda>p. rq_anchor (fst p) \<in> ?ids) ?ps"
  let ?grouped = "map (\<lambda>p. (fst (request_record p), [snd (request_record p)])) ?kept"
  have grouped: "checkpoint_records_for_anchors (meta_at vs (ar_uri t)) ?ids = Inr ?grouped"
    using group_requests [OF distinct _ ok, of "[]" ?ids] recs by (simp add: checkpoint_records_for_anchors_def assms(4))
  have one: "cumulative_records [snd (request_record p)] = [snd (request_record p)]" for p
    by (simp add: cumulative_records_def request_record_def)
  have newest: "List.map_filter (\<lambda>(a, cs). if cumulative_records cs = [] then None else Some (a, chunk_of t (last (cumulative_records cs)))) ?grouped
      = map (carried t) ?kept"
    by (rule map_filter_all) (simp add: one, simp add: carried_def request_record_def chunk_of_def)
  have legacy: "map fst (filter (\<lambda>(a, cs). cumulative_records cs = []) ?grouped) = []"
    by (simp add: filter_map comp_def one)
  have "insert_terminal_checkpoints vs obj (Some t) ms = Inr (insert_checkpoints obj (map (carried t) ?kept) ms)"
    unfolding insert_terminal_checkpoints_def option.case grouped bind_res.simps Let_def newest legacy
    using assms(5) by (simp add: effective_checkpoints_def)
  also have "insert_checkpoints obj (map (carried t) ?kept) ms = insert_checkpoints obj (map (carried t) ?ps) ms"
    unfolding carried_def [abs_def]
    by (rule insert_checkpoints_cong, rule map_of_filter_keys [where P = "\<lambda>a. a \<in> ?ids"]) simp
  finally have "insert_terminal_checkpoints vs obj (Some t) ms = Inr (insert_checkpoints obj (map (carried t) ?ps) ms)" .
  with insert_checkpoints_pieces [of obj "map (carried t) ?ps" ms] obtain pieces where
    shown: "insert_terminal_checkpoints vs obj (Some t) ms = Inr (concat pieces)" and
    pieces: "list_all2 (\<lambda>m piece. case map_of (map (carried t) ?ps) (msg_id m) of
          Some k \<Rightarrow> if cc_abstract k = [] then piece = [m] else \<exists>n. piece = [m, checkpoint_message n m k]
        | None \<Rightarrow> piece = [m]) ms pieces" by auto
  have nonblank: "strip_text (summaries ! i) \<noteq> []" "strip_text (fit_summary (rs ! i) (summaries ! i)) \<noteq> []" if "i < length rs" for i
    using build_records_nonblank [OF built] that len by (auto simp: set_zip)
  show ?thesis
  proof (intro exI [of _ pieces] conjI shown list_all2_mono [OF pieces], goal_cases)
    case (1 m piece)
    show ?case
    proof (cases "msg_id m \<in> rq_anchor ` set rs")
      case True
      then obtain i where i: "i < length rs" "rq_anchor (rs ! i) = msg_id m" by (auto simp: in_set_conv_nth)
      have mem: "(rs ! i, summaries ! i) \<in> set ?ps" using i(1) len by (auto simp: set_zip)
      have "carried t (rs ! i, summaries ! i) = (msg_id m, snd (carried t (rs ! i, summaries ! i)))" using i(2) by (simp add: carried_def)
      then have "(msg_id m, snd (carried t (rs ! i, summaries ! i))) \<in> set (map (carried t) ?ps)"
        using mem by (metis image_eqI set_map)
      moreover have "map fst (map (carried t) ?ps) = map (\<lambda>p. rq_anchor (fst p)) ?ps" by (simp add: carried_def)
      ultimately have "map_of (map (carried t) ?ps) (msg_id m) = Some (snd (carried t (rs ! i, summaries ! i)))"
        using distinct by (metis map_of_is_SomeI)
      with 1 obtain n where "piece = [m, checkpoint_message n m (snd (carried t (rs ! i, summaries ! i)))]"
        using nonblank(2) [OF i(1)] by (auto simp: carried_def)
      then show ?thesis
        unfolding if_P [OF True] using i nonblank [OF i(1)] fit_summary_fits [OF nonblank(1) [OF i(1)], of "rs ! i"] fit_summary_bound
        by (intro exI [of _ i] exI [of _ "checkpoint_message n m (snd (carried t (rs ! i, summaries ! i)))"])
          (simp add: carried_def checkpoint_message_def request_sources_def dedupe_list_def distinct_add_new)
    next
      case False
      then have "map_of (map (carried t) ?ps) (msg_id m) = None"
        by (auto simp: map_of_eq_None_iff carried_def dest: set_zip_leftD)
      with 1 False show ?thesis by simp
    qed
  qed
qed

section \<open>The budget of the context\<close>

lemma latest_archive_tokens: "latest_archive terminal = Inr (Some (shown, n), k) \<Longrightarrow> estimate_text_tokens shown \<le> n"
  by (auto simp: latest_archive_def bind_res_Inr_iff Let_def overview_tokens_def split: option.splits if_splits sum.splits)

lemma collect_context_latest:
  assumes "collect_context py_str obj vs live = Inr (Some c)" and "rx_latest c = Some (shown, n)"
  shows "estimate_text_tokens shown \<le> n"
proof -
  obtain terminal k where "latest_archive terminal = Inr (rx_latest c, k)"
    using assms(1) unfolding collect_context_def Let_def by (auto simp: bind_res_Inr_iff split: option.splits prod.splits)
  with assms(2) show ?thesis using latest_archive_tokens by simp
qed

text \<open>C24: the context of a session keeps its token budget. Whatever the archives hold, the messages shown and the overview together cost at most
  the reported estimate, which is at most the budget; the parts of the estimate are the cost of the messages and of the overview.\<close>

theorem context_within_budget:
  assumes "get_session_context py_str obj vs live token_budget = Inr (Some r)"
  shows "message_tokens (cx_messages r) + estimate_text_tokens (cx_overview r) \<le> cx_estimated r \<and> cx_estimated r \<le> token_budget
    \<and> cx_active r = message_tokens (cx_messages r) \<and> cx_estimated r = cx_active r + cx_archive r"
proof -
  obtain c where c: "collect_context py_str obj vs live = Inr (Some c)" and b: "0 \<le> token_budget"
    using assms by (auto simp: get_session_context_def bind_res_Inr_iff split: if_splits)
  define f where "f = fit_active_messages_to_budget (rx_messages c) token_budget"
  have f: "message_tokens (ab_messages f) \<le> token_budget" "ab_estimated_tokens f = message_tokens (ab_messages f)"
    using fit_active_cost [of "rx_messages c" token_budget] b by (simp_all add: f_def Let_def)
  show ?thesis
  proof (cases "rx_latest c")
    case None
    then show ?thesis using assms b f by (auto simp: get_session_context_def c Let_def f_def [symmetric])
  next
    case (Some p)
    obtain shown n where p: "p = (shown, n)" by (cases p)
    have "estimate_text_tokens shown \<le> n" using collect_context_latest [OF c] Some p by simp
    then show ?thesis using assms b f Some p
      by (cases "n \<le> max 0 (token_budget - ab_estimated_tokens f)") (auto simp: get_session_context_def c Let_def f_def [symmetric])
  qed
qed

definition view_sample :: "archive_view list" where
  "view_sample =
     [\<lparr>av_id = ''archive_001'', av_uri = ''h/archive_001'', av_index = 1, av_done = None, av_failed = None, av_overview = Inr [],
       av_meta = [], av_log = Some (batch_content log_repr (\<lambda>m. ''t1'') log_sample)\<rparr>,
      \<lparr>av_id = ''archive_002'', av_uri = ''h/archive_002'', av_index = 2,
       av_done = Some (dumps (JDict [(cps ''coverage_start_archive'', jstr ''archive_001'')])), av_failed = None, av_overview = Inr [104],
       av_meta = [], av_log = None\<rparr>]"

theorem context_within_budget_witness:
  "\<exists>r. get_session_context (\<lambda>v. []) 0 view_sample log_sample 100 = Inr (Some r) \<and> cx_total r = 2
     \<and> message_tokens (cx_messages r) + estimate_text_tokens (cx_overview r) \<le> 100"
proof -
  have sorted: "sort_key (\<lambda>v. - int (av_index v)) view_sample = rev view_sample" by (simp add: view_sample_def)
  have "\<exists>c. collect_context (\<lambda>v. []) 0 view_sample log_sample = Inr (Some c) \<and> rx_total c = 2"
    unfolding collect_context_def sorted
    by (simp add: view_sample_def view_state_def latest_archive_def insert_terminal_checkpoints_def checkpoint_records_for_anchors_def
        meta_at_def effective_checkpoints_def Let_def)
  then obtain c where "collect_context (\<lambda>v. []) 0 view_sample log_sample = Inr (Some c)" "rx_total c = 2" by blast
  then obtain r where r: "get_session_context (\<lambda>v. []) 0 view_sample log_sample 100 = Inr (Some r)" "cx_total r = 2"
    by (simp add: get_session_context_def Let_def)
  with context_within_budget [OF r(1)] show ?thesis by (intro exI [of _ r]) linarith
qed

theorem pending_never_covered_witness:
  "\<exists>ms. uncovered_archive_messages (\<lambda>v. []) 0 view_sample = Inr (Some ms) \<and> ''m1'' \<in> msg_id ` set ms"
proof -
  let ?v = "view_sample ! 0" and ?body = "batch_content log_repr (\<lambda>m. ''t1'') log_sample"
  have read: "read_archive_messages (\<lambda>v. []) obj ?body = Inr (norm_messages (\<lambda>m. ''t1'') obj log_sample)" for obj
    by (rule readers_of_batch(3) [OF log_sample_readable])
  have "\<exists>ss. scan_archive_states view_sample = Inr ss"
    by (simp add: scan_archive_states_def view_sample_def scan_archive_def Let_def)
  then obtain ss where ss: "scan_archive_states view_sample = Inr ss" ..
  have total: "\<exists>raw. read_logs (\<lambda>v. []) obj (map (\<lambda>s. log_at view_sample (sc_uri s)) xs) = Inr (Some raw)" for obj xs
  proof (induction xs arbitrary: obj)
    case (Cons s xs)
    have "log_at view_sample (sc_uri s) = None \<or> log_at view_sample (sc_uri s) = Some ?body"
      by (simp add: log_at_def view_sample_def)
    with Cons [of "obj + length log_sample"] Cons [of obj] show ?case by (auto simp: read option_list_norm)
  qed simp
  obtain raw where "read_logs (\<lambda>v. []) 0 (map (\<lambda>s. log_at view_sample (sc_uri s)) (uncovered_archives ss)) = Inr (Some raw)"
    using total by blast
  then obtain ms where ms: "uncovered_archive_messages (\<lambda>v. []) 0 view_sample = Inr (Some ms)"
    by (simp add: uncovered_archive_messages_def ss)
  have v: "distinct (map av_id view_sample)" "distinct (map av_uri view_sample)" "?v \<in> set view_sample" "av_done ?v = None"
    "av_failed ?v = None" "av_log ?v = Some ?body"
    by (simp_all add: view_sample_def)
  obtain obj' xs where xs: "read_archive_messages (\<lambda>v. []) obj' ?body = Inr (map Some xs)" "msg_id ` set xs \<subseteq> msg_id ` set ms"
    using pending_never_covered [OF v(1,2) ss v(3-6) ms] by blast
  from xs(1) have "map Some xs = norm_messages (\<lambda>m. ''t1'') obj' log_sample" unfolding read by simp
  then have "''m1'' \<in> msg_id ` set xs" by (cases xs) (auto simp: log_sample_def norm_message_def)
  with xs(2) ms show ?thesis by blast
qed

definition request_sample :: checkpoint_request where
  "request_sample = \<lparr>rq_anchor = ''m1'', rq_sources = [''m2''], rq_budget = 0, rq_active_tokens = 0, rq_previous_abstract = [],
     rq_previous_sources = [''m0'']\<rparr>"

definition ref_sample :: archive_ref where
  "ref_sample = \<lparr>ar_id = ''archive_002'', ar_uri = ''h/archive_002'', ar_index = 2\<rparr>"

definition meta_view_sample :: "json list \<Rightarrow> archive_view list" where
  "meta_view_sample recs = [(view_sample ! 1)\<lparr>av_meta := [(cps ''checkpoints'', JList recs)]\<rparr>]"

theorem checkpoint_carried_witness:
  "\<exists>recs shown. build_checkpoint_records [request_sample] [[32, 104, 105]] = Inr recs
     \<and> insert_terminal_checkpoints (meta_view_sample recs) 9 (Some ref_sample) log_sample = Inr shown
     \<and> map msg_id shown = [''m1'', ''checkpoint_archive_002_m1'', ''m2'']"
proof -
  have strip: "strip_text [32, 104, 105] = [104, 105]" by (simp add: strip_text_def lstrip_text_def rstrip_text_def is_space_cp_def)
  have "estimate_text_tokens [104, 105] \<le> 1024"
    by (simp add: estimate_text_tokens_def code_point_weight_def is_cjk_code_point_def)
  then have fit: "fit_summary request_sample [32, 104, 105] = [104, 105]"
    using truncate_split [of "[104, 105]" 1024 default_marker "3/4"]
    by (simp add: fit_summary_def strip checkpoint_budget_def request_sample_def)
  obtain recs where recs: "build_checkpoint_records [request_sample] [[32, 104, 105]] = Inr recs"
    by (simp add: build_checkpoint_records_def strip fit)
  have h: "distinct (map rq_anchor [request_sample])" "log_sample \<noteq> []"
    "\<forall>r \<in> set [request_sample]. request_sources r \<noteq> [] \<and> [] \<notin> set (request_sources r)"
    "map_of (meta_at (meta_view_sample recs) (ar_uri ref_sample)) (cps ''checkpoints'') = Some (JList recs)"
    by (simp_all add: request_sample_def request_sources_def dedupe_list_def log_sample_def meta_at_def meta_view_sample_def view_sample_def ref_sample_def)
  have a: "rq_anchor request_sample = ''m1''" by (simp add: request_sample_def)
  have ids: "msg_id (log_sample ! 0) = ''m1''" "msg_id (log_sample ! 1) = ''m2''" and two: "log_sample = [log_sample ! 0, log_sample ! 1]"
    by (simp_all add: log_sample_def)
  have "\<exists>pieces. insert_terminal_checkpoints (meta_view_sample recs) 9 (Some ref_sample) log_sample = Inr (concat pieces)
    \<and> list_all2 (\<lambda>m piece. if msg_id m = ''m1'' then \<exists>c. piece = [m, c] \<and> msg_id c = ''checkpoint_archive_002_'' @ msg_id m
      else piece = [m]) log_sample pieces"
    by (rule ex_forward [OF checkpoint_carried [OF recs h(1,3,4,2), of 9]], erule conj_forward, assumption, erule list_all2_mono)
      (simp add: a ref_sample_def split: if_splits)
  then obtain pieces where
    shown: "insert_terminal_checkpoints (meta_view_sample recs) 9 (Some ref_sample) log_sample = Inr (concat pieces)"
    and p: "list_all2 (\<lambda>m piece. if msg_id m = ''m1'' then \<exists>c. piece = [m, c] \<and> msg_id c = ''checkpoint_archive_002_'' @ msg_id m
      else piece = [m]) log_sample pieces" by blast
  from p have "map msg_id (concat pieces) = [''m1'', ''checkpoint_archive_002_m1'', ''m2'']"
    by (subst (asm) two) (auto simp: list_all2_Cons1 ids ids [unfolded One_nat_def])
  then show ?thesis by (intro exI conjI) (rule recs, rule shown)
qed

end
