(* ===== verification/Session_Commit.thy ===== *)
theory Session_Commit
  imports Session_State
begin

text \<open>
  The first phase of a session commit, its recovery and what a reader sees of it: \<open>commit_async\<close>, \<open>_ensure_phase1_ready\<close>,
  \<open>_can_run_archive\<close>, \<open>_archive_terminal_state\<close>, \<open>_covered_archive_ids\<close> and \<open>_collect_session_context_components\<close> of
  \<open>openviking/session/session.py\<close>. The durable state is the content of the files of one session, as the values they are
  written from and read as: the live log, the metadata, one directory for each archive, and the queue of commits. A write
  succeeds, raises, or is cut off by a crash, with or without effect, as an event of the environment says. All of it runs under the lock of
  the session. The externalisation of tool outputs, which changes bodies only, is an argument; the derived abstract and
  overview files count as writes without modelled content, search tags and usage records are left out of the queue message.
\<close>

section \<open>Durable state\<close>

record phase1_meta =
  p1_ready :: bool
  p1_task_id :: string
  p1_original_ids :: "string list"
  p1_archived_ids :: "string list"
  p1_retained_ids :: "string list"
  p1_keep_recent_count :: int
  p1_retention_mode :: string
  p1_keep_recent_turn_count :: int
  p1_token_budget :: int
  p1_min_tail :: int

record retention_meta =
  rm_keep_recent_turn_count :: int
  rm_token_budget :: int
  rm_min_tail :: int
  rm_partial_turn :: bool
  rm_turn_anchor_id :: "string option"
  rm_checkpoint_source_ids :: "string list"
  rm_raw_tail_start_id :: "string option"
  rm_estimated_active_tokens :: int
  rm_budget_exceeded :: bool

record archive_dir =
  ad_phase1 :: "phase1_meta option"
  ad_agent_evolution :: "(bool \<times> string option) option"
  ad_retention_plan :: "retention_meta option"
  ad_messages :: "message list option"
  ad_done :: bool
  ad_failed :: bool

definition empty_archive :: archive_dir where
  "empty_archive = \<lparr>ad_phase1 = None, ad_agent_evolution = None, ad_retention_plan = None, ad_messages = None,
     ad_done = False, ad_failed = False\<rparr>"

record commit_msg =
  cq_task_id :: string
  cq_archive :: nat
  cq_memory_policy :: "(utext \<times> json) list"
  cq_record_auto_commit :: bool

record session_store =
  st_live :: "message list option"
  st_meta :: "session_meta option"
  st_archives :: "(nat \<times> archive_dir) list"
  st_queue :: "commit_msg list"
  st_tasks :: "string list"

definition archive_at :: "session_store \<Rightarrow> nat \<Rightarrow> archive_dir" where
  "archive_at st i = (case map_of (st_archives st) i of None \<Rightarrow> empty_archive | Some a \<Rightarrow> a)"

definition on_archive :: "nat \<Rightarrow> (archive_dir \<Rightarrow> archive_dir) \<Rightarrow> session_store \<Rightarrow> session_store" where
  "on_archive i f st = st\<lparr>st_archives := AList.update i (f (archive_at st i)) (st_archives st)\<rparr>"

text \<open>The tracker has work for a task exactly if the durable queue holds a message of it.\<close>

definition has_queue_work :: "session_store \<Rightarrow> string \<Rightarrow> bool" where
  "has_queue_work st task_id \<longleftrightarrow> list_ex (\<lambda>q. cq_task_id q = task_id) (st_queue st)"

section \<open>The writes of a commit\<close>

definition write_phase1_marker :: "nat \<Rightarrow> phase1_meta \<Rightarrow> bool \<times> string option \<Rightarrow> session_store \<Rightarrow> session_store" where
  "write_phase1_marker i p1 agent = on_archive i (\<lambda>a. a\<lparr>ad_phase1 := Some p1, ad_agent_evolution := Some agent\<rparr>)"

definition write_archive_messages :: "nat \<Rightarrow> message list \<Rightarrow> session_store \<Rightarrow> session_store" where
  "write_archive_messages i ms = on_archive i (\<lambda>a. a\<lparr>ad_messages := Some ms\<rparr>)"

definition write_retention_plan :: "nat \<Rightarrow> retention_meta \<Rightarrow> session_store \<Rightarrow> session_store" where
  "write_retention_plan i r = on_archive i (\<lambda>a. a\<lparr>ad_retention_plan := Some r\<rparr>)"

definition enqueue_commit :: "commit_msg \<Rightarrow> session_store \<Rightarrow> session_store" where
  "enqueue_commit q st = st\<lparr>st_queue := st_queue st @ [q]\<rparr>"

definition create_commit_task :: "string \<Rightarrow> session_store \<Rightarrow> session_store" where
  "create_commit_task t st = st\<lparr>st_tasks := st_tasks st @ [t]\<rparr>"

definition write_live :: "message list \<Rightarrow> session_store \<Rightarrow> session_store" where
  "write_live ms st = st\<lparr>st_live := Some ms\<rparr>"

text \<open>\<open>_write_to_agfs_async\<close>: the log, then the derived abstract and overview.\<close>

definition write_root :: "message list \<Rightarrow> (session_store \<Rightarrow> session_store) list" where
  "write_root ms = [write_live ms, id, id]"

definition save_meta :: "string \<Rightarrow> session_meta \<Rightarrow> session_store \<Rightarrow> session_store" where
  "save_meta now m st = st\<lparr>st_meta := Some (m\<lparr>sm_updated_at := now\<rparr>)\<rparr>"

definition write_phase1_ready :: "nat \<Rightarrow> session_store \<Rightarrow> session_store" where
  "write_phase1_ready i = on_archive i (\<lambda>a. a\<lparr>ad_phase1 := map_option (\<lambda>p. p\<lparr>p1_ready := True\<rparr>) (ad_phase1 a)\<rparr>)"

definition write_failed_marker :: "nat \<Rightarrow> session_store \<Rightarrow> session_store" where
  "write_failed_marker i = on_archive i (\<lambda>a. a\<lparr>ad_failed := True\<rparr>)"

section \<open>Arguments and policy of a commit\<close>

record commit_args =
  ca_keep_recent_count :: int
  ca_memory_policy :: "(utext \<times> json) list option"
  ca_retention_mode :: "string option"
  ca_keep_recent_turn_count :: "int option"
  ca_token_budget :: "int option"
  ca_min_tail :: "int option"
  ca_persist_keep_recent_count :: bool
  ca_record_auto_commit :: bool

record commit_env =
  ce_now :: string
  ce_task_id :: string
  ce_enabled_types :: "utext set"
  ce_agent_evolution :: bool
  ce_policy_provider :: "json option"
  ce_externalize :: "message list \<Rightarrow> message list"

definition turn_mode :: "commit_args \<Rightarrow> bool" where
  "turn_mode args \<longleftrightarrow> ca_retention_mode args = Some RETENTION_MODE_TURN_BUDGET"

definition effective_keep_turns :: "commit_args \<Rightarrow> int" where
  "effective_keep_turns args = max 0 (case ca_keep_recent_turn_count args of None \<Rightarrow> 3 | Some n \<Rightarrow> n)"

definition effective_token_budget :: "commit_args \<Rightarrow> int" where
  "effective_token_budget args = max 0 (case ca_token_budget args of None \<Rightarrow> 12000 | Some n \<Rightarrow> n)"

definition effective_min_tail :: "commit_args \<Rightarrow> int" where
  "effective_min_tail args = max 0 (case ca_min_tail args of None \<Rightarrow> 1 | Some n \<Rightarrow> n)"

definition check_commit_args :: "commit_args \<Rightarrow> unit res" where
  "check_commit_args args =
     (if ca_retention_mode args \<notin> {None, Some RETENTION_MODE_TURN_BUDGET} then Inl ValueError
      else if ca_retention_mode args = None
          \<and> (ca_keep_recent_turn_count args \<noteq> None \<or> ca_token_budget args \<noteq> None \<or> ca_min_tail args \<noteq> None)
      then Inl ValueError
      else if turn_mode args \<and> effective_token_budget args \<le> 0 then Inl ValueError
      else Inr ())"

definition resolve_memory_policy :: "commit_env \<Rightarrow> (utext \<times> json) list option \<Rightarrow> session_meta \<Rightarrow> memory_policy res" where
  "resolve_memory_policy env override m =
     memory_policy_from_dict (PolicyData
       (case override of Some d \<Rightarrow> JDict d
        | None \<Rightarrow> (case sm_memory_policy m of Some d \<Rightarrow> JDict d
                   | None \<Rightarrow> (case ce_policy_provider env of Some v \<Rightarrow> v | None \<Rightarrow> JNull))))"

definition apply_agent_evolution :: "commit_env \<Rightarrow> memory_policy \<Rightarrow> memory_policy" where
  "apply_agent_evolution env p =
     (if ce_agent_evolution env then p
      else p\<lparr>memory_types := Some ((case memory_types p of None \<Rightarrow> ce_enabled_types env | Some ts \<Rightarrow> ts)
                                   - AGENT_EVOLUTION_MEMORY_TYPES)\<rparr>)"

definition effective_memory_types :: "commit_env \<Rightarrow> memory_policy \<Rightarrow> utext set" where
  "effective_memory_types env p = (case memory_types p of None \<Rightarrow> ce_enabled_types env | Some ts \<Rightarrow> ts)"

definition agent_memory_skip_reason :: "bool \<Rightarrow> utext set \<Rightarrow> string option" where
  "agent_memory_skip_reason enabled types =
     (if \<not> enabled then Some ''agent_evolution_disabled''
      else if cps ''experiences'' \<notin> types then Some ''memory_types_filtered'' else None)"

definition effective_policy :: "commit_env \<Rightarrow> (utext \<times> json) list option \<Rightarrow> session_meta \<Rightarrow> memory_policy res" where
  "effective_policy env override m =
     bind_res (resolve_memory_policy env override m) (\<lambda>p.
     bind_res (validate_memory_types p (ce_enabled_types env)) (\<lambda>_. Inr (apply_agent_evolution env p)))"

section \<open>The split of the messages\<close>

definition commit_plan :: "commit_args \<Rightarrow> message list \<Rightarrow> retention_plan option" where
  "commit_plan args ms =
     (if turn_mode args
      then Some (plan_retention ms (effective_keep_turns args) (effective_token_budget args) (effective_min_tail args))
      else None)"

definition commit_split :: "commit_args \<Rightarrow> message list \<Rightarrow> message list \<times> message list" where
  "commit_split args ms =
     (case commit_plan args ms of
        Some p \<Rightarrow> (archive_messages p, retained_messages p)
      | None \<Rightarrow>
          let keep = max 0 (ca_keep_recent_count args)
          in if keep > 0
             then let split_idx = max 0 (int (length ms) - keep) in (take (nat split_idx) ms, drop (nat split_idx) ms)
             else (ms, []))"

definition retention_plan_meta :: "commit_args \<Rightarrow> retention_plan \<Rightarrow> retention_meta" where
  "retention_plan_meta args p =
     \<lparr>rm_keep_recent_turn_count = effective_keep_turns args, rm_token_budget = effective_token_budget args,
      rm_min_tail = effective_min_tail args, rm_partial_turn = partial_turn p,
      rm_turn_anchor_id = map_option msg_id (turn_anchor p), rm_checkpoint_source_ids = checkpoint_source_message_ids p,
      rm_raw_tail_start_id = raw_tail_start_message_id p, rm_estimated_active_tokens = estimated_active_tokens p,
      rm_budget_exceeded = budget_exceeded p\<rparr>"

text \<open>The index of the last archive directory, counted up from an index while directories exist.\<close>

function last_archive_index :: "nat \<Rightarrow> session_store \<Rightarrow> nat" where
  "last_archive_index i st = (if Suc i \<in> fst ` set (st_archives st) then last_archive_index (Suc i) st else i)"
  by pat_completeness auto
termination
proof (relation "measure (\<lambda>(i, st). card {k \<in> fst ` set (st_archives st). i < k})")
  fix i st
  assume "Suc i \<in> fst ` set (st_archives (st :: session_store))"
  moreover have "{k \<in> fst ` set (st_archives st). Suc i < k} \<subseteq> {k \<in> fst ` set (st_archives st). i < k}" by auto
  ultimately have "{k \<in> fst ` set (st_archives st). Suc i < k} \<subset> {k \<in> fst ` set (st_archives st). i < k}" by auto
  then have "card {k \<in> fst ` set (st_archives st). Suc i < k} < card {k \<in> fst ` set (st_archives st). i < k}"
    by (intro psubset_card_mono) simp_all
  then show "((Suc i, st), (i, st)) \<in> measure (\<lambda>(i, st). card {k \<in> fst ` set (st_archives st). i < k})" by simp
qed simp

declare last_archive_index.simps [simp del]

section \<open>The commit\<close>

datatype commit_result = CommitSkipped string | CommitAccepted nat

text \<open>The messages and metadata read under the lock. Metadata that cannot be read is taken from memory.\<close>

definition commit_snapshot :: "commit_args \<Rightarrow> message list \<Rightarrow> session \<Rightarrow> session_store \<Rightarrow> session" where
  "commit_snapshot args live s st =
     s\<lparr>ses_messages := live,
       ses_meta := (case st_meta st of
           None \<Rightarrow> ses_meta s
         | Some m \<Rightarrow> if ca_memory_policy args = None \<and> sm_memory_policy m = None
                   then m\<lparr>sm_memory_policy := sm_memory_policy (ses_meta s)\<rparr> else m)\<rparr>"

definition stored_keep_recent_count :: "commit_args \<Rightarrow> session_meta \<Rightarrow> int" where
  "stored_keep_recent_count args m =
     (if ca_persist_keep_recent_count args then max 0 (ca_keep_recent_count args) else max 0 (sm_keep_recent_count m))"

definition remember_commit_policy :: "commit_args \<Rightarrow> session_meta \<Rightarrow> session_meta" where
  "remember_commit_policy args m =
     remember_retention_policy (stored_keep_recent_count args m) (ca_retention_mode args)
       (if turn_mode args then effective_keep_turns args else 0) (if turn_mode args then effective_token_budget args else 0)
       (effective_min_tail args) m"

definition commit_no_messages :: "commit_env \<Rightarrow> commit_args \<Rightarrow> io_event list \<Rightarrow> session \<Rightarrow> session_store
    \<Rightarrow> session \<times> session_store \<times> commit_result outcome" where
  "commit_no_messages env args evs s st =
     (let m = (remember_commit_policy args ((ses_meta s)\<lparr>sm_pending_tokens := 0\<rparr>))\<lparr>sm_updated_at := ce_now env\<rparr>;
          r = run_writes [save_meta (ce_now env) m] evs st
      in (s\<lparr>ses_meta := m\<rparr>, fst r,
          case snd r of Completed _ \<Rightarrow> Returned (CommitSkipped ''no_messages'') | Raised _ \<Rightarrow> Failed StoreError | Crashed \<Rightarrow> Died))"

definition commit_within_window :: "commit_env \<Rightarrow> commit_args \<Rightarrow> io_event list \<Rightarrow> message list \<Rightarrow> session \<Rightarrow> session_store
    \<Rightarrow> session \<times> session_store \<times> commit_result outcome" where
  "commit_within_window env args evs retained s st =
     (let m = (remember_commit_policy args ((ses_meta s)\<lparr>sm_pending_tokens := 0, sm_message_count := int (length (ses_messages s))\<rparr>))
                \<lparr>sm_updated_at := ce_now env\<rparr>;
          s = s\<lparr>ses_messages := retained\<rparr>;
          r = run_writes (write_root retained) evs st
      in case snd r of
           Raised _ \<Rightarrow> (s, fst r, Failed StoreError)
         | Crashed \<Rightarrow> (s, fst r, Died)
         | Completed evs \<Rightarrow>
             (let q = run_writes [save_meta (ce_now env) m] evs (fst r)
              in (s\<lparr>ses_meta := m\<rparr>, fst q,
                  case snd q of Completed _ \<Rightarrow> Returned (CommitSkipped ''all_within_keep_window'')
                  | Raised _ \<Rightarrow> Failed StoreError | Crashed \<Rightarrow> Died)))"

definition commit_marker :: "commit_env \<Rightarrow> commit_args \<Rightarrow> message list \<Rightarrow> message list \<Rightarrow> message list \<Rightarrow> phase1_meta" where
  "commit_marker env args original archived retained =
     \<lparr>p1_ready = False, p1_task_id = ce_task_id env, p1_original_ids = map msg_id original, p1_archived_ids = map msg_id archived,
      p1_retained_ids = map msg_id retained, p1_keep_recent_count = max 0 (ca_keep_recent_count args),
      p1_retention_mode = (case ca_retention_mode args of None \<Rightarrow> [] | Some x \<Rightarrow> x),
      p1_keep_recent_turn_count = (if turn_mode args then effective_keep_turns args else 0),
      p1_token_budget = (if turn_mode args then effective_token_budget args else 0), p1_min_tail = effective_min_tail args\<rparr>"

definition committed_meta :: "commit_env \<Rightarrow> commit_args \<Rightarrow> nat \<Rightarrow> message list \<Rightarrow> session_meta \<Rightarrow> session_meta" where
  "committed_meta env args i retained m =
     (let m = remember_commit_policy args (m\<lparr>sm_message_count := int (length retained), sm_pending_tokens := 0\<rparr>)
      in m\<lparr>sm_commit_count := max (sm_commit_count m) (int i), sm_last_commit_at := ce_now env,
           sm_last_auto_commit_at := (if ca_record_auto_commit args then ce_now env else sm_last_auto_commit_at m),
           sm_updated_at := ce_now env\<rparr>)"

text \<open>The writes that come before the live log is touched.\<close>

definition archive_writes :: "commit_env \<Rightarrow> commit_args \<Rightarrow> memory_policy \<Rightarrow> nat \<Rightarrow> message list \<Rightarrow> message list \<Rightarrow> message list
    \<Rightarrow> (session_store \<Rightarrow> session_store) list" where
  "archive_writes env args policy i original archived retained =
     [write_phase1_marker i (commit_marker env args original archived retained)
        (ce_agent_evolution env, agent_memory_skip_reason (ce_agent_evolution env) (effective_memory_types env policy)),
      write_archive_messages i archived]
     @ (case commit_plan args original of None \<Rightarrow> [] | Some p \<Rightarrow> [write_retention_plan i (retention_plan_meta args p)])
     @ [enqueue_commit \<lparr>cq_task_id = ce_task_id env, cq_archive = i, cq_memory_policy = memory_policy_to_dict policy,
                        cq_record_auto_commit = ca_record_auto_commit args\<rparr>,
        create_commit_task (ce_task_id env)]"

text \<open>After an exception a terminal marker is attempted, and the messages and the index are restored in memory.\<close>

definition abort_commit :: "nat \<Rightarrow> session_meta \<Rightarrow> io_event list \<Rightarrow> session \<Rightarrow> session_store \<Rightarrow> session \<times> session_store \<times> commit_result outcome" where
  "abort_commit i m evs s st =
     (let r = run_writes [write_failed_marker i] evs st
      in (s\<lparr>ses_meta := m\<rparr>, fst r, case snd r of Crashed \<Rightarrow> Died | _ \<Rightarrow> Failed StoreError))"

definition commit_archive :: "commit_env \<Rightarrow> commit_args \<Rightarrow> io_event list \<Rightarrow> memory_policy \<Rightarrow> message list \<Rightarrow> message list
    \<Rightarrow> session \<Rightarrow> session_store \<Rightarrow> session \<times> session_store \<times> commit_result outcome" where
  "commit_archive env args evs policy archived retained s st =
     (let i = Suc (ses_compression_index s); m = committed_meta env args i retained (ses_meta s);
          r = run_writes (archive_writes env args policy i (ses_messages s) archived retained @ write_root retained) evs st
      in case snd r of
           Crashed \<Rightarrow> (s, fst r, Died)
         | Raised evs \<Rightarrow> abort_commit i (ses_meta s) evs s (fst r)
         | Completed evs \<Rightarrow>
             (let q = run_writes [save_meta (ce_now env) m, write_phase1_ready i] evs (fst r)
              in case snd q of
                   Crashed \<Rightarrow> (s, fst q, Died)
                 | Raised evs \<Rightarrow> abort_commit i m evs s (fst q)
                 | Completed _ \<Rightarrow>
                     (s\<lparr>ses_messages := retained, ses_meta := m, ses_compression_index := i\<rparr>, fst q, Returned (CommitAccepted i))))"

definition commit_locked :: "commit_env \<Rightarrow> commit_args \<Rightarrow> io_event list \<Rightarrow> memory_policy \<Rightarrow> session \<Rightarrow> session_store
    \<Rightarrow> session \<times> session_store \<times> commit_result outcome" where
  "commit_locked env args evs policy s st =
     (let s = s\<lparr>ses_compression_index :=
            last_archive_index (nat (max (int (ses_compression_index s)) (sm_commit_count (ses_meta s)))) st\<rparr>
      in if ses_messages s = [] then commit_no_messages env args evs s st
         else
           let s = s\<lparr>ses_messages := (if turn_mode args then ce_externalize env (ses_messages s) else ses_messages s)\<rparr>;
               archived = fst (commit_split args (ses_messages s)); retained = snd (commit_split args (ses_messages s))
           in if archived = [] then commit_within_window env args evs retained s st
              else commit_archive env args evs policy archived retained s st)"

definition commit_async :: "commit_env \<Rightarrow> commit_args \<Rightarrow> io_event list \<Rightarrow> session \<Rightarrow> session_store
    \<Rightarrow> session \<times> session_store \<times> commit_result outcome" where
  "commit_async env args evs s st =
     (case check_commit_args args of
        Inl e \<Rightarrow> (s, st, Failed e)
      | Inr _ \<Rightarrow>
          (case (if ca_memory_policy args = None then Inr default_memory_policy
                 else effective_policy env (ca_memory_policy args) (ses_meta s)) of
             Inl e \<Rightarrow> (s, st, Failed e)
           | Inr _ \<Rightarrow>
               (case st_live st of
                  None \<Rightarrow> (s, st, Failed StoreError)
                | Some live \<Rightarrow>
                    let t = commit_snapshot args live s st
                    in case effective_policy env (ca_memory_policy args) (ses_meta t) of
                         Inl e \<Rightarrow> (t, st, Failed e)
                       | Inr policy \<Rightarrow> commit_locked env args evs policy t st)))"

section \<open>Recovery\<close>

definition phase1_applied :: "phase1_meta \<Rightarrow> message list \<Rightarrow> bool" where
  "phase1_applied p live =
     (let live_ids = map msg_id live; archived_only = set (p1_archived_ids p) - set (p1_retained_ids p)
      in take (length (p1_retained_ids p)) live_ids = p1_retained_ids p \<and> archived_only \<inter> set live_ids = {})"

definition recovered_session :: "string \<Rightarrow> nat \<Rightarrow> phase1_meta \<Rightarrow> message list \<Rightarrow> session \<Rightarrow> session_store \<Rightarrow> session" where
  "recovered_session now i p live s st =
     (let m = (case st_meta st of None \<Rightarrow> ses_meta s | Some m \<Rightarrow> m);
          m = remember_retention_policy (max 0 (p1_keep_recent_count p))
                (if p1_retention_mode p = [] then None else Some (p1_retention_mode p))
                (max 0 (p1_keep_recent_turn_count p)) (max 0 (p1_token_budget p)) (max 0 (p1_min_tail p)) m
      in rebuild_pending_tokens (s\<lparr>ses_messages := live,
           ses_meta := m\<lparr>sm_message_count := int (length live), sm_commit_count := max (sm_commit_count m) (int i),
                         sm_last_commit_at := now\<rparr>\<rparr>))"

definition fail_phase1 :: "nat \<Rightarrow> io_event list \<Rightarrow> session \<Rightarrow> session_store \<Rightarrow> session \<times> session_store \<times> bool outcome" where
  "fail_phase1 i evs s st =
     (let r = run_writes [write_failed_marker i] evs st
      in (s, fst r, case snd r of Completed _ \<Rightarrow> Returned False | Raised _ \<Rightarrow> Failed StoreError | Crashed \<Rightarrow> Died))"

definition ensure_phase1_ready :: "string \<Rightarrow> io_event list \<Rightarrow> nat \<Rightarrow> session \<Rightarrow> session_store \<Rightarrow> session \<times> session_store \<times> bool outcome" where
  "ensure_phase1_ready now evs i s st =
     (case ad_phase1 (archive_at st i) of
        None \<Rightarrow> (s, st, Returned True)
      | Some p \<Rightarrow>
          if p1_ready p then (s, st, Returned True)
          else if ad_failed (archive_at st i) then (s, st, Returned False)
          else if p1_task_id p = [] \<or> \<not> has_queue_work st (p1_task_id p) then fail_phase1 i evs s st
          else
            (case st_live st of
               None \<Rightarrow> fail_phase1 i evs s st
             | Some live \<Rightarrow>
                 if \<not> phase1_applied p live then fail_phase1 i evs s st
                 else
                   (let t = recovered_session now i p live s st;
                        r = run_writes [save_meta now (ses_meta t), write_phase1_ready i] evs st
                    in (t, fst r, case snd r of Completed _ \<Rightarrow> Returned True | Raised _ \<Rightarrow> Failed StoreError | Crashed \<Rightarrow> Died))))"

section \<open>What a reader sees\<close>

definition terminal_state :: "archive_dir \<Rightarrow> archive_state" where
  "terminal_state a = (if ad_done a then ArchiveCompleted else if ad_failed a then ArchiveFailed else ArchivePending)"

text \<open>Archive indices, the newest first.\<close>

definition archive_refs :: "session_store \<Rightarrow> nat list" where
  "archive_refs st = rev (sort (map fst (st_archives st)))"

definition newer_pending :: "session_store \<Rightarrow> nat list" where
  "newer_pending st = takeWhile (\<lambda>i. terminal_state (archive_at st i) = ArchivePending) (archive_refs st)"

definition archive_raw :: "session_store \<Rightarrow> nat \<Rightarrow> message list" where
  "archive_raw st i = (case ad_messages (archive_at st i) of None \<Rightarrow> [] | Some ms \<Rightarrow> ms)"

definition session_context_messages :: "message list \<Rightarrow> session_store \<Rightarrow> message list" where
  "session_context_messages live st =
     dedup_messages {} (concat (map (archive_raw st) (rev (newer_pending st))) @ live)"

definition can_run_archive :: "string \<Rightarrow> io_event list \<Rightarrow> nat \<Rightarrow> session \<Rightarrow> session_store \<Rightarrow> session \<times> session_store \<times> bool outcome" where
  "can_run_archive now evs i s st =
     (if i \<le> 1 \<or> i - 1 \<notin> fst ` set (st_archives st) then (s, st, Returned True)
      else if terminal_state (archive_at st (i - 1)) \<noteq> ArchivePending then (s, st, Returned True)
      else
        case ad_phase1 (archive_at st (i - 1)) of
          None \<Rightarrow> (s, st, Returned False)
        | Some p \<Rightarrow>
            if \<not> p1_ready p then
              (let r = ensure_phase1_ready now evs (i - 1) s st
               in (fst r, fst (snd r),
                   case snd (snd r) of Returned b \<Rightarrow> Returned (\<not> b) | Failed e \<Rightarrow> Failed e | Died \<Rightarrow> Died))
            else if p1_task_id p = [] \<or> has_queue_work st (p1_task_id p) then (s, st, Returned False)
            else
              (let r = run_writes [write_failed_marker (i - 1)] evs st
               in (s, fst r, case snd r of Completed _ \<Rightarrow> Returned True | Raised _ \<Rightarrow> Failed StoreError | Crashed \<Rightarrow> Died)))"

section \<open>How far the writes came\<close>

lemma archive_at_on_archive [simp]:
  "archive_at (on_archive i f st) j = (if j = i then f (archive_at st i) else archive_at st j)"
  by (simp add: archive_at_def on_archive_def update_conv' split: option.splits)

lemma on_archive_sel [simp]:
  "st_live (on_archive i f st) = st_live st" "st_meta (on_archive i f st) = st_meta st"
  "st_queue (on_archive i f st) = st_queue st" "has_queue_work (on_archive i f st) t = has_queue_work st t"
  "fst ` set (st_archives (on_archive i f st)) = insert i (fst ` set (st_archives st))"
  by (simp_all add: on_archive_def has_queue_work_def dom_update)

lemma distinct_on_archive: "distinct (map fst (st_archives st)) \<Longrightarrow> distinct (map fst (st_archives (on_archive i f st)))"
  by (simp add: on_archive_def distinct_update)

lemma last_archive_index_fresh: "Suc (last_archive_index i st) \<notin> fst ` set (st_archives st) \<and> i \<le> last_archive_index i st"
proof (induction i st rule: last_archive_index.induct)
  case (1 i st)
  show ?case
  proof (cases "Suc i \<in> fst ` set (st_archives st)")
    case True
    from 1 [OF True] True show ?thesis by (simp add: last_archive_index.simps [of i] Suc_le_lessD less_imp_le)
  qed (simp add: last_archive_index.simps [of i])
qed

lemma archive_at_fresh: "i \<notin> fst ` set (st_archives st) \<Longrightarrow> archive_at st i = empty_archive"
  by (auto simp: archive_at_def split: option.splits dest: map_of_SomeD intro: rev_image_eqI)

text \<open>
  \<open>partial_commit st i arch p t\<close>: the store \<open>t\<close> differs from \<open>st\<close> only by what the writes of a commit into the new archive
  \<open>i\<close> add, the live log is the old one, or the new one with the marker, the raw messages and the queue message of the archive in place.
\<close>

definition other_archives_same :: "session_store \<Rightarrow> nat \<Rightarrow> session_store \<Rightarrow> bool" where
  "other_archives_same st i t \<longleftrightarrow>
     (\<forall>j. j \<noteq> i \<longrightarrow> archive_at t j = archive_at st j)
     \<and> (fst ` set (st_archives t) = fst ` set (st_archives st) \<or> fst ` set (st_archives t) = insert i (fst ` set (st_archives st)))
     \<and> (distinct (map fst (st_archives st)) \<longrightarrow> distinct (map fst (st_archives t)))"

definition commit_trace :: "session_store \<Rightarrow> nat \<Rightarrow> phase1_meta \<Rightarrow> message list \<Rightarrow> message list \<Rightarrow> session_store \<Rightarrow> bool" where
  "commit_trace st i p archived retained t \<longleftrightarrow>
     other_archives_same st i t
     \<and> (ad_phase1 (archive_at t i) = None \<or> ad_phase1 (archive_at t i) = Some p \<or> ad_phase1 (archive_at t i) = Some (p\<lparr>p1_ready := True\<rparr>))
     \<and> (ad_messages (archive_at t i) = None \<or> ad_messages (archive_at t i) = Some archived)
     \<and> \<not> ad_done (archive_at t i)
     \<and> (st_live t = st_live st \<and> ad_phase1 (archive_at t i) \<noteq> Some (p\<lparr>p1_ready := True\<rparr>)
        \<or> st_live t = Some retained \<and> ad_phase1 (archive_at t i) \<noteq> None \<and> ad_messages (archive_at t i) = Some archived
          \<and> has_queue_work t (p1_task_id p))"

lemmas write_defs = write_phase1_marker_def write_archive_messages_def write_retention_plan_def enqueue_commit_def
  create_commit_task_def write_live_def save_meta_def write_phase1_ready_def write_failed_marker_def

lemma store_sel_simps [simp]:
  "archive_at (st\<lparr>st_live := l\<rparr>) j = archive_at st j" "archive_at (st\<lparr>st_meta := m\<rparr>) j = archive_at st j"
  "archive_at (st\<lparr>st_queue := q\<rparr>) j = archive_at st j" "archive_at (st\<lparr>st_tasks := ts\<rparr>) j = archive_at st j"
  "has_queue_work (st\<lparr>st_live := l\<rparr>) t = has_queue_work st t" "has_queue_work (st\<lparr>st_meta := m\<rparr>) t = has_queue_work st t"
  "has_queue_work (st\<lparr>st_tasks := ts\<rparr>) t = has_queue_work st t"
  "has_queue_work (st\<lparr>st_queue := qs\<rparr>) t \<longleftrightarrow> list_ex (\<lambda>q. cq_task_id q = t) qs"
  by (simp_all add: archive_at_def has_queue_work_def)

lemma other_archives_same_refl: "other_archives_same st i st"
  by (simp add: other_archives_same_def)

lemma other_archives_on_archive: "other_archives_same st i t \<Longrightarrow> other_archives_same st i (on_archive i f t)"
  by (auto simp: other_archives_same_def distinct_on_archive)

lemma other_archives_sel:
  "other_archives_same st i (t\<lparr>st_live := l\<rparr>) = other_archives_same st i t"
  "other_archives_same st i (t\<lparr>st_meta := m\<rparr>) = other_archives_same st i t"
  "other_archives_same st i (t\<lparr>st_queue := q\<rparr>) = other_archives_same st i t"
  "other_archives_same st i (t\<lparr>st_tasks := ts\<rparr>) = other_archives_same st i t"
  by (simp_all add: other_archives_same_def)

lemma ready_differs: "\<not> p1_ready p \<Longrightarrow> p\<lparr>p1_ready := True\<rparr> \<noteq> p" "\<not> p1_ready p \<Longrightarrow> p \<noteq> p\<lparr>p1_ready := True\<rparr>"
  by (cases p; simp)+

lemma commit_trace_start:
  "i \<notin> fst ` set (st_archives st) \<Longrightarrow> commit_trace st i p arch ret st"
  by (simp add: commit_trace_def archive_at_fresh empty_archive_def other_archives_same_refl)

lemma commit_writes_trace:
  assumes "i \<notin> fst ` set (st_archives st)" and "\<not> p1_ready p" and "cq_task_id q = p1_task_id p"
    and "pl = [] \<or> pl = [write_retention_plan i r]"
  shows "commit_trace st i p arch ret (fold (\<lambda>w. w) (take j
    (write_phase1_marker i p agent # write_archive_messages i arch # pl
     @ enqueue_commit q # create_commit_task tid # write_live ret # id # id # save_meta now m # write_phase1_ready i # [])) st)"
  using assms(4)
proof
  note simps = take_Cons' commit_trace_def write_defs archive_at_fresh empty_archive_def other_archives_same_refl
    other_archives_on_archive other_archives_sel ready_differs
  show "pl = [] \<Longrightarrow> ?thesis" using assms(1-3) by (simp add: simps)
  show "pl = [write_retention_plan i r] \<Longrightarrow> ?thesis" using assms(1-3) by (simp add: simps)
qed

subsection \<open>The outcomes of a commit\<close>

lemma trace_failed_marker:
  "commit_trace st i p arch ret t \<Longrightarrow> commit_trace st i p arch ret (write_failed_marker i t)"
  unfolding commit_trace_def by (auto simp: write_defs other_archives_on_archive)

lemma archive_writes_shape:
  "\<exists>agent q pl. archive_writes env args policy i original arch ret =
     write_phase1_marker i (commit_marker env args original arch ret) agent # write_archive_messages i arch # pl
     @ [enqueue_commit q, create_commit_task (ce_task_id env)]
     \<and> (pl = [] \<or> (\<exists>r. pl = [write_retention_plan i r])) \<and> cq_task_id q = ce_task_id env"
  by (cases "commit_plan args original") (auto simp: archive_writes_def)

lemma commit_marker_sel [simp]:
  "\<not> p1_ready (commit_marker env args original arch ret)" "p1_task_id (commit_marker env args original arch ret) = ce_task_id env"
  "p1_archived_ids (commit_marker env args original arch ret) = map msg_id arch"
  "p1_retained_ids (commit_marker env args original arch ret) = map msg_id ret"
  by (simp_all add: commit_marker_def)

text \<open>The store after any number of the writes of a commit.\<close>

lemma commit_prefix_trace:
  assumes "i \<notin> fst ` set (st_archives st)"
  shows "commit_trace st i (commit_marker env args original arch ret) arch ret
    (fold (\<lambda>w. w) (take j (archive_writes env args policy i original arch ret @ write_root ret @ [save_meta now m, write_phase1_ready i])) st)"
proof -
  obtain agent q pl where s: "archive_writes env args policy i original arch ret =
      write_phase1_marker i (commit_marker env args original arch ret) agent # write_archive_messages i arch # pl
      @ [enqueue_commit q, create_commit_task (ce_task_id env)]"
    "pl = [] \<or> (\<exists>r. pl = [write_retention_plan i r])" "cq_task_id q = ce_task_id env"
    using archive_writes_shape by blast
  from s(2) obtain r where pl: "pl = [] \<or> pl = [write_retention_plan i r]" by blast
  show ?thesis
    using commit_writes_trace [OF assms commit_marker_sel(1) _ pl, where q = q] s(3) unfolding s(1) write_root_def by simp
qed

lemma commit_all_writes:
  fixes i st env args policy original arch ret and now :: string and m :: session_meta
  defines "t \<equiv> fold (\<lambda>w. w) (archive_writes env args policy i original arch ret @ write_root ret @ [save_meta now m, write_phase1_ready i]) st"
  shows "i \<notin> fst ` set (st_archives st) \<Longrightarrow> st_live t = Some ret
    \<and> ad_phase1 (archive_at t i) = Some ((commit_marker env args original arch ret)\<lparr>p1_ready := True\<rparr>) \<and> \<not> ad_failed (archive_at t i)"
  unfolding t_def
  by (cases "commit_plan args original")
    (simp_all add: archive_writes_def write_root_def write_defs archive_at_fresh empty_archive_def)

text \<open>What a commit into a new archive can leave behind, with its result.\<close>

lemma abort_commit_trace:
  assumes "commit_trace st i p arch ret t"
  shows "commit_trace st i p arch ret (fst (snd (abort_commit i m evs s t)))"
    and "snd (snd (abort_commit i m evs s t)) \<noteq> Returned c"
proof -
  obtain j where "fst (run_writes [write_failed_marker i] evs t) = fold (\<lambda>w. w) (take j [write_failed_marker i]) t"
    using run_writes_prefix [of "[write_failed_marker i]" evs t] by blast
  then show "commit_trace st i p arch ret (fst (snd (abort_commit i m evs s t)))"
    using assms trace_failed_marker [OF assms] by (cases j) (simp_all add: abort_commit_def Let_def)
  show "snd (snd (abort_commit i m evs s t)) \<noteq> Returned c"
    by (simp add: abort_commit_def Let_def split: run_end.split)
qed

lemma commit_archive_cases:
  fixes s st env args evs policy arch ret
  defines "i \<equiv> Suc (ses_compression_index s)" and "p \<equiv> commit_marker env args (ses_messages s) arch ret"
  assumes fresh: "i \<notin> fst ` set (st_archives st)" and run: "commit_archive env args evs policy arch ret s st = (s', st', out)"
  shows "commit_trace st i p arch ret st'"
    and "\<And>c. out = Returned c \<Longrightarrow> c = CommitAccepted i \<and> st_live st' = Some ret
        \<and> ad_phase1 (archive_at st' i) = Some (p\<lparr>p1_ready := True\<rparr>) \<and> \<not> ad_failed (archive_at st' i)"
proof -
  define first where "first = archive_writes env args policy i (ses_messages s) arch ret @ write_root ret"
  define m where "m = committed_meta env args i ret (ses_meta s)"
  define last where "last = [save_meta (ce_now env) m, write_phase1_ready i]"
  have trace: "commit_trace st i p arch ret (fold (\<lambda>w. w) (take j (first @ last)) st)" for j
    using commit_prefix_trace [OF fresh] unfolding first_def last_def p_def by simp
  obtain j where j: "j \<le> length first" "fst (run_writes first evs st) = fold (\<lambda>w. w) (take j first) st"
    "\<And>es. snd (run_writes first evs st) = Completed es \<Longrightarrow> j = length first"
    using run_writes_prefix [of first evs st] by blast
  have t1: "commit_trace st i p arch ret (fst (run_writes first evs st))"
    using trace [of j] j(1,2) by simp
  have run': "commit_archive env args evs policy arch ret s st =
      (case snd (run_writes first evs st) of
         Crashed \<Rightarrow> (s, fst (run_writes first evs st), Died)
       | Raised es \<Rightarrow> abort_commit i (ses_meta s) es s (fst (run_writes first evs st))
       | Completed es \<Rightarrow>
           (case snd (run_writes last es (fst (run_writes first evs st))) of
              Crashed \<Rightarrow> (s, fst (run_writes last es (fst (run_writes first evs st))), Died)
            | Raised es' \<Rightarrow> abort_commit i m es' s (fst (run_writes last es (fst (run_writes first evs st))))
            | Completed _ \<Rightarrow> (s\<lparr>ses_messages := ret, ses_meta := m, ses_compression_index := i\<rparr>,
                fst (run_writes last es (fst (run_writes first evs st))), Returned (CommitAccepted i))))"
    unfolding commit_archive_def Let_def first_def last_def m_def i_def by (rule refl)
  have later: "commit_trace st i p arch ret (fst (run_writes last es (fst (run_writes first evs st))))"
    "snd (run_writes last es (fst (run_writes first evs st))) = Completed es' \<Longrightarrow>
       fst (run_writes last es (fst (run_writes first evs st))) = fold (\<lambda>w. w) (first @ last) st"
    if "snd (run_writes first evs st) = Completed es" for es es'
  proof -
    have all: "fst (run_writes first evs st) = fold (\<lambda>w. w) first st" using j that by simp
    obtain k where k: "k \<le> length last" "fst (run_writes last es (fold (\<lambda>w. w) first st)) = fold (\<lambda>w. w) (take k last) (fold (\<lambda>w. w) first st)"
      "\<And>es'. snd (run_writes last es (fold (\<lambda>w. w) first st)) = Completed es' \<Longrightarrow> k = length last"
      using run_writes_prefix [of last es "fold (\<lambda>w. w) first st"] by blast
    show "commit_trace st i p arch ret (fst (run_writes last es (fst (run_writes first evs st))))"
      using trace [of "length first + k"] k(2) unfolding all by simp
    show "snd (run_writes last es (fst (run_writes first evs st))) = Completed es' \<Longrightarrow>
       fst (run_writes last es (fst (run_writes first evs st))) = fold (\<lambda>w. w) (first @ last) st"
      using k unfolding all by simp
  qed
  show "commit_trace st i p arch ret st'"
    using run t1 later(1) abort_commit_trace(1) unfolding run' by (auto split: run_end.splits simp: prod_eq_iff)
  fix c assume "out = Returned c"
  with run abort_commit_trace(2) [OF t1] abort_commit_trace(2) [OF later(1)] obtain es es' where
    e: "snd (run_writes first evs st) = Completed es" "snd (run_writes last es (fst (run_writes first evs st))) = Completed es'"
    "st' = fst (run_writes last es (fst (run_writes first evs st)))" "c = CommitAccepted i"
    unfolding run' by (auto split: run_end.splits simp: prod_eq_iff)
  from later(2) [OF e(1,2)] e(3) have "st' = fold (\<lambda>w. w) (first @ last) st" by simp
  with commit_all_writes [OF fresh, where now = "ce_now env" and m = m] e(4)
  show "c = CommitAccepted i \<and> st_live st' = Some ret \<and> ad_phase1 (archive_at st' i) = Some (p\<lparr>p1_ready := True\<rparr>)
      \<and> \<not> ad_failed (archive_at st' i)"
    unfolding first_def last_def p_def by simp
qed

section \<open>What readers see across a commit\<close>

definition live_ids :: "session_store \<Rightarrow> string list" where
  "live_ids st = map msg_id (case st_live st of None \<Rightarrow> [] | Some ms \<Rightarrow> ms)"

definition archive_ids :: "session_store \<Rightarrow> nat \<Rightarrow> string list" where
  "archive_ids st i = map msg_id (archive_raw st i)"

text \<open>The ids of the raw messages a reader of the session gets.\<close>

definition context_ids :: "session_store \<Rightarrow> string list" where
  "context_ids st = map msg_id (session_context_messages (case st_live st of None \<Rightarrow> [] | Some ms \<Rightarrow> ms) st)"

definition archives_numbered :: "nat \<Rightarrow> session_store \<Rightarrow> bool" where
  "archives_numbered n st \<longleftrightarrow> distinct (map fst (st_archives st)) \<and> set (map fst (st_archives st)) = {1..<Suc n}"

fun first_ids :: "string set \<Rightarrow> string list \<Rightarrow> string list" where
  "first_ids seen [] = []"
| "first_ids seen (x # xs) = (if x \<in> seen then first_ids seen xs else x # first_ids (insert x seen) xs)"

lemma dedup_ids: "map msg_id (dedup_messages seen ms) = first_ids seen (map msg_id ms)"
  by (induction ms arbitrary: seen) simp_all

lemma first_ids_append: "first_ids seen (xs @ ys) = first_ids seen xs @ first_ids (seen \<union> set xs) ys"
  by (induction xs arbitrary: seen) (auto simp: insert_absorb)

lemma first_ids_seen: "set xs \<subseteq> seen \<Longrightarrow> first_ids seen xs = []"
  by (induction xs) auto

lemma context_ids_first:
  "context_ids st = first_ids {} (concat (map (archive_ids st) (rev (newer_pending st))) @ live_ids st)"
  by (simp add: context_ids_def session_context_messages_def dedup_ids live_ids_def map_concat comp_def archive_ids_def [abs_def])

lemma numbered_refs: "archives_numbered n st \<Longrightarrow> archive_refs st = rev [1..<Suc n]"
  unfolding archives_numbered_def archive_refs_def
  by (metis distinct_upt set_upt sorted_distinct_set_unique sorted_sort distinct_sort set_sort sorted_upt)

lemma last_archive_index_numbered:
  assumes "archives_numbered n st" and "i \<le> n"
  shows "last_archive_index i st = n"
  using assms
proof (induction i st rule: last_archive_index.induct)
  case (1 i st)
  have "Suc i \<in> fst ` set (st_archives st) \<longleftrightarrow> i < n" using 1(2) by (auto simp: archives_numbered_def)
  with 1 show ?case by (subst last_archive_index.simps) auto
qed

lemma numbered_fresh: "archives_numbered n st \<Longrightarrow> Suc n \<notin> fst ` set (st_archives st)"
  by (auto simp: archives_numbered_def)

text \<open>The split of a commit: the archived part is a prefix, and archive and retained messages together read like the messages.\<close>

lemma commit_split_reads:
  assumes "commit_split args ms = (arch, ret)"
  shows "\<exists>t. ms = arch @ t" and "first_ids seen (map msg_id arch @ map msg_id ret) = first_ids seen (map msg_id ms)"
    and "arch = [] \<Longrightarrow> ret = ms"
    and "arch @ ret = ms \<or> (\<exists>older a pre tail. ms = older @ a # pre @ tail \<and> arch = older @ a # pre \<and> ret = a # tail)"
proof -
  show split: "arch @ ret = ms \<or> (\<exists>older a pre tail. ms = older @ a # pre @ tail \<and> arch = older @ a # pre \<and> ret = a # tail)"
  proof (cases "commit_plan args ms")
    case None
    then show ?thesis using assms by (auto simp: commit_split_def Let_def split: if_splits)
  next
    case (Some p)
    then have p: "p = plan_retention ms (effective_keep_turns args) (effective_token_budget args) (effective_min_tail args)"
      by (auto simp: commit_plan_def split: if_splits)
    show ?thesis
      using plan_retention_split [of ms "effective_keep_turns args" "effective_token_budget args" "effective_min_tail args"] Some assms
      unfolding p [symmetric] commit_split_def by (auto simp: Let_def split: if_splits)
  qed
  then show "\<exists>t. ms = arch @ t" and "arch = [] \<Longrightarrow> ret = ms" by auto
  have anchor: "first_ids seen (A @ x # B) = first_ids seen (A @ B)" if "x \<in> set A" for A B x
    using that by (simp add: first_ids_append)
  have "first_ids seen (map msg_id (older @ a # pre) @ msg_id a # map msg_id tail) =
      first_ids seen (map msg_id (older @ a # pre) @ map msg_id tail)" for older a pre tail
    by (rule anchor) simp
  with split show "first_ids seen (map msg_id arch @ map msg_id ret) = first_ids seen (map msg_id ms)"
    by (elim disjE exE conjE) (simp only: map_append [symmetric], simp)
qed

definition quiet :: "session_store \<Rightarrow> session_store \<Rightarrow> bool" where
  "quiet st t \<longleftrightarrow> st_archives t = st_archives st \<and> st_queue t = st_queue st \<and> live_ids t = live_ids st
     \<and> (st_live st \<noteq> None \<longrightarrow> st_live t \<noteq> None)"

lemma quiet_save_meta: "quiet st t \<Longrightarrow> quiet st (fst (run_writes [save_meta now m] evs t))"
  by (rule run_writes_inv) (auto simp: quiet_def save_meta_def live_ids_def)

lemma quiet_write_root: "map msg_id ms = live_ids st \<Longrightarrow> quiet st t \<Longrightarrow> quiet st (fst (run_writes (write_root ms) evs t))"
  by (rule run_writes_inv) (auto simp: quiet_def write_root_def write_live_def live_ids_def)

lemma commit_no_messages_quiet:
  "quiet st (fst (snd (commit_no_messages env args evs s st)))" "snd (snd (commit_no_messages env args evs s st)) \<noteq> Returned (CommitAccepted i)"
  by (auto simp: commit_no_messages_def Let_def quiet_save_meta [of st st] quiet_def [of st st] split: run_end.split)

lemma commit_within_window_quiet:
  assumes "map msg_id ret = live_ids st"
  shows "quiet st (fst (snd (commit_within_window env args evs ret s st)))"
    and "snd (snd (commit_within_window env args evs ret s st)) \<noteq> Returned (CommitAccepted i)"
  using quiet_write_root [OF assms, of st evs] quiet_save_meta
  by (auto simp: commit_within_window_def Let_def quiet_def [of st st] split: run_end.split)

text \<open>A commit either leaves the archives alone, or writes into the new archive only.\<close>

lemma commit_locked_cases:
  assumes run: "commit_locked env args evs policy s st = (s', st', out)"
    and live: "st_live st = Some (ses_messages s)" and numbered: "archives_numbered n st"
    and counter: "ses_compression_index s \<le> n" "sm_commit_count (ses_meta s) \<le> int n"
    and ext: "\<And>ms. map msg_id (ce_externalize env ms) = map msg_id ms"
  obtains (same) "quiet st st'" "\<And>i. out \<noteq> Returned (CommitAccepted i)"
  | (archived) original arch ret where "commit_split args original = (arch, ret)" "arch \<noteq> []" "map msg_id original = live_ids st"
      "commit_trace st (Suc n) (commit_marker env args original arch ret) arch ret st'"
      "\<And>c. out = Returned c \<Longrightarrow> c = CommitAccepted (Suc n) \<and> st_live st' = Some ret
        \<and> ad_phase1 (archive_at st' (Suc n)) = Some ((commit_marker env args original arch ret)\<lparr>p1_ready := True\<rparr>)
        \<and> \<not> ad_failed (archive_at st' (Suc n))"
proof -
  have max: "nat (max (int (ses_compression_index s)) (sm_commit_count (ses_meta s))) \<le> n" using counter by simp
  define s1 where "s1 = s\<lparr>ses_compression_index := n\<rparr>"
  define s2 where "s2 = s1\<lparr>ses_messages := (if turn_mode args then ce_externalize env (ses_messages s) else ses_messages s)\<rparr>"
  obtain arch ret where split: "commit_split args (ses_messages s2) = (arch, ret)" by fastforce
  have run': "commit_locked env args evs policy s st =
      (if ses_messages s = [] then commit_no_messages env args evs s1 st
       else if arch = [] then commit_within_window env args evs ret s2 st else commit_archive env args evs policy arch ret s2 st)"
    using split
    by (cases "turn_mode args") (simp_all add: commit_locked_def last_archive_index_numbered [OF numbered max] Let_def s2_def s1_def)
  have ids: "map msg_id (ses_messages s2) = live_ids st" by (simp add: s2_def s1_def live_ids_def live ext)
  have index: "Suc (ses_compression_index s2) = Suc n" by (simp add: s2_def s1_def)
  consider "ses_messages s = []" | "ses_messages s \<noteq> []" "arch = []" | "ses_messages s \<noteq> []" "arch \<noteq> []" by blast
  then show thesis
  proof cases
    case 1
    with run commit_no_messages_quiet [where s = s1 and st = st and env = env and args = args and evs = evs] show thesis unfolding run' by (intro same) simp_all
  next
    case 2
    with commit_split_reads(3) [OF split] ids have ret: "map msg_id ret = live_ids st" by simp
    from 2 run have "commit_within_window env args evs ret s2 st = (s', st', out)" unfolding run' by simp
    with commit_within_window_quiet [OF ret, of env args evs s2] show thesis by (intro same) simp_all
  next
    case 3
    with run have "commit_archive env args evs policy arch ret s2 st = (s', st', out)" unfolding run' by simp
    from commit_archive_cases [OF _ this] numbered_fresh [OF numbered] 3(2) show thesis
      unfolding index by (intro archived [OF split _ ids]) simp_all
  qed
qed

text \<open>The session and the store that a commit starts from: archives numbered from 1, counters that do not exceed them, and an
  externalisation of tool outputs that keeps the ids.\<close>

definition commit_ready :: "nat \<Rightarrow> session \<Rightarrow> session_store \<Rightarrow> bool" where
  "commit_ready n s st \<longleftrightarrow>
     archives_numbered n st \<and> ses_compression_index s \<le> n
     \<and> sm_commit_count (case st_meta st of None \<Rightarrow> ses_meta s | Some m \<Rightarrow> m) \<le> int n"

lemma commit_async_cases:
  assumes run: "commit_async env args evs s st = (s', st', out)" and ready: "commit_ready n s st"
    and ext: "\<And>ms. map msg_id (ce_externalize env ms) = map msg_id ms"
  obtains (same) "quiet st st'" "\<And>i. out \<noteq> Returned (CommitAccepted i)"
  | (archived) original arch ret where "commit_split args original = (arch, ret)" "arch \<noteq> []" "map msg_id original = live_ids st"
      "commit_trace st (Suc n) (commit_marker env args original arch ret) arch ret st'"
      "\<And>c. out = Returned c \<Longrightarrow> c = CommitAccepted (Suc n) \<and> st_live st' = Some ret
        \<and> ad_phase1 (archive_at st' (Suc n)) = Some ((commit_marker env args original arch ret)\<lparr>p1_ready := True\<rparr>)
        \<and> \<not> ad_failed (archive_at st' (Suc n))"
proof -
  consider "st' = st" "\<And>i. out \<noteq> Returned (CommitAccepted i)"
    | live policy where "st_live st = Some live" "commit_locked env args evs policy (commit_snapshot args live s st) st = (s', st', out)"
    using run by (auto simp: commit_async_def Let_def split: sum.splits option.splits)
  then show thesis
  proof cases
    case 1
    then show thesis by (intro same) (simp_all add: quiet_def)
  next
    case 2
    have c: "ses_compression_index (commit_snapshot args live s st) \<le> n" "sm_commit_count (ses_meta (commit_snapshot args live s st)) \<le> int n"
      "st_live st = Some (ses_messages (commit_snapshot args live s st))" "archives_numbered n st"
      using ready 2(1) by (auto simp: commit_ready_def commit_snapshot_def split: option.splits)
    show thesis by (rule commit_locked_cases [OF 2(2) c(3,4,1,2) ext same archived])
  qed
qed

lemma newer_pending_cong:
  assumes "archive_refs t = archive_refs st" and "\<And>j. j \<in> set (archive_refs st) \<Longrightarrow> archive_at t j = archive_at st j"
  shows "newer_pending t = newer_pending st"
  unfolding newer_pending_def assms(1) using assms(2) by (intro takeWhile_cong) simp_all

lemma trace_context:
  assumes trace: "commit_trace st (Suc n) p arch ret t" and numbered: "archives_numbered n st"
    and split: "commit_split args original = (arch, ret)" "map msg_id original = live_ids st"
    and ok: "\<not> ad_failed (archive_at t (Suc n))"
  shows "context_ids t = context_ids st"
proof -
  have same: "archive_at t j = archive_at st j" if "j \<noteq> Suc n" for j
    using trace that by (simp add: commit_trace_def other_archives_same_def)
  have refs: "archive_refs st = rev [1..<Suc n]" by (rule numbered_refs [OF numbered])
  have pend: "terminal_state (archive_at t (Suc n)) = ArchivePending"
    using trace ok by (simp add: commit_trace_def terminal_state_def)
  have older: "takeWhile (\<lambda>i. terminal_state (archive_at t i) = ArchivePending) (rev [1..<Suc n]) = newer_pending st"
    unfolding newer_pending_def refs using same by (intro takeWhile_cong) auto
  have arch: "map (archive_ids t) (rev (newer_pending st)) = map (archive_ids st) (rev (newer_pending st))"
  proof (intro map_cong refl)
    fix j assume "j \<in> set (rev (newer_pending st))"
    then have "j \<in> set (rev [1..<Suc n])" unfolding newer_pending_def refs by (metis set_rev set_takeWhileD)
    then have "j \<noteq> Suc n" by (auto split: if_splits)
    then show "archive_ids t j = archive_ids st j" unfolding archive_ids_def archive_raw_def by (simp add: same)
  qed
  have live: "live_ids t = live_ids st \<or> live_ids t = map msg_id ret \<and> ad_messages (archive_at t (Suc n)) = Some arch
      \<and> ad_phase1 (archive_at t (Suc n)) \<noteq> None"
    using trace by (auto simp: commit_trace_def live_ids_def)
  have prefix: "\<exists>rest. map msg_id original = map msg_id arch @ rest"
    using commit_split_reads(1) [OF split(1)] by auto
  let ?P = "concat (map (archive_ids st) (rev (newer_pending st)))"
  have fs: "fst ` set (st_archives t) = fst ` set (st_archives st) \<or> fst ` set (st_archives t) = insert (Suc n) (fst ` set (st_archives st))"
    "distinct (map fst (st_archives t))"
    using trace numbered by (auto simp: commit_trace_def other_archives_same_def archives_numbered_def)
  from fs(1) show ?thesis
  proof
    assume old: "fst ` set (st_archives t) = fst ` set (st_archives st)"
    with fs(2) numbered have "archives_numbered n t" by (simp add: archives_numbered_def)
    then have "newer_pending t = newer_pending st" using older by (simp add: numbered_refs newer_pending_def)
    moreover have "archive_at t (Suc n) = empty_archive"
      using old numbered_fresh [OF numbered] by (intro archive_at_fresh) simp
    ultimately have "live_ids t = live_ids st" "newer_pending t = newer_pending st" using live by (simp_all add: empty_archive_def)
    then show ?thesis by (simp only: context_ids_first arch)
  next
    assume "fst ` set (st_archives t) = insert (Suc n) (fst ` set (st_archives st))"
    with fs(2) numbered have "archives_numbered (Suc n) t" by (auto simp: archives_numbered_def)
    then have "newer_pending t = Suc n # newer_pending st"
      using older pend numbered_refs [of "Suc n" t] by (simp add: newer_pending_def)
    then have ctx: "context_ids t = first_ids {} (?P @ archive_ids t (Suc n) @ live_ids t)"
      unfolding context_ids_first by (simp only: rev.simps map_append arch) simp
    have "archive_ids t (Suc n) = [] \<or> archive_ids t (Suc n) = map msg_id arch"
      using trace by (auto simp: commit_trace_def archive_ids_def archive_raw_def)
    from this live have "first_ids seen (archive_ids t (Suc n) @ live_ids t) = first_ids seen (live_ids st)" for seen
    proof (elim disjE conjE)
      assume l: "live_ids t = live_ids st" and "archive_ids t (Suc n) = map msg_id arch"
      moreover from prefix obtain rest where "live_ids st = map msg_id arch @ rest" using split(2) by auto
      ultimately show ?thesis by (simp add: first_ids_append first_ids_seen insert_absorb)
    next
      assume "live_ids t = map msg_id ret" and "archive_ids t (Suc n) = map msg_id arch"
      then show ?thesis using commit_split_reads(2) [OF split(1), of seen] split(2) by simp
    next
      assume "live_ids t = map msg_id ret" and "ad_messages (archive_at t (Suc n)) = Some arch"
      then show ?thesis using commit_split_reads(2) [OF split(1), of seen] split(2) by (simp add: archive_ids_def archive_raw_def)
    qed simp_all
    then show ?thesis unfolding ctx context_ids_first [of st] first_ids_append [of "{}" ?P] by simp
  qed
qed

lemma quiet_context: "quiet st t \<Longrightarrow> context_ids t = context_ids st"
  by (simp add: quiet_def context_ids_first newer_pending_def archive_refs_def archive_at_def [abs_def] archive_ids_def [abs_def]
      archive_raw_def [abs_def])

lemma quiet_fresh: "quiet st t \<Longrightarrow> archives_numbered n st \<Longrightarrow> archive_at t (Suc n) = empty_archive"
  by (rule archive_at_fresh) (auto simp: quiet_def archives_numbered_def)

lemma fresh_not_failed: "\<not> ad_failed empty_archive"
  by (simp add: empty_archive_def)

text \<open>A session of two messages, a commit that keeps one, and its run with given write events.\<close>

definition commit_env_sample :: commit_env where
  "commit_env_sample = \<lparr>ce_now = ''t1'', ce_task_id = ''k1'', ce_enabled_types = {cps ''events''}, ce_agent_evolution = True,
     ce_policy_provider = None, ce_externalize = (\<lambda>ms. ms)\<rparr>"

definition commit_args_sample :: commit_args where
  "commit_args_sample = \<lparr>ca_keep_recent_count = 1, ca_memory_policy = None, ca_retention_mode = None, ca_keep_recent_turn_count = None,
     ca_token_budget = None, ca_min_tail = None, ca_persist_keep_recent_count = True, ca_record_auto_commit = False\<rparr>"

definition commit_session_sample :: session where
  "commit_session_sample = \<lparr>ses_messages = [], ses_meta = new_session_meta ''s'' ''t0'' ''acme'' ''u'', ses_compression_index = 0,
     ses_total_turns = 0, ses_total_tokens = 0\<rparr>"

definition commit_store_sample :: session_store where
  "commit_store_sample = \<lparr>st_live = Some demo_messages, st_meta = None, st_archives = [], st_queue = [], st_tasks = []\<rparr>"

definition commit_sample :: "io_event list \<Rightarrow> session \<times> session_store \<times> commit_result outcome" where
  "commit_sample evs = commit_async commit_env_sample commit_args_sample evs commit_session_sample commit_store_sample"

lemma commit_sample_ready:
  "commit_ready 0 commit_session_sample commit_store_sample" "\<forall>ms. map msg_id (ce_externalize commit_env_sample ms) = map msg_id ms"
  by (simp_all add: commit_ready_def archives_numbered_def commit_session_sample_def commit_store_sample_def commit_env_sample_def
      new_session_meta_def)

lemma commit_sample_run:
  "commit_async commit_env_sample commit_args_sample evs commit_session_sample commit_store_sample =
     (fst (commit_sample evs), fst (snd (commit_sample evs)), snd (snd (commit_sample evs)))"
  by (simp add: commit_sample_def)

text \<open>C6: a commit does not change what a reader of the session sees. However the writes of a commit end, each of them done, raised
  or cut off by a crash, with or without effect: unless the new archive got a failed marker, the pending archives and the
  live log together give the same messages, in the same order and once each, as before; and a commit that returns leaves no failed marker.\<close>

theorem commit_context_unchanged:
  assumes "commit_async env args evs s st = (s', st', out)" and "commit_ready n s st"
    and "\<forall>ms. map msg_id (ce_externalize env ms) = map msg_id ms"
  shows "(\<not> ad_failed (archive_at st' (Suc n)) \<longrightarrow> context_ids st' = context_ids st)
    \<and> (\<forall>c. out = Returned c \<longrightarrow> \<not> ad_failed (archive_at st' (Suc n)))"
proof -
  have n: "archives_numbered n st" using assms(2) by (simp add: commit_ready_def)
  have ext: "\<And>ms. map msg_id (ce_externalize env ms) = map msg_id ms" using assms(3) by blast
  from assms(1,2) ext show ?thesis
  proof (cases rule: commit_async_cases)
    case same
    then show ?thesis by (simp add: quiet_context quiet_fresh [OF _ n] empty_archive_def)
  next
    case (archived original arch ret)
    then show ?thesis using trace_context [OF archived(4) n archived(1,3)] by blast
  qed
qed

theorem commit_context_unchanged_witness:
  "context_ids (fst (snd (commit_sample []))) = [''a'', ''b''] \<and> live_ids (fst (snd (commit_sample []))) = [''b'']"
proof -
  have "\<not> ad_failed (archive_at (fst (snd (commit_sample []))) (Suc 0))" "context_ids commit_store_sample = [''a'', ''b'']"
    "live_ids (fst (snd (commit_sample []))) = [''b'']"
    by code_simp+
  with commit_context_unchanged [OF commit_sample_run commit_sample_ready] show ?thesis by metis
qed

text \<open>C28: a failed commit hides messages. When the new archive got a failed marker, a reader sees the live log alone, without
  the raw messages of any archive; and the live log can already be cut down to the retained messages.\<close>

theorem failed_commit_context:
  assumes "commit_async env args evs s st = (s', st', out)" and "commit_ready n s st"
    and "\<forall>ms. map msg_id (ce_externalize env ms) = map msg_id ms"
    and "ad_failed (archive_at st' (Suc n))"
  shows "context_ids st' = first_ids {} (live_ids st')
    \<and> (live_ids st' = live_ids st
       \<or> (\<exists>original arch ret. map msg_id original = live_ids st \<and> commit_split args original = (arch, ret)
            \<and> archive_ids st' (Suc n) = map msg_id arch \<and> live_ids st' = map msg_id ret))"
proof -
  have n: "archives_numbered n st" using assms(2) by (simp add: commit_ready_def)
  have ext: "\<And>ms. map msg_id (ce_externalize env ms) = map msg_id ms" using assms(3) by blast
  from assms(1,2) ext show ?thesis
  proof (cases rule: commit_async_cases)
    case same
    with quiet_fresh [OF same(1) n] assms(4) show ?thesis by (simp add: empty_archive_def)
  next
    case (archived original arch ret)
    note trace = archived(4)
    have "Suc n \<in> fst ` set (st_archives st')"
      using archive_at_fresh [of "Suc n" st'] assms(4) by (metis fresh_not_failed)
    moreover have "distinct (map fst (st_archives st'))" "fst ` set (st_archives st') = fst ` set (st_archives st)
        \<or> fst ` set (st_archives st') = insert (Suc n) (fst ` set (st_archives st))"
      using trace n by (auto simp: commit_trace_def other_archives_same_def archives_numbered_def)
    moreover have "fst ` set (st_archives st) = {1..<Suc n}" "insert (Suc n) {1..<Suc n} = {1..<Suc (Suc n)}" "Suc n \<notin> {1..<Suc n}"
      using n by (auto simp: archives_numbered_def)
    ultimately have "archives_numbered (Suc n) st'" unfolding archives_numbered_def set_map by metis
    from numbered_refs [OF this] have "newer_pending st' = []"
      using trace assms(4) by (simp add: newer_pending_def terminal_state_def commit_trace_def)
    then have "context_ids st' = first_ids {} (live_ids st')" by (simp add: context_ids_first)
    moreover have "live_ids st' = live_ids st \<or> archive_ids st' (Suc n) = map msg_id arch \<and> live_ids st' = map msg_id ret"
      using trace by (auto simp: commit_trace_def live_ids_def archive_ids_def archive_raw_def)
    ultimately show ?thesis using archived(1,3) by blast
  qed
qed

theorem failed_commit_context_witness:
  "let st = fst (snd (commit_sample (replicate 7 IoOk @ [IoRaises False])))
   in context_ids commit_store_sample = [''a'', ''b''] \<and> context_ids st = [''b''] \<and> archive_ids st 1 = [''a'']"
proof -
  let ?st = "fst (snd (commit_sample (replicate 7 IoOk @ [IoRaises False])))"
  have "ad_failed (archive_at ?st (Suc 0))" "first_ids {} (live_ids ?st) = [''b'']" "context_ids commit_store_sample = [''a'', ''b'']"
    "archive_ids ?st 1 = [''a'']"
    by code_simp+
  with failed_commit_context [OF commit_sample_run commit_sample_ready, of "replicate 7 IoOk @ [IoRaises False]"] show ?thesis
    by (simp only: Let_def One_nat_def)
qed

section \<open>Recovery after a crash\<close>

text \<open>Messages that other requests append to the log between the crash and the recovery.\<close>

definition append_live :: "message list \<Rightarrow> session_store \<Rightarrow> session_store" where
  "append_live new st = st\<lparr>st_live := map_option (\<lambda>ms. ms @ new) (st_live st)\<rparr>"

lemma append_live_sel [simp]:
  "archive_at (append_live new st) j = archive_at st j" "has_queue_work (append_live new st) t = has_queue_work st t"
  "st_live (append_live new st) = map_option (\<lambda>ms. ms @ new) (st_live st)"
  by (simp_all add: append_live_def archive_at_def has_queue_work_def)

text \<open>If the retained log is in place, the recovery recognises it: the split is a prefix cut, and the ids are distinct.\<close>

lemma split_applied:
  assumes "commit_split args original = (arch, ret)" and "distinct (map msg_id original @ map msg_id new)"
    and "p1_archived_ids p = map msg_id arch" "p1_retained_ids p = map msg_id ret"
  shows "phase1_applied p (ret @ new)"
proof -
  have "set (map msg_id arch) \<subseteq> set (map msg_id original)" using commit_split_reads(4) [OF assms(1)] by auto
  moreover have "set (map msg_id original) \<inter> set (map msg_id new) = {}" using assms(2) by auto
  ultimately have "(set (map msg_id arch) - set (map msg_id ret)) \<inter> (set (map msg_id ret) \<union> set (map msg_id new)) = {}" by blast
  then show ?thesis by (simp add: phase1_applied_def assms(3,4))
qed

lemma applied_disjoint: "phase1_applied p ms \<Longrightarrow> (set (p1_archived_ids p) - set (p1_retained_ids p)) \<inter> set (map msg_id ms) = {}"
  by (simp add: phase1_applied_def Let_def)

lemma first_ids_distinct: "distinct xs \<Longrightarrow> set xs \<inter> seen = {} \<Longrightarrow> first_ids seen xs = xs"
  by (induction xs arbitrary: seen) auto

text \<open>The reading of an archive part followed by a live log and new messages.\<close>

lemma split_then_new:
  assumes "commit_split args original = (arch, ret)" and "distinct (map msg_id original @ new)"
    and "A = [] \<and> L = map msg_id original \<or> A = map msg_id arch \<and> (L = map msg_id original \<or> L = map msg_id ret)"
  shows "first_ids {} (A @ L @ new) = map msg_id original @ new"
proof -
  have all: "first_ids {} (map msg_id original @ new) = map msg_id original @ new" using assms(2) by (simp add: first_ids_distinct)
  obtain t where t: "original = arch @ t" using commit_split_reads(1) [OF assms(1)] by blast
  have sets: "set (map msg_id arch) \<union> set (map msg_id ret) = set (map msg_id original)"
    using commit_split_reads(4) [OF assms(1)] by auto
  have one: "first_ids {} ((map msg_id arch @ map msg_id original) @ new) = first_ids {} (map msg_id original @ new)"
    unfolding t by (simp add: first_ids_append first_ids_seen insert_absorb)
  have "first_ids {} ((map msg_id arch @ map msg_id ret) @ new) = first_ids {} (map msg_id original @ new)"
    unfolding first_ids_append [of "{}" _ new] commit_split_reads(2) [OF assms(1), of "{}"] using sets by simp
  with one all assms(3) show ?thesis by auto
qed

text \<open>C7: recovery after a crash neither loses nor duplicates a message. If the process died in the middle of a commit, without a
  failed marker, and other requests appended messages since, then the recovery decides: it answers yes only with the
  archive ready (or never started), no message that only the archive owns still live, and the archive with the live log read as the original messages followed by the new ones; it answers no only with a failed marker, and then
  the live log alone is all the original messages followed by the new ones.\<close>

theorem phase1_recovery_sound:
  assumes "commit_async env args evs s st = (s1, st1, Died)" and "commit_ready n s st"
    and "\<forall>ms. map msg_id (ce_externalize env ms) = map msg_id ms"
    and "\<not> ad_failed (archive_at st1 (Suc n))" and "st_live st \<noteq> None" and "ce_task_id env \<noteq> []"
    and "distinct (live_ids st @ map msg_id new)"
    and "ensure_phase1_ready now [] (Suc n) s2 (append_live new st1) = (s3, st3, out)"
  shows "out = Returned True \<and> first_ids {} (archive_ids st3 (Suc n) @ live_ids st3) = live_ids st @ map msg_id new
        \<and> \<not> ad_failed (archive_at st3 (Suc n))
        \<and> (\<forall>p. ad_phase1 (archive_at st3 (Suc n)) = Some p \<longrightarrow> p1_ready p
              \<and> (set (p1_archived_ids p) - set (p1_retained_ids p)) \<inter> set (live_ids st3) = {})
      \<or> out = Returned False \<and> live_ids st3 = live_ids st @ map msg_id new \<and> ad_failed (archive_at st3 (Suc n))"
proof -
  have n: "archives_numbered n st" using assms(2) by (simp add: commit_ready_def)
  have ext: "\<And>ms. map msg_id (ce_externalize env ms) = map msg_id ms" using assms(3) by blast
  from assms(1,2) ext show ?thesis
  proof (cases rule: commit_async_cases)
    case same
    then have "archive_at st1 (Suc n) = empty_archive" "st_live st1 \<noteq> None" "live_ids st1 = live_ids st"
      using quiet_fresh [OF same(1) n] assms(5) by (simp_all add: quiet_def)
    moreover have "st3 = append_live new st1" "out = Returned True"
      using assms(8) calculation(1) by (simp_all add: ensure_phase1_ready_def empty_archive_def)
    ultimately show ?thesis using assms(7)
      by (auto simp: empty_archive_def archive_ids_def archive_raw_def live_ids_def first_ids_distinct)
  next
    case (archived original arch ret)
    define p where "p = commit_marker env args original arch ret"
    note trace = archived(4) [folded p_def]
    have p: "\<not> p1_ready p" "p1_task_id p \<noteq> []" "p1_archived_ids p = map msg_id arch" "p1_retained_ids p = map msg_id ret"
      using assms(6) by (simp_all add: p_def)
    have d: "distinct (map msg_id original @ map msg_id new)" using assms(7) archived(3) by simp
    obtain live where live: "st_live st1 = Some live" "map msg_id live = map msg_id original \<or> live = ret
        \<and> ad_messages (archive_at st1 (Suc n)) = Some arch \<and> ad_phase1 (archive_at st1 (Suc n)) \<noteq> None \<and> has_queue_work st1 (p1_task_id p)"
      using trace assms(5) archived(3) by (auto simp: commit_trace_def live_ids_def)
    have raw: "archive_ids st1 (Suc n) = [] \<or> archive_ids st1 (Suc n) = map msg_id arch"
      using trace by (auto simp: commit_trace_def archive_ids_def archive_raw_def)
    have "archive_ids st1 (Suc n) = [] \<and> map msg_id live = map msg_id original
        \<or> archive_ids st1 (Suc n) = map msg_id arch \<and> (map msg_id live = map msg_id original \<or> map msg_id live = map msg_id ret)"
      using live(2) raw by (auto simp: archive_ids_def archive_raw_def)
    from split_then_new [OF archived(1) d this]
    have reads: "first_ids {} (archive_ids st1 (Suc n) @ map msg_id live @ map msg_id new) = live_ids st @ map msg_id new"
      using archived(3) by simp
    have ids: "archive_ids (append_live new st1) j = archive_ids st1 j" "live_ids (append_live new st1) = map msg_id live @ map msg_id new" for j
      by (simp_all add: archive_ids_def archive_raw_def live_ids_def live(1))
    show ?thesis
    proof (cases "ad_phase1 (archive_at st1 (Suc n)) = Some p")
      case False
      then have "ad_phase1 (archive_at st1 (Suc n)) = None \<or> ad_phase1 (archive_at st1 (Suc n)) = Some (p\<lparr>p1_ready := True\<rparr>)"
        using trace by (simp add: commit_trace_def)
      then have out: "out = Returned True" "st3 = append_live new st1"
          "ad_phase1 (archive_at st3 (Suc n)) = None \<or> ad_phase1 (archive_at st3 (Suc n)) = Some (p\<lparr>p1_ready := True\<rparr>)"
        using assms(8) by (auto simp: ensure_phase1_ready_def)
      have "live_ids st3 = map msg_id (ret @ new)" if "ad_phase1 (archive_at st3 (Suc n)) = Some (p\<lparr>p1_ready := True\<rparr>)"
        using trace that live(1) by (auto simp: out(2) commit_trace_def live_ids_def)
      then have "\<forall>q. ad_phase1 (archive_at st3 (Suc n)) = Some q \<longrightarrow> p1_ready q
          \<and> (set (p1_archived_ids q) - set (p1_retained_ids q)) \<inter> set (live_ids st3) = {}"
        using out(3) applied_disjoint [OF split_applied [OF archived(1) d p(3,4)]] by (elim disjE) simp_all
      then show ?thesis using out(1,2) reads ids assms(4) by simp
    next
      case True
      show ?thesis
      proof (cases "has_queue_work st1 (p1_task_id p) \<and> phase1_applied p (live @ new)")
        case False
        then have "ensure_phase1_ready now [] (Suc n) s2 (append_live new st1) = fail_phase1 (Suc n) [] s2 (append_live new st1)"
          using assms(4) True p(1,2) live(1) by (cases "has_queue_work st1 (p1_task_id p)") (simp_all add: ensure_phase1_ready_def)
        then have "out = Returned False \<and> st3 = write_failed_marker (Suc n) (append_live new st1)"
          using assms(8) by (simp add: fail_phase1_def)
        moreover have "map msg_id live = map msg_id original"
          using live(2) False split_applied [OF archived(1) d p(3,4)] by auto
        ultimately show ?thesis using archived(3) ids(2) by (simp add: write_failed_marker_def live_ids_def)
      next
        case ready: True
        have st3: "out = Returned True" "\<exists>m. st3 = write_phase1_ready (Suc n) (save_meta now m (append_live new st1))"
          using assms(4,8) True p(1,2) live(1) ready by (auto simp: ensure_phase1_ready_def Let_def)
        then have "archive_ids st3 (Suc n) = archive_ids st1 (Suc n)" "live_ids st3 = map msg_id live @ map msg_id new"
          "\<not> ad_failed (archive_at st3 (Suc n))" "ad_phase1 (archive_at st3 (Suc n)) = Some (p\<lparr>p1_ready := True\<rparr>)"
          using assms(4) True live(1) by (auto simp: write_phase1_ready_def save_meta_def archive_ids_def archive_raw_def live_ids_def)
        with st3(1) reads applied_disjoint [of p "live @ new"] ready show ?thesis by simp
      qed
    qed
  qed
qed

theorem phase1_recovery_sound_witness:
  "let crashed = fst (snd (commit_sample (replicate 4 IoOk @ [IoCrash True])));
       st = append_live [demo_message 2 ''user'' 8] crashed;
       r = ensure_phase1_ready ''t2'' [] 1 commit_session_sample st
   in live_ids crashed = [''b''] \<and> snd (snd r) = Returned True
     \<and> first_ids {} (archive_ids (fst (snd r)) 1 @ live_ids (fst (snd r))) = [''a'', ''b'', ''c'']"
proof -
  let ?evs = "replicate 4 IoOk @ [IoCrash True]" and ?new = "[demo_message 2 ''user'' 8]"
  define c where "c = fst (snd (commit_sample ?evs))"
  define r where "r = ensure_phase1_ready ''t2'' [] 1 commit_session_sample (append_live ?new c)"
  have died: "snd (snd (commit_sample ?evs)) = Died" by code_simp
  have run: "commit_async commit_env_sample commit_args_sample ?evs commit_session_sample commit_store_sample = (fst (commit_sample ?evs), c, Died)"
    unfolding commit_sample_run died c_def ..
  have before: "\<not> ad_failed (archive_at c (Suc 0))" "st_live commit_store_sample \<noteq> None" "ce_task_id commit_env_sample \<noteq> []"
    "distinct (live_ids commit_store_sample @ map msg_id ?new)"
    unfolding c_def by code_simp+
  have r: "ensure_phase1_ready ''t2'' [] (Suc 0) commit_session_sample (append_live ?new c) = (fst r, fst (snd r), snd (snd r))"
    by (simp add: r_def)
  have "case ad_phase1 (archive_at c 1) of None \<Rightarrow> False
      | Some p \<Rightarrow> \<not> p1_ready p \<and> p1_task_id p \<noteq> [] \<and> has_queue_work c (p1_task_id p) \<and> phase1_applied p (the (st_live c) @ ?new)"
    "st_live c \<noteq> None"
    unfolding c_def by code_simp+
  then have e1: "snd (snd r) = Returned True"
    using before(1) by (auto simp: r_def ensure_phase1_ready_def Let_def split: option.splits)
  have e2: "live_ids c = [''b'']" "live_ids commit_store_sample @ map msg_id ?new = [''a'', ''b'', ''c'']"
    unfolding c_def by code_simp+
  from phase1_recovery_sound [OF run commit_sample_ready before r] e1 e2(2)
  have "first_ids {} (archive_ids (fst (snd r)) 1 @ live_ids (fst (snd r))) = [''a'', ''b'', ''c'']" by (simp only: One_nat_def) simp
  with e1 e2(1) show ?thesis unfolding Let_def c_def [symmetric] r_def [symmetric] by blast
qed

end
