(* ===== verification/Spec2Isabelle.thy ===== *)
theory Spec2Isabelle
  imports Py_Prelude Viking_Uri Identity Namespace Uri_Validation Mutation_Coordinator
    Model_Retry Failover Circuit_Breaker Token_Estimation Message Retention
    Task_Store Task_Work_Index Task_Tracker Task_Lifecycle
    Py_Values Json_Text Retrieval_Targets Context_Params Context_Render Context_Gather Overview_Text
    Context_Tiers Context_Budget Context_Ledger Context_Pipeline
    Message_Json Session_Log Session_Policies Auto_Commit Request_Wait Session_Meta Session_State Session_Files Session_Checkpoints Session_Commit
begin

text \<open>
  A verification development for OpenViking, a context database for AI agents. The program stores
  memories, resources, skills and sessions under \<open>viking://\<close> URIs, one namespace per user of an
  account. This development models the parts that carry the program's own decisions: who may reach
  which URI, how concurrent work on URI scopes is kept apart, how model calls survive failing
  credentials, how a session is cut to a token budget, how background tasks
  live, are cancelled and end, and how the context for a model is gathered, budgeted and rendered. Paths below are relative to \<open>src/\<close>.

  \<^bold>\<open>Theories and the code they model.\<close>

  \<^item> \<open>Py_Prelude\<close>: exceptions as values (\<open>exn\<close>, \<open>res\<close>, \<open>bind_res\<close>), the string operations of Python that the code
    uses, dicts as association lists, the interface \<open>keyed_store\<close> and its interpretation \<open>dict\<close>.
  \<^item> \<open>Viking_Uri\<close>: \<open>openviking_cli/utils/uri.py\<close>, class \<open>VikingURI\<close>: parsing, parent, join, builders, sanitizer.
  \<^item> \<open>Identity\<close>: \<open>openviking/core/identifiers.py\<close>, \<open>openviking/core/peer_id.py\<close>,
    \<open>openviking_cli/session/user_id.py\<close>, \<open>openviking/server/identity.py\<close>: validators, \<open>UserIdentifier\<close>, roles and the request context.
  \<^item> \<open>Namespace\<close>: \<open>openviking/core/namespace.py\<close>: segments and classification of URIs, canonical URIs, the \<open>~\<close> and session
    aliases, \<open>is_accessible\<close>, the actor-peer view, owners of URIs.
  \<^item> \<open>Uri_Validation\<close>: \<open>openviking/core/uri_validation.py\<close>: what the API accepts as a URI and as a content target.
  \<^item> \<open>Mutation_Coordinator\<close>: \<open>openviking/resource/uri_mutation_coordinator.py\<close>: leases on URI scopes. The two lists of
    active leases and the waiting coroutines are the state; \<open>coord_step\<close> is any interleaving of \<open>access\<close>
    and \<open>mutation\<close>. The interface \<open>conflict_relation\<close> carries the readers-writers argument and is interpreted by \<open>lease_overlaps\<close>.
  \<^item> \<open>Model_Retry\<close>: \<open>openviking/utils/model_retry.py\<close>: classification of API errors with an executable matcher for the
    status-code pattern, the retry loop, \<open>PrimaryBackupSwitcher\<close>, \<open>OrderedCredentialSwitcher\<close>.
  \<^item> \<open>Failover\<close>: \<open>FailoverEmbedder\<close> in \<open>openviking/models/embedder/base.py\<close>, \<open>MultiCredentialVLM\<close> and \<open>FailoverVLM\<close> in
    \<open>openviking/models/vlm/base.py\<close>: calls, streams and media calls over several credentials. The provider calls are parameters.
  \<^item> \<open>Circuit_Breaker\<close>: \<open>openviking/utils/circuit_breaker.py\<close>.
  \<^item> \<open>Token_Estimation\<close>: \<open>openviking/utils/token_estimation.py\<close>. The interface \<open>downward_closed\<close> carries the correctness of the binary
    search and is interpreted by the fitting prefixes of a text.
  \<^item> \<open>Message\<close>: \<open>openviking/message/message.py\<close> and \<open>openviking/message/part.py\<close>: messages, parts and their token estimate.
  \<^item> \<open>Retention\<close>: \<open>openviking/session/retention.py\<close>: turns and steps, \<open>plan_retention\<close>, \<open>fit_active_messages_to_budget\<close>.
  \<^item> \<open>Task_Store\<close>, \<open>Task_Work_Index\<close>, \<open>Task_Tracker\<close>: \<open>openviking/service/task_store.py\<close>, \<open>openviking/service/task_work_index.py\<close>,
    \<open>openviking/service/task_tracker.py\<close>: the store is the list of its files, the tracker state is the cache, the store and
    the work index, and each operation on one task is one atomic step.
  \<^item> \<open>Task_Lifecycle\<close>: the step relation of the tracker, its invariant and its properties.
  \<^item> \<open>Py_Values\<close>, \<open>Json_Text\<close>: \<open>int\<close> and \<open>float\<close> of dynamic values, and the reader of JSON text, with the proof that it
    reads what \<open>dumps\<close> writes and returns only well-formed values.
  \<^item> \<open>Retrieval_Targets\<close>: \<open>openviking/core/retrieval_targets.py\<close>: the directories a search covers.
  \<^item> \<open>Context_Params\<close>, \<open>Context_Gather\<close>, \<open>Overview_Text\<close>, \<open>Context_Tiers\<close>, \<open>Context_Budget\<close>, \<open>Context_Render\<close>, \<open>Context_Ledger\<close>,
    \<open>Context_Pipeline\<close>: \<open>openviking/retrieve/context_assembler/\<close>, one theory per module (\<open>tiers.py\<close> is split into its text functions
    and the rest; \<open>expansion.py\<close> and \<open>rewrite.py\<close> are in \<open>Context_Pipeline\<close>), with the filter conjunction of \<open>openviking/utils/search_filters.py\<close>.
    The record \<open>world\<close> holds what the session, the search, the file system and the model answer; \<open>assemble_context\<close> composes the
    modules in the order of the code.
  \<^item> \<open>Message_Json\<close>, \<open>Session_Log\<close>: the JSONL form of messages (\<open>to_dict\<close>, \<open>from_dict\<close>, \<open>part_from_dict\<close>) and the message log of
    \<open>openviking/session/session.py\<close>: writing, appending, the loader, the strict reader, the archive reader and the counter.
  \<^item> \<open>Session_Policies\<close>: \<open>openviking/session/auto_commit_policy.py\<close> and \<open>openviking/session/memory_policy.py\<close>.
  \<^item> \<open>Auto_Commit\<close>: \<open>openviking/service/session_auto_commit.py\<close> and the decision and claims of
    \<open>openviking/service/session_service.py\<close>: the idle scan over the storage, and the state of running automatic commits.
  \<^item> \<open>Session_Meta\<close>, \<open>Session_State\<close>, \<open>Session_Commit\<close>: \<open>openviking/session/session.py\<close>: the metadata and its stored form, the token
    counters, and the first phase of a commit with its recovery. The files of a session are the record \<open>session_store\<close>; each write is done, raises or
    is cut off by a crash as an event says, and what a reader gets is \<open>session_context_messages\<close>.
  \<^item> \<open>Session_Files\<close>: the session object and the texts of its files: \<open>load\<close>, \<open>ensure_exists\<close>, \<open>update_config\<close>, appending under the lock.
  \<^item> \<open>Session_Checkpoints\<close>: archive states and coverage, checkpoints of partly archived turns, and the context of a reader under a token budget.
  \<^item> \<open>Request_Wait\<close>: \<open>openviking/telemetry/request_wait_tracker.py\<close>: the tracker is a dict of states, a history is a list of calls.

  \<^bold>\<open>How the parts interact.\<close> A request carries a \<open>request_context\<close> with a \<open>UserIdentifier\<close>; its URIs pass \<open>Uri_Validation\<close>, which uses
  \<open>Viking_Uri\<close> and \<open>Namespace\<close>. Operations that need a stable scope hold a lease of the coordinator. Model calls run
  through a retry loop inside each credential and a failover loop over the credentials; their errors reach the circuit breaker
  through the same classifier. Long operations are tasks; the queue registers its messages in the work index and asks the tracker to
  finalize a task before the last message is acknowledged. A context request gathers hits over the retrieval targets of its caller,
  spends the token budget over them with the estimator of \<open>Token_Estimation\<close>, renders them, and records in the session's ledger what
  it served, which the next request of the session reads. The messages of a session are a log of JSON lines; message writes and
  the idle scan ask the service for automatic commits under the stored policy. The identifiers of a request become directories of the
  task store, which is the property of this theory.

  \<^bold>\<open>What the lemmas show.\<close> Access: a caller without the root role reaches only user-scope URIs of its own, aliases expand below the
  caller's root, resolution is idempotent and never leaves an alias, content targets are of the requested kind. URIs: building
  and parsing, joining and parent are inverse, the parent chain is well founded, sanitized segments are safe and bounded.
  Coordinator: an active mutation excludes every overlapping lease in every reachable state, and every waiting lease can be admitted.
  Models: a failover serves a request whenever some credential can, reports exhaustion completely, never mixes streams; retries are bounded;
  the breaker trips and its timeout stays in its bounds. Tokens and retention: truncation and the view of active messages
  never exceed the budget, a retention plan loses no message and cuts at step boundaries, overflow is reported and minimal.
  Tasks: stored records move only along the status machine, terminal records are final, the cache equals the store, completion waits
  for owned work, cancellation rejects new work, a failed acknowledgement keeps the work item, snapshots belong to the
  requested owner and carry no secrets. Context: the deduplication of hits equals its specification, candidates have declared categories and
  respect exclusions, a plan accounts for its tokens and the rendered block never exceeds the budget, unpinned resources show at most
  their stored abstract, the envelope tags are exactly those of the entries, the digest cites only returned entries, the ledger stays
  bounded for every file content, and what one request serves the next ones do not repeat. Sessions: a message log is read back
  completely and in order, stored metadata is stable, the pending-token counter is the one a reload computes, however a commit ends a reader sees the same
  messages unless the new archive is marked as failed, the recovery after a crash loses no message, no append that returned is
  lost, a load sees exactly what the last append stored, a pending archive is never covered, checkpoints reach the reader,
  the context keeps its budget, policies are normalised and read back from their stored form, the idle scan is exact, the service agrees with it, no session has two
  automatic commits. Waiting: a request is complete exactly when every root announced for it is settled. One theorem shows a defect, that a
  failed commit hides messages; the lemmas \<open>envelope_forged\<close>, \<open>bad_policy_stops_scan\<close>, \<open>malformed_sidecar_fails_plan\<close>,
  \<open>blank_peer_escapes_view\<close>, \<open>infinite_turn_fails_request\<close>, \<open>identifier_trailing_newline\<close> and \<open>failback_transient_error\<close> show others.

  \<^bold>\<open>Modelling choices and bounds.\<close> Strings are Latin-1 except for message texts, which are code points. Time is rational. Floats that occur are
  dyadic and small, so rationals represent them; \<open>nextafter\<close> is the spacing of doubles from one half on. Every loop is a
  total function, with a measure where the recursion is not structural; fuel is used only by the JSON reader, one unit per character and one more; the polling wait, which may not end, is a partial function with the result \<open>None\<close> for not returning. Exceptions are their classes.
  The clock, random draws, fresh identifiers and whether the store accepts a write are arguments. Sections under a lock are atomic.

  \<^bold>\<open>Not modelled.\<close> Cancellation of calling coroutines and the loop dispatcher of the tracker, the recogniser of SDK rate-limit
  exceptions, the summaries and second phase of a commit, externalized tool results, the preset of the \<open>/recall\<close> endpoint, time and level filters of a search, the search service behind
  the gatherer, the extraction of code skeletons and memory bodies (parameters of \<open>content_env\<close>), the storage engine and vector index, parsers,
  LLM back ends, servers and routers, the bot, the SDKs, the command line and the benchmarks. The next parts in the plan are the second phase of a commit, the concurrency
  primitives of the tracker and the statistics of retrieval.
\<close>

lemma user_identifier_slash_free:
  assumes "mk_user_identifier a u = Inr i"
  shows "ui_account_id i = a \<and> ui_user_id i = u \<and> slash_free a \<and> slash_free u \<and> a \<noteq> ''_system''"
proof -
  have v: "ui_account_id i = a" "ui_user_id i = u" "validate_account_id a = None" "validate_user_id u = None"
    using mk_user_identifier_valid [OF assms] by auto
  have a: "validate_identifier_part a ''account_id'' = None" "\<not> startswith a ''_''"
    using v(3) by (auto simp: validate_account_id_def split: option.splits if_splits)
  have u: "validate_identifier_part u ''user_id'' = None"
    using v(4) by (simp add: validate_user_id_def)
  have "a \<noteq> ''_system''" using a(2) by (auto simp: startswith_def)
  then show ?thesis
    using v validate_part_clean [OF a(1)] validate_part_clean [OF u] by (auto simp: slash_free_def)
qed

text \<open>C37: tasks of different users never share a file. For identities that the constructor of
  \<open>UserIdentifier\<close> accepts and task identifiers that are path segments, equal task files mean equal
  account, user and task; and no such file is one of the system account, whose directory has a special form.\<close>

theorem task_files_disjoint:
  assumes "mk_user_identifier a u = Inr i" and "mk_user_identifier a' u' = Inr j"
    and "slash_free tid" and "slash_free tid'" and "slash_free v"
  shows "(task_path (ui_account_id i) (ui_user_id i) tid = task_path (ui_account_id j) (ui_user_id j) tid'
       \<longleftrightarrow> i = j \<and> tid = tid')
    \<and> task_path (ui_account_id i) (ui_user_id i) tid \<noteq> task_path SYSTEM_TASK_ACCOUNT_ID v tid'"
proof -
  note i = user_identifier_slash_free [OF assms(1)] and j = user_identifier_slash_free [OF assms(2)]
  have "slash_free SYSTEM_TASK_ACCOUNT_ID" by (simp add: slash_free_def SYSTEM_TASK_ACCOUNT_ID_def)
  then have "task_path a u tid \<noteq> task_path SYSTEM_TASK_ACCOUNT_ID v tid'"
    using i assms(3-5) by (simp add: task_path_inject) (simp add: SYSTEM_TASK_ACCOUNT_ID_def)
  moreover have "i = j \<longleftrightarrow> a = a' \<and> u = u'" using i j by auto
  ultimately show ?thesis using i j assms(3,4) by (simp add: task_path_inject)
qed

theorem task_files_disjoint_witness:
  "task_path ''acme'' ''alice'' ''t1'' \<noteq> task_path ''acme'' ''bob'' ''t1''"
proof -
  have h: "mk_user_identifier ''acme'' ''alice'' = Inr \<lparr>ui_account_id = ''acme'', ui_user_id = ''alice''\<rparr>"
    "mk_user_identifier ''acme'' ''bob'' = Inr \<lparr>ui_account_id = ''acme'', ui_user_id = ''bob''\<rparr>"
    by code_simp+
  show ?thesis
    using task_files_disjoint [OF h, of "''t1''" "''t1''" "''root''"] by (simp add: slash_free_def)
qed

end
